(* ===== verification/Omni_Prelude.thy ===== *)
theory Omni_Prelude
  imports Main "HOL-Library.Word"
begin

text \<open>
  Shared vocabulary of the development.  It fixes how the Rust code is read:

  \<^item> the integer types \<open>u8 .. u64\<close> and \<open>usize\<close> are words of their width; the target is
    \<^verbatim>\<open>x86_64\<close> (\<^verbatim>\<open>.cargo/config.toml\<close>), so \<open>usize\<close> has 64 bits and memory is little endian;
  \<^item> \<open>profile\<close> is the cargo profile: with \<open>Debug\<close> an arithmetic overflow, an over-long shift and a
    failed \<^verbatim>\<open>debug_assert!\<close> panic, with \<open>Release\<close> the arithmetic wraps and the assertion is not
    compiled in;
  \<^item> \<open>outcome\<close> is what running a piece of code amounts to: it is \<open>Done\<close> with a value, it panics
    (a failed \<^verbatim>\<open>unwrap\<close>, \<^verbatim>\<open>assert!\<close>, index or checked arithmetic), it is undefined behaviour
    (\<open>Undef\<close>: an \<^verbatim>\<open>unsafe\<close> access outside what it may touch) or it is still running when the fuel
    given to a loop is used up (\<open>Hang\<close>);
  \<^item> \<open>result\<close> is Rust's \<^verbatim>\<open>Result\<close>;
  \<^item> \<open>mem\<close> is the byte memory behind the raw pointers.
\<close>

unbundle bit_operations_syntax

named_theorems exec_simps \<open>evaluation rules of the outcome monad\<close>
named_theorems chk_simps \<open>checked arithmetic where it does not overflow\<close>
named_theorems mem_simps \<open>loads after stores\<close>

type_synonym u8 = "8 word"
type_synonym u16 = "16 word"
type_synonym u32 = "32 word"
type_synonym u64 = "64 word"
type_synonym usize = "64 word"
type_synonym ptr = nat
type_synonym mem = "nat \<Rightarrow> u8"

datatype profile = Debug | Release

datatype 'a outcome = Done 'a | Panic | Undef | Hang

datatype ('a, 'e) result = Ok 'a | Err 'e

section \<open>Sequencing\<close>

primrec andthen :: "'a outcome \<Rightarrow> ('a \<Rightarrow> 'b outcome) \<Rightarrow> 'b outcome" where
  "andthen (Done x) f = f x"
| "andthen Panic f = Panic"
| "andthen Undef f = Undef"
| "andthen Hang f = Hang"

declare andthen.simps [exec_simps]

lemma andthen_cong [fundef_cong]:
  "m = m' \<Longrightarrow> (\<And>x. m' = Done x \<Longrightarrow> f x = f' x) \<Longrightarrow> andthen m f = andthen m' f'"
  by (cases m') auto

lemma andthen_eq_Done [simp]: "andthen m f = Done y \<longleftrightarrow> (\<exists>x. m = Done x \<and> f x = Done y)"
  by (cases m) auto

lemma andthen_eq_Undef [simp]:
  "andthen m f = Undef \<longleftrightarrow> m = Undef \<or> (\<exists>x. m = Done x \<and> f x = Undef)"
  by (cases m) auto

lemma andthen_assoc: "andthen (andthen m f) g = andthen m (\<lambda>x. andthen (f x) g)"
  by (cases m) auto

lemma andthen_Done_right [simp]: "andthen m Done = m"
  by (cases m) auto

text \<open>The \<^verbatim>\<open>?\<close> operator on a computation that also returns a state: an error is passed on together
  with the state reached, a value is handed to the rest.\<close>

definition qmark :: "('s \<times> ('a, 'e) result) outcome \<Rightarrow> ('s \<Rightarrow> 'a \<Rightarrow> ('s \<times> ('b, 'e) result) outcome)
    \<Rightarrow> ('s \<times> ('b, 'e) result) outcome" where
  "qmark m f = andthen m (\<lambda>(s, r). case r of Ok a \<Rightarrow> f s a | Err e \<Rightarrow> Done (s, Err e))"

lemma qmark_simps [simp, exec_simps]:
  "qmark (Done (s, Ok a)) f = f s a"
  "qmark (Done (s, Err e)) f = Done (s, Err e)"
  "qmark Panic f = Panic"
  "qmark Undef f = Undef"
  "qmark Hang f = Hang"
  by (simp_all add: qmark_def)

lemma qmark_cases:
  obtains s a where "m = Done (s, Ok a)" | s e where "m = Done (s, Err e)" | "m = Panic" | "m = Undef" | "m = Hang"
  by (metis outcome.exhaust prod.exhaust result.exhaust)

lemma qmark_eq_Done:
  "qmark m f = Done y \<longleftrightarrow>
     (\<exists>s a. m = Done (s, Ok a) \<and> f s a = Done y) \<or> (\<exists>s e. m = Done (s, Err e) \<and> y = (s, Err e))"
  by (rule qmark_cases[of m]) (auto simp: qmark_def)

lemma qmark_eq_Undef:
  "qmark m f = Undef \<longleftrightarrow> m = Undef \<or> (\<exists>s a. m = Done (s, Ok a) \<and> f s a = Undef)"
  by (rule qmark_cases[of m]) (auto simp: qmark_def)

lemma case_result_Done [simp]:
  "(case r of Ok a \<Rightarrow> f a | Err e \<Rightarrow> Panic) = Done y \<longleftrightarrow> (\<exists>a. r = Ok a \<and> f a = Done y)"
  by (cases r) auto

text \<open>\<^verbatim>\<open>assert!\<close> and \<^verbatim>\<open>debug_assert!\<close>, and \<^verbatim>\<open>Option::unwrap\<close>.\<close>

definition assert_that :: "bool \<Rightarrow> unit outcome" where
  "assert_that b = (if b then Done () else Panic)"

definition debug_assert :: "profile \<Rightarrow> bool \<Rightarrow> unit outcome" where
  "debug_assert p b = (if p = Debug \<and> \<not> b then Panic else Done ())"

definition unwrap :: "'a option \<Rightarrow> 'a outcome" where
  "unwrap x = (case x of Some v \<Rightarrow> Done v | None \<Rightarrow> Panic)"

lemma assert_that_simps [simp, exec_simps]:
  "assert_that True = Done ()" "assert_that False = Panic"
  by (simp_all add: assert_that_def)

lemma debug_assert_simps [simp, exec_simps]:
  "debug_assert p True = Done ()" "debug_assert Debug False = Panic"
  "debug_assert Release b = Done ()"
  by (simp_all add: debug_assert_def)

lemma unwrap_simps [simp, exec_simps]:
  "unwrap (Some v) = Done v" "unwrap None = Panic"
  by (simp_all add: unwrap_def)

lemma unwrap_eq [simp]:
  "unwrap x = Done v \<longleftrightarrow> x = Some v" "unwrap x = Panic \<longleftrightarrow> x = None" "unwrap x \<noteq> Undef"
  by (auto simp: unwrap_def split: option.splits)

lemma assert_that_eq [simp]:
  "assert_that b = Done u \<longleftrightarrow> b" "assert_that b = Panic \<longleftrightarrow> \<not> b" "assert_that b \<noteq> Undef"
  by (auto simp: assert_that_def)

lemma debug_assert_not_Undef [simp]: "debug_assert p b \<noteq> Undef"
  by (simp add: debug_assert_def)

section \<open>Arithmetic of the two profiles\<close>

definition add_chk :: "profile \<Rightarrow> 'a::len word \<Rightarrow> 'a word \<Rightarrow> 'a word outcome" where
  "add_chk p a b =
     (if p = Debug \<and> 2 ^ LENGTH('a) \<le> unat a + unat b then Panic else Done (a + b))"

definition sub_chk :: "profile \<Rightarrow> 'a::len word \<Rightarrow> 'a word \<Rightarrow> 'a word outcome" where
  "sub_chk p a b = (if p = Debug \<and> a < b then Panic else Done (a - b))"

definition shl_chk :: "profile \<Rightarrow> 'a::len word \<Rightarrow> nat \<Rightarrow> 'a word outcome" where
  "shl_chk p a n =
     (if p = Debug \<and> LENGTH('a) \<le> n then Panic else Done (push_bit (n mod LENGTH('a)) a))"

lemma add_chk_fits [chk_simps]:
  "unat a + unat (b :: 'a::len word) < 2 ^ LENGTH('a) \<Longrightarrow> add_chk p a b = Done (a + b)"
  by (simp add: add_chk_def)

lemma add_chk_Release [simp, exec_simps]: "add_chk Release a b = Done (a + b)"
  by (simp add: add_chk_def)

lemma sub_chk_fits [chk_simps]: "b \<le> a \<Longrightarrow> sub_chk p a b = Done (a - b)"
  by (auto simp: sub_chk_def)

lemma sub_chk_Release [simp, exec_simps]: "sub_chk Release a b = Done (a - b)"
  by (simp add: sub_chk_def)

lemma shl_chk_fits [chk_simps]:
  "n < LENGTH('a) \<Longrightarrow> shl_chk p (a :: 'a::len word) n = Done (push_bit n a)"
  by (simp add: shl_chk_def)

lemma chk_not_Undef [simp]:
  "add_chk p a b \<noteq> Undef" "sub_chk p a b \<noteq> Undef" "shl_chk p a n \<noteq> Undef"
  by (simp_all add: add_chk_def sub_chk_def shl_chk_def)

lemma add_chk_eq_Done:
  "add_chk p a b = Done c \<longleftrightarrow>
     c = a + b \<and> (p = Debug \<longrightarrow> unat a + unat (b :: 'a::len word) < 2 ^ LENGTH('a))"
  by (auto simp: add_chk_def)

lemma sub_chk_eq_Done: "sub_chk p a b = Done c \<longleftrightarrow> c = a - b \<and> (p = Debug \<longrightarrow> b \<le> a)"
  by (auto simp: sub_chk_def)

lemma unat_add_fits:
  "unat a + unat (b :: 'a::len word) < 2 ^ LENGTH('a) \<Longrightarrow> unat (a + b) = unat a + unat b"
  by (simp add: unat_word_ariths)

lemma unat_sub_fits: "b \<le> a \<Longrightarrow> unat (a - b) = unat a - unat (b :: 'a::len word)"
  by (rule unat_sub)

lemma unat_of_nat_small: "n < 2 ^ LENGTH('a) \<Longrightarrow> unat (of_nat n :: 'a::len word) = n"
  by (simp add: unsigned_of_nat take_bit_nat_eq_self)

lemma word_gt_1: "0 < x \<Longrightarrow> x \<noteq> 1 \<Longrightarrow> 1 < (x :: 'a::len word)"
  by (simp add: word_less_nat_alt word_unat_eq_iff)

section \<open>Little-endian bytes\<close>

primrec from_le :: "u8 list \<Rightarrow> 'a::len word" where
  "from_le [] = 0"
| "from_le (b # bs) = ucast b OR push_bit 8 (from_le bs)"

definition to_le :: "nat \<Rightarrow> 'a::len word \<Rightarrow> u8 list" where
  "to_le n x = map (\<lambda>i. ucast (drop_bit (8 * i) x)) [0..<n]"

text \<open>\<^verbatim>\<open>uN::to_be\<close>, \<^verbatim>\<open>uN::from_be\<close> on the little-endian target: the bytes reversed.\<close>

definition bswap :: "'a::len word \<Rightarrow> 'a word" where
  "bswap x = from_le (rev (to_le (LENGTH('a) div 8) x))"

lemma length_to_le [simp]: "length (to_le n x) = n"
  by (simp add: to_le_def)

lemma bit_from_le:
  "bit (from_le bs :: 'a::len word) i \<longleftrightarrow>
     i < LENGTH('a) \<and> i div 8 < length bs \<and> bit (bs ! (i div 8)) (i mod 8)"
proof (induction bs arbitrary: i)
  case Nil
  then show ?case by simp
next
  case (Cons b bs)
  show ?case
  proof (cases "i < 8")
    case True
    then show ?thesis by (auto simp: bit_simps)
  next
    case False
    then have div: "i div 8 = Suc ((i - 8) div 8)" and md: "i mod 8 = (i - 8) mod 8"
      by (simp_all add: div_if mod_if)
    have "\<not> bit b i" using False bit_imp_le_length[of b i] by auto
    then show ?thesis using False Cons.IH[of "i - 8"]
      by (auto simp: bit_simps div md)
  qed
qed

lemma bit_to_le_nth:
  "i < n \<Longrightarrow> bit (to_le n (x :: 'a::len word) ! i) j \<longleftrightarrow> j < 8 \<and> bit x (8 * i + j)"
  by (auto simp: to_le_def bit_simps add.commute)

lemma from_le_to_le: "LENGTH('a) \<le> 8 * n \<Longrightarrow> from_le (to_le n x) = (x :: 'a::len word)"
proof (rule bit_word_eqI)
  fix i assume n: "LENGTH('a) \<le> 8 * n" and i: "i < LENGTH('a)"
  then have "i div 8 < n" by (simp add: div_less_iff_less_mult)
  with i show "bit (from_le (to_le n x) :: 'a word) i = bit x i"
    by (simp add: bit_from_le bit_to_le_nth)
qed

lemma to_le_from_le: "8 * length bs \<le> LENGTH('a) \<Longrightarrow> to_le (length bs) (from_le bs :: 'a::len word) = bs"
proof (rule nth_equalityI)
  fix i assume len: "8 * length bs \<le> LENGTH('a)"
    and "i < length (to_le (length bs) (from_le bs :: 'a word))"
  then have i: "i < length bs" by simp
  show "to_le (length bs) (from_le bs :: 'a word) ! i = bs ! i"
  proof (rule bit_word_eqI)
    fix j assume "j < LENGTH(8)"
    with i len show "bit (to_le (length bs) (from_le bs :: 'a word) ! i) j = bit (bs ! i) j"
      by (simp add: bit_to_le_nth bit_from_le)
  qed
qed simp

lemma from_le_inject:
  assumes "length as = length bs" and "8 * length bs \<le> LENGTH('a)"
    and "(from_le as :: 'a::len word) = from_le bs"
  shows "as = bs"
  using assms to_le_from_le[of as, where 'a='a] to_le_from_le[of bs, where 'a='a] by metis

lemma bswap_bswap: "8 dvd LENGTH('a) \<Longrightarrow> bswap (bswap x) = (x :: 'a::len word)"
proof -
  assume d: "8 dvd LENGTH('a)"
  let ?n = "LENGTH('a) div 8"
  have "to_le ?n (from_le (rev (to_le ?n x)) :: 'a word) = rev (to_le ?n x)"
    using to_le_from_le[of "rev (to_le ?n x)", where 'a='a] d by simp
  then show ?thesis using d by (simp add: bswap_def from_le_to_le)
qed

lemma bswap_bswap16 [simp]: "bswap (bswap x) = (x :: u16)"
  by (rule bswap_bswap) simp

lemma bswap_bswap32 [simp]: "bswap (bswap x) = (x :: u32)"
  by (rule bswap_bswap) simp

section \<open>Byte memory\<close>

definition load_bytes :: "nat \<Rightarrow> nat \<Rightarrow> mem \<Rightarrow> u8 list" where
  "load_bytes a n m = map (\<lambda>i. m (a + i)) [0..<n]"

definition store_bytes :: "nat \<Rightarrow> u8 list \<Rightarrow> mem \<Rightarrow> mem" where
  "store_bytes a bs m = (\<lambda>x. if a \<le> x \<and> x < a + length bs then bs ! (x - a) else m x)"

definition load16 :: "nat \<Rightarrow> mem \<Rightarrow> u16" where
  "load16 a m = from_le (load_bytes a 2 m)"

definition store16 :: "nat \<Rightarrow> u16 \<Rightarrow> mem \<Rightarrow> mem" where
  "store16 a v m = store_bytes a (to_le 2 v) m"

definition load32 :: "nat \<Rightarrow> mem \<Rightarrow> u32" where
  "load32 a m = from_le (load_bytes a 4 m)"

definition store32 :: "nat \<Rightarrow> u32 \<Rightarrow> mem \<Rightarrow> mem" where
  "store32 a v m = store_bytes a (to_le 4 v) m"

definition load8 :: "nat \<Rightarrow> mem \<Rightarrow> u8" where
  "load8 a m = m a"

definition store8 :: "nat \<Rightarrow> u8 \<Rightarrow> mem \<Rightarrow> mem" where
  "store8 a v m = m(a := v)"

lemma length_load_bytes [simp]: "length (load_bytes a n m) = n"
  by (simp add: load_bytes_def)

lemma load_store_bytes_same [mem_simps]:
  "n = length bs \<Longrightarrow> load_bytes a n (store_bytes a bs m) = bs"
  by (rule nth_equalityI) (simp_all add: load_bytes_def store_bytes_def)

lemma load_store_bytes_disjoint [mem_simps]:
  "a + n \<le> b \<or> b + length bs \<le> a \<Longrightarrow> load_bytes a n (store_bytes b bs m) = load_bytes a n m"
  by (rule nth_equalityI) (auto simp: load_bytes_def store_bytes_def)

lemma load_store_same [mem_simps, simp]:
  "load16 a (store16 a v m) = v" "load32 a (store32 a w m) = w" "load8 a (store8 a b m) = b"
  by (simp_all add: load16_def store16_def load32_def store32_def load8_def store8_def
      load_store_bytes_same from_le_to_le)

lemma store8_eq_store_bytes: "store8 a v m = store_bytes a [v] m"
  by (auto simp: store8_def store_bytes_def)

lemma load8_eq_load_bytes: "load8 a m = hd (load_bytes a 1 m)"
  by (simp add: load8_def load_bytes_def)

lemmas store_defs = store8_eq_store_bytes store16_def store32_def
lemmas load_defs = load8_eq_load_bytes load16_def load32_def

lemma load_bytes_store_disjoint [mem_simps]:
  "a + n \<le> b \<or> b + 1 \<le> a \<Longrightarrow> load_bytes a n (store8 b x m) = load_bytes a n m"
  "a + n \<le> b \<or> b + 2 \<le> a \<Longrightarrow> load_bytes a n (store16 b y m) = load_bytes a n m"
  "a + n \<le> b \<or> b + 4 \<le> a \<Longrightarrow> load_bytes a n (store32 b z m) = load_bytes a n m"
  by (simp_all add: store_defs load_store_bytes_disjoint)

lemma load8_store_disjoint [mem_simps]:
  "a \<noteq> b \<Longrightarrow> load8 a (store8 b x m) = load8 a m"
  "a + 1 \<le> b \<or> b + 2 \<le> a \<Longrightarrow> load8 a (store16 b y m) = load8 a m"
  "a + 1 \<le> b \<or> b + 4 \<le> a \<Longrightarrow> load8 a (store32 b z m) = load8 a m"
  "a + 1 \<le> b \<or> b + length bs \<le> a \<Longrightarrow> load8 a (store_bytes b bs m) = load8 a m"
  by (auto simp: load8_def store_defs store_bytes_def)

lemma load16_store_disjoint [mem_simps]:
  "a + 2 \<le> b \<or> b + 1 \<le> a \<Longrightarrow> load16 a (store8 b x m) = load16 a m"
  "a + 2 \<le> b \<or> b + 2 \<le> a \<Longrightarrow> load16 a (store16 b y m) = load16 a m"
  "a + 2 \<le> b \<or> b + 4 \<le> a \<Longrightarrow> load16 a (store32 b z m) = load16 a m"
  "a + 2 \<le> b \<or> b + length bs \<le> a \<Longrightarrow> load16 a (store_bytes b bs m) = load16 a m"
  by (simp_all add: load16_def store_defs load_store_bytes_disjoint)

lemma load32_store_disjoint [mem_simps]:
  "a + 4 \<le> b \<or> b + 1 \<le> a \<Longrightarrow> load32 a (store8 b x m) = load32 a m"
  "a + 4 \<le> b \<or> b + 2 \<le> a \<Longrightarrow> load32 a (store16 b y m) = load32 a m"
  "a + 4 \<le> b \<or> b + 4 \<le> a \<Longrightarrow> load32 a (store32 b z m) = load32 a m"
  "a + 4 \<le> b \<or> b + length bs \<le> a \<Longrightarrow> load32 a (store_bytes b bs m) = load32 a m"
  by (simp_all add: load32_def store_defs load_store_bytes_disjoint)

section \<open>Lists and find\<close>

lemma find_eq_None_iff: "List.find P xs = None \<longleftrightarrow> (\<forall>x\<in>set xs. \<not> P x)"
  by (induction xs) auto

lemma find_append: "List.find P (xs @ ys) = (case List.find P xs of None \<Rightarrow> List.find P ys | Some x \<Rightarrow> Some x)"
  by (induction xs) auto

lemma find_Some_set: "List.find P xs = Some x \<Longrightarrow> x \<in> set xs \<and> P x"
  by (induction xs) (auto split: if_splits)

lemma find_unique: "distinct (map f xs) \<Longrightarrow> c \<in> set xs \<Longrightarrow> List.find (\<lambda>x. f x = f c) xs = Some c"
  by (induction xs) auto

lemma upto_div_less: "(i :: nat) < n * 8 \<Longrightarrow> i div 8 < n"
  by (simp add: div_less_iff_less_mult)

end
