(* ===== verification/Protocol.thy ===== *)
theory Protocol
  imports Omni_Prelude
begin

text \<open>
  The wire formats of \<^verbatim>\<open>omnistack-core/src/protocol.rs\<close>: MAC and IPv4 addresses with their parser and
  printer, the packed Ethernet, IPv4 and UDP headers as they lie in memory, the accessors of the
  IPv4 header and the route entries.  The facts shown: what \<^verbatim>\<open>Ipv4Addr::from_str\<close> does on every
  string (\<open>from_str_spec\<close>), the round trip with the printer, that the three headers are faithful
  views of their bytes (the locale \<open>header_codec\<close> and its interpretations), what the nibble setters
  of the IPv4 header write, and which bits \<^verbatim>\<open>Route::matches\<close> compares.
\<close>

section \<open>MAC addresses\<close>

datatype mac_addr = MacAddr (raw: "u8 list")

definition MacAddr_from_bytes :: "u8 list \<Rightarrow> mac_addr" where
  "MacAddr_from_bytes bytes = MacAddr bytes"

definition MacAddr_new :: mac_addr where
  "MacAddr_new = MacAddr_from_bytes (replicate 6 0)"

definition as_bytes :: "mac_addr \<Rightarrow> u8 list" where
  "as_bytes m = raw m"

section \<open>IPv4 addresses\<close>

datatype ipv4_addr = Ipv4Addr (octets: "u8 list")

definition wf_ipv4 :: "ipv4_addr \<Rightarrow> bool" where
  "wf_ipv4 a \<longleftrightarrow> length (octets a) = 4"

definition from_be :: "u32 \<Rightarrow> ipv4_addr" where
  "from_be x = Ipv4Addr (to_le 4 x)"

definition to_u32_le :: "ipv4_addr \<Rightarrow> u32" where
  "to_u32_le a = from_le (rev (octets a))"

definition to_u32_be :: "ipv4_addr \<Rightarrow> u32" where
  "to_u32_be a = from_le (octets a)"

datatype parse_ipv4_error = InvalidAddress

text \<open>What the parser and the printer use of the standard library: \<^verbatim>\<open>str::split\<close> on one character,
  \<^verbatim>\<open>u8::from_str\<close> (an optional plus sign, at least one digit, no overflow) and the decimal \<^verbatim>\<open>Display\<close>
  of an unsigned integer.\<close>

fun split_on :: "char \<Rightarrow> string \<Rightarrow> string list" where
  "split_on d [] = [[]]"
| "split_on d (c # cs) =
     (if c = d then [] # split_on d cs
      else case split_on d cs of [] \<Rightarrow> [[c]] | p # ps \<Rightarrow> (c # p) # ps)"

definition is_digit :: "char \<Rightarrow> bool" where
  "is_digit c \<longleftrightarrow> 48 \<le> (of_char c :: nat) \<and> (of_char c :: nat) \<le> 57"

definition dec_value :: "string \<Rightarrow> nat" where
  "dec_value cs = foldl (\<lambda>v c. 10 * v + (of_char c - 48)) 0 cs"

definition parse_u8 :: "string \<Rightarrow> u8 option" where
  "parse_u8 s =
     (let ds = (case s of c # cs \<Rightarrow> if c = CHR ''+'' then cs else s | [] \<Rightarrow> s)
      in if ds \<noteq> [] \<and> list_all is_digit ds \<and> dec_value ds < 256
         then Some (of_nat (dec_value ds)) else None)"

fun show_dec :: "nat \<Rightarrow> string" where
  "show_dec n =
     (if n < 10 then [char_of (48 + n)] else show_dec (n div 10) @ [char_of (48 + n mod 10)])"

declare show_dec.simps [simp del]

text \<open>The \<^verbatim>\<open>while let Some(Ok(octet))\<close> loop of \<^verbatim>\<open>from_str\<close>: the store \<^verbatim>\<open>ipv4.octets[idx]\<close> is
  bounds-checked and comes before the test \<^verbatim>\<open>idx > 4\<close>.\<close>

fun from_str_loop :: "u8 option list \<Rightarrow> u8 list \<Rightarrow> nat \<Rightarrow> (ipv4_addr, parse_ipv4_error) result outcome"
where
  "from_str_loop (Some octet # rest) arr idx =
     (if idx < length arr
      then let idx' = idx + 1 in
           if idx' > 4 then Done (Err InvalidAddress)
           else from_str_loop rest (arr[idx := octet]) idx'
      else Panic)"
| "from_str_loop items arr idx =
     (if idx < 4 then Done (Err InvalidAddress) else Done (Ok (Ipv4Addr arr)))"

definition from_str :: "string \<Rightarrow> (ipv4_addr, parse_ipv4_error) result outcome" where
  "from_str s = from_str_loop (map parse_u8 (split_on CHR ''.'' s)) (replicate 4 0) 0"

definition show_ipv4 :: "ipv4_addr \<Rightarrow> string" where
  "show_ipv4 a =
     show_dec (unat (octets a ! 0)) @ ''.'' @ show_dec (unat (octets a ! 1)) @ ''.'' @
     show_dec (unat (octets a ! 2)) @ ''.'' @ show_dec (unat (octets a ! 3))"

section \<open>Headers\<close>

text \<open>Packed structs: a field starts where the fields before it end.\<close>

definition field_off :: "nat list \<Rightarrow> nat \<Rightarrow> nat" where
  "field_off sizes i = sum_list (take i sizes)"

datatype ether_type = EtIpv4 | EtArp | EtIpv6

primrec ether_code :: "ether_type \<Rightarrow> u16" where
  "ether_code EtIpv4 = bswap 0x0800"
| "ether_code EtArp = bswap 0x0806"
| "ether_code EtIpv6 = bswap 0x86DD"

definition ether_decode :: "u16 \<Rightarrow> ether_type option" where
  "ether_decode x = List.find (\<lambda>t. ether_code t = x) [EtIpv4, EtArp, EtIpv6]"

datatype ipv4_proto = TCP | UDP

primrec proto_code :: "ipv4_proto \<Rightarrow> u8" where
  "proto_code TCP = 0x06"
| "proto_code UDP = 0x11"

definition proto_decode :: "u8 \<Rightarrow> ipv4_proto option" where
  "proto_decode x = List.find (\<lambda>t. proto_code t = x) [TCP, UDP]"

record eth_header =
  eth_dst :: mac_addr
  eth_src :: mac_addr
  eth_ether_ty :: u16

definition eth_fields :: "nat list" where "eth_fields = [6, 6, 2]"

definition size_EthHeader :: nat where "size_EthHeader = sum_list eth_fields"

definition read_eth :: "nat \<Rightarrow> mem \<Rightarrow> eth_header" where
  "read_eth a m =
     \<lparr>eth_dst = MacAddr (load_bytes (a + field_off eth_fields 0) 6 m),
      eth_src = MacAddr (load_bytes (a + field_off eth_fields 1) 6 m),
      eth_ether_ty = load16 (a + field_off eth_fields 2) m\<rparr>"

definition write_eth :: "nat \<Rightarrow> eth_header \<Rightarrow> mem \<Rightarrow> mem" where
  "write_eth a h m =
     store16 (a + field_off eth_fields 2) (eth_ether_ty h)
       (store_bytes (a + field_off eth_fields 1) (raw (eth_src h))
         (store_bytes (a + field_off eth_fields 0) (raw (eth_dst h)) m))"

definition wf_eth :: "eth_header \<Rightarrow> bool" where
  "wf_eth h \<longleftrightarrow> length (raw (eth_dst h)) = 6 \<and> length (raw (eth_src h)) = 6"

record ipv4_header =
  ip_version_ihl :: u8
  ip_tos :: u8
  ip_tot_len :: u16
  ip_id :: u16
  ip_frag_off :: u16
  ip_ttl :: u8
  ip_protocol :: u8
  ip_cksum :: u16
  ip_src :: u32
  ip_dst :: u32

definition ipv4_fields :: "nat list" where "ipv4_fields = [1, 1, 2, 2, 2, 1, 1, 2, 4, 4]"

definition size_Ipv4Header :: nat where "size_Ipv4Header = sum_list ipv4_fields"

definition read_ipv4 :: "nat \<Rightarrow> mem \<Rightarrow> ipv4_header" where
  "read_ipv4 a m =
     \<lparr>ip_version_ihl = load8 (a + field_off ipv4_fields 0) m,
      ip_tos = load8 (a + field_off ipv4_fields 1) m,
      ip_tot_len = load16 (a + field_off ipv4_fields 2) m,
      ip_id = load16 (a + field_off ipv4_fields 3) m,
      ip_frag_off = load16 (a + field_off ipv4_fields 4) m,
      ip_ttl = load8 (a + field_off ipv4_fields 5) m,
      ip_protocol = load8 (a + field_off ipv4_fields 6) m,
      ip_cksum = load16 (a + field_off ipv4_fields 7) m,
      ip_src = load32 (a + field_off ipv4_fields 8) m,
      ip_dst = load32 (a + field_off ipv4_fields 9) m\<rparr>"

definition write_ipv4 :: "nat \<Rightarrow> ipv4_header \<Rightarrow> mem \<Rightarrow> mem" where
  "write_ipv4 a h m =
     store32 (a + field_off ipv4_fields 9) (ip_dst h)
       (store32 (a + field_off ipv4_fields 8) (ip_src h)
       (store16 (a + field_off ipv4_fields 7) (ip_cksum h)
       (store8 (a + field_off ipv4_fields 6) (ip_protocol h)
       (store8 (a + field_off ipv4_fields 5) (ip_ttl h)
       (store16 (a + field_off ipv4_fields 4) (ip_frag_off h)
       (store16 (a + field_off ipv4_fields 3) (ip_id h)
       (store16 (a + field_off ipv4_fields 2) (ip_tot_len h)
       (store8 (a + field_off ipv4_fields 1) (ip_tos h)
       (store8 (a + field_off ipv4_fields 0) (ip_version_ihl h) m)))))))))"

definition version :: "ipv4_header \<Rightarrow> u8" where
  "version h = drop_bit 4 (ip_version_ihl h AND 0xf0)"

definition ihl :: "ipv4_header \<Rightarrow> u8" where
  "ihl h = ip_version_ihl h AND 0xf"

definition ipv4_len :: "ipv4_header \<Rightarrow> u16" where
  "ipv4_len h = bswap (ip_tot_len h)"

definition set_version :: "profile \<Rightarrow> u8 \<Rightarrow> ipv4_header \<Rightarrow> ipv4_header outcome" where
  "set_version p v h = andthen (debug_assert p (v \<le> 15))
     (\<lambda>_. Done (h\<lparr>ip_version_ihl := ip_version_ihl h OR v\<rparr>))"

definition set_ihl :: "profile \<Rightarrow> u8 \<Rightarrow> ipv4_header \<Rightarrow> ipv4_header outcome" where
  "set_ihl p n h = andthen (debug_assert p (n \<le> 15))
     (\<lambda>_. Done (h\<lparr>ip_version_ihl := ip_version_ihl h OR push_bit 4 n\<rparr>))"

record udp_header =
  udp_src :: u16
  udp_dst :: u16
  udp_len :: u16
  udp_chksum :: u16

definition udp_fields :: "nat list" where "udp_fields = [2, 2, 2, 2]"

definition size_UdpHeader :: nat where "size_UdpHeader = sum_list udp_fields"

definition read_udp :: "nat \<Rightarrow> mem \<Rightarrow> udp_header" where
  "read_udp a m =
     \<lparr>udp_src = load16 (a + field_off udp_fields 0) m,
      udp_dst = load16 (a + field_off udp_fields 1) m,
      udp_len = load16 (a + field_off udp_fields 2) m,
      udp_chksum = load16 (a + field_off udp_fields 3) m\<rparr>"

definition write_udp :: "nat \<Rightarrow> udp_header \<Rightarrow> mem \<Rightarrow> mem" where
  "write_udp a h m =
     store16 (a + field_off udp_fields 3) (udp_chksum h)
       (store16 (a + field_off udp_fields 2) (udp_len h)
       (store16 (a + field_off udp_fields 1) (udp_dst h)
       (store16 (a + field_off udp_fields 0) (udp_src h) m)))"

section \<open>Routes\<close>

record route =
  rt_ip :: u32
  rt_cidr_mask :: u32
  rt_nic :: u16
  rt_cidr :: u8

text \<open>\<^verbatim>\<open>Route::new\<close>: the mask is \<^verbatim>\<open>(1 << cidr) - 1\<close> in \<^verbatim>\<open>u32\<close>, after \<^verbatim>\<open>assert!(cidr <= 32)\<close>.\<close>

definition Route_new :: "profile \<Rightarrow> ipv4_addr \<Rightarrow> u8 \<Rightarrow> u16 \<Rightarrow> route outcome" where
  "Route_new p ip cidr nic =
     andthen (assert_that (cidr \<le> 32)) (\<lambda>_.
     andthen (shl_chk p 1 (unat cidr)) (\<lambda>s.
     andthen (sub_chk p s 1) (\<lambda>msk.
     Done \<lparr>rt_ip = to_u32_be ip, rt_cidr_mask = msk, rt_nic = nic, rt_cidr = cidr\<rparr>)))"

definition matches :: "route \<Rightarrow> u32 \<Rightarrow> bool" where
  "matches r ip \<longleftrightarrow> (rt_ip r XOR ip) AND rt_cidr_mask r = 0"

section \<open>Headers are faithful views of their bytes\<close>

text \<open>The contract of a packed header: reading what was written gives it back, writing back what was
  read changes nothing, a write stays inside the header and a read looks at nothing else.\<close>

locale header_codec =
  fixes rd :: "nat \<Rightarrow> mem \<Rightarrow> 'h"
    and wr :: "nat \<Rightarrow> 'h \<Rightarrow> mem \<Rightarrow> mem"
    and sz :: nat
    and ok :: "'h \<Rightarrow> bool"
  assumes rd_wr: "ok h \<Longrightarrow> rd a (wr a h m) = h"
    and rd_ok: "ok (rd a m)"
    and wr_rd: "wr a (rd a m) m = m"
    and wr_frame: "ok h \<Longrightarrow> x < a \<or> a + sz \<le> x \<Longrightarrow> wr a h m x = m x"
    and rd_local: "(\<And>x. a \<le> x \<Longrightarrow> x < a + sz \<Longrightarrow> m x = m' x) \<Longrightarrow> rd a m = rd a m'"
begin

lemma rd_wr_apart: "ok h \<Longrightarrow> a + sz \<le> b \<or> b + sz \<le> a \<Longrightarrow> rd a (wr b h m) = rd a m"
  by (rule rd_local) (rule wr_frame, auto)

lemma wr_bytes: "ok h \<Longrightarrow> a + n \<le> b \<or> b + sz \<le> a \<Longrightarrow> load_bytes a n (wr b h m) = load_bytes a n m"
  by (auto simp: load_bytes_def wr_frame)

end

locale header_codecs = upper: header_codec urd uwr usz uok + lower: header_codec lrd lwr lsz lok
  for urd :: "nat \<Rightarrow> mem \<Rightarrow> 'u" and uwr usz uok
    and lrd :: "nat \<Rightarrow> mem \<Rightarrow> 'l" and lwr lsz lok
begin

lemma upper_after_lower: "lok h \<Longrightarrow> b + lsz \<le> a \<Longrightarrow> urd a (lwr b h m) = urd a m"
  by (rule upper.rd_local) (rule lower.wr_frame, auto)

lemma lower_after_upper: "uok h \<Longrightarrow> a + lsz \<le> b \<Longrightarrow> lrd a (uwr b h m) = lrd a m"
  by (rule lower.rd_local) (rule upper.wr_frame, auto)

end

lemmas eth_layout = eth_fields_def size_EthHeader_def field_off_def
lemmas ipv4_layout = ipv4_fields_def size_Ipv4Header_def field_off_def
lemmas udp_layout = udp_fields_def size_UdpHeader_def field_off_def

lemma sizes [simp]: "size_EthHeader = 14" "size_Ipv4Header = 20" "size_UdpHeader = 8"
  by (simp_all add: eth_layout ipv4_layout udp_layout)

lemma store_bytes_load_bytes [simp]: "store_bytes a (load_bytes a n m) m = m"
  by (rule ext) (auto simp: store_bytes_def load_bytes_def)

lemma store_load_same [simp]:
  "store8 a (load8 a m) m = m" "store16 a (load16 a m) m = m" "store32 a (load32 a m) m = m"
  using to_le_from_le[of "load_bytes a 2 m", where 'a=16]
    to_le_from_le[of "load_bytes a 4 m", where 'a=32]
  by (simp_all add: store8_def load8_def store16_def load16_def store32_def load32_def)

lemma store_frame:
  "x < a \<or> a + 1 \<le> x \<Longrightarrow> store8 a b m x = m x"
  "x < a \<or> a + 2 \<le> x \<Longrightarrow> store16 a h m x = m x"
  "x < a \<or> a + 4 \<le> x \<Longrightarrow> store32 a w m x = m x"
  "x < a \<or> a + length bs \<le> x \<Longrightarrow> store_bytes a bs m x = m x"
  by (auto simp: store_defs store_bytes_def)

lemma load_local:
  "m a = m' a \<Longrightarrow> load8 a m = load8 a m'"
  "(\<And>x. a \<le> x \<Longrightarrow> x < a + 2 \<Longrightarrow> m x = m' x) \<Longrightarrow> load16 a m = load16 a m'"
  "(\<And>x. a \<le> x \<Longrightarrow> x < a + 4 \<Longrightarrow> m x = m' x) \<Longrightarrow> load32 a m = load32 a m'"
  "(\<And>x. a \<le> x \<Longrightarrow> x < a + n \<Longrightarrow> m x = m' x) \<Longrightarrow> load_bytes a n m = load_bytes a n m'"
  by (auto simp: load8_def load16_def load32_def load_bytes_def intro!: arg_cong[where f = from_le])

interpretation eth: header_codec read_eth write_eth size_EthHeader wf_eth
proof
  show "wf_eth h \<Longrightarrow> read_eth a (write_eth a h m) = h" for a h m
    by (simp add: read_eth_def write_eth_def wf_eth_def eth_layout mem_simps)
  show "wf_eth (read_eth a m)" for a m
    by (simp add: read_eth_def wf_eth_def)
  show "write_eth a (read_eth a m) m = m" for a m
    by (simp add: read_eth_def write_eth_def)
  show "wf_eth h \<Longrightarrow> x < a \<or> a + size_EthHeader \<le> x \<Longrightarrow> write_eth a h m x = m x" for h x a m
    by (auto simp: write_eth_def wf_eth_def eth_layout store_frame)
  show "(\<And>x. a \<le> x \<Longrightarrow> x < a + size_EthHeader \<Longrightarrow> m x = m' x) \<Longrightarrow> read_eth a m = read_eth a m'"
    for a m m'
    by (auto simp: read_eth_def eth_layout intro!: load_local)
qed

interpretation ipv4: header_codec read_ipv4 write_ipv4 size_Ipv4Header "\<lambda>_. True"
proof
  show "read_ipv4 a (write_ipv4 a h m) = h" for a h m
    by (simp add: read_ipv4_def write_ipv4_def ipv4_layout mem_simps)
  show "write_ipv4 a (read_ipv4 a m) m = m" for a m
    by (simp add: read_ipv4_def write_ipv4_def)
  show "x < a \<or> a + size_Ipv4Header \<le> x \<Longrightarrow> write_ipv4 a h m x = m x" for h x a m
    by (auto simp: write_ipv4_def ipv4_layout store_frame)
  show "(\<And>x. a \<le> x \<Longrightarrow> x < a + size_Ipv4Header \<Longrightarrow> m x = m' x) \<Longrightarrow> read_ipv4 a m = read_ipv4 a m'"
    for a m m'
    by (auto simp: read_ipv4_def ipv4_layout intro!: load_local)
qed simp

interpretation udp: header_codec read_udp write_udp size_UdpHeader "\<lambda>_. True"
proof
  show "read_udp a (write_udp a h m) = h" for a h m
    by (simp add: read_udp_def write_udp_def udp_layout mem_simps)
  show "write_udp a (read_udp a m) m = m" for a m
    by (simp add: read_udp_def write_udp_def)
  show "x < a \<or> a + size_UdpHeader \<le> x \<Longrightarrow> write_udp a h m x = m x" for h x a m
    by (auto simp: write_udp_def udp_layout store_frame)
  show "(\<And>x. a \<le> x \<Longrightarrow> x < a + size_UdpHeader \<Longrightarrow> m x = m' x) \<Longrightarrow> read_udp a m = read_udp a m'"
    for a m m'
    by (auto simp: read_udp_def udp_layout intro!: load_local)
qed simp

interpretation udp_ipv4: header_codecs read_udp write_udp size_UdpHeader "\<lambda>_. True"
    read_ipv4 write_ipv4 size_Ipv4Header "\<lambda>_. True"
  by unfold_locales

interpretation udp_eth: header_codecs read_udp write_udp size_UdpHeader "\<lambda>_. True"
    read_eth write_eth size_EthHeader wf_eth
  by unfold_locales

interpretation ipv4_eth: header_codecs read_ipv4 write_ipv4 size_Ipv4Header "\<lambda>_. True"
    read_eth write_eth size_EthHeader wf_eth
  by unfold_locales

lemma ether_decode_code [simp]: "ether_decode (ether_code t) = Some t"
  by (cases t) (simp_all add: ether_decode_def bswap_def to_le_def upt_rec)

lemma proto_decode_code [simp]: "proto_decode (proto_code t) = Some t"
  by (cases t) (simp_all add: proto_decode_def)

section \<open>Parsing and printing IPv4 addresses\<close>

lemma from_str_loop_spec:
  assumes "length arr = 4" and "idx \<le> 4"
  shows "from_str_loop items arr idx =
    (let good = takeWhile (\<lambda>x. x \<noteq> None) items in
     if idx + length good < 4 then Done (Err InvalidAddress)
     else if idx + length good = 4 then Done (Ok (Ipv4Addr (take idx arr @ map the good)))
     else Panic)"
  using assms
proof (induction items arr idx rule: from_str_loop.induct)
  case (1 octet rest arr idx)
  show ?case
  proof (cases "idx < 4")
    case True
    then have "take (Suc idx) (arr[idx := octet]) = take idx arr @ [octet]"
      using "1.prems" by (simp add: take_Suc_conv_app_nth)
    with True "1.prems" "1.IH" show ?thesis by (auto simp: Let_def)
  next
    case False
    with "1.prems" show ?thesis by (simp add: Let_def)
  qed
qed (auto simp: Let_def)

lemma split_on_plain: "d \<notin> set cs \<Longrightarrow> split_on d cs = [cs]"
  by (induction cs) auto

lemma split_on_Cons: "d \<notin> set cs \<Longrightarrow> split_on d (cs @ d # rest) = cs # split_on d rest"
  by (induction cs) auto

lemma digit_char [simp]: "(n :: nat) < 10 \<Longrightarrow> is_digit (char_of (48 + n))"
  by (simp add: is_digit_def)

lemma show_dec_digits: "list_all is_digit (show_dec n)"
proof (induction n rule: show_dec.induct)
  case (1 n)
  then show ?case by (subst show_dec.simps) simp
qed

lemma show_dec_not_Nil [simp]: "show_dec n \<noteq> []"
  by (subst show_dec.simps) simp

lemma dec_value_append: "dec_value (cs @ [c]) = 10 * dec_value cs + (of_char c - 48)"
  by (simp add: dec_value_def)

lemma dec_value_show_dec [simp]: "dec_value (show_dec n) = n"
proof (induction n rule: show_dec.induct)
  case (1 n)
  show ?case
  proof (cases "n < 10")
    case True
    then show ?thesis by (subst show_dec.simps) (simp add: dec_value_def)
  next
    case False
    have "n mod 10 < 10" by simp
    then have "(48 + n mod 10) mod 256 = 48 + n mod 10" by simp
    with False 1 show ?thesis by (subst show_dec.simps) (simp add: dec_value_append)
  qed
qed

lemma is_digit_neq: "is_digit c \<Longrightarrow> c \<noteq> CHR ''.''" "is_digit c \<Longrightarrow> c \<noteq> CHR ''+''"
  by (auto simp: is_digit_def)

lemma show_dec_no_dot: "CHR ''.'' \<notin> set (show_dec n)"
  using show_dec_digits[of n] is_digit_neq(1) by (auto simp: list_all_iff)

lemma parse_u8_show_dec [simp]: "parse_u8 (show_dec (unat b)) = Some b"
proof -
  obtain c cs where s: "show_dec (unat b) = c # cs"
    using show_dec_not_Nil by (meson neq_Nil_conv)
  then have "c \<noteq> CHR ''+''"
    using show_dec_digits[of "unat b"] is_digit_neq(2) by simp
  moreover have "unat b < 256" using unsigned_less[of b, where 'a=nat] by simp
  ultimately show ?thesis
    using show_dec_digits[of "unat b"] dec_value_show_dec[of "unat b"] s
    by (simp add: parse_u8_def Let_def)
qed

lemma split_show_ipv4:
  "split_on CHR ''.'' (show_ipv4 a) = map (\<lambda>i. show_dec (unat (octets a ! i))) [0, 1, 2, 3]"
  by (simp add: show_ipv4_def split_on_Cons split_on_plain show_dec_no_dot)

lemma list4_nth: "length xs = 4 \<Longrightarrow> [xs ! 0, xs ! 1, xs ! 2, xs ! 3] = xs"
  by (rule nth_equalityI) (auto simp: less_Suc_eq numeral_eq_Suc)

text \<open>C19. \<^verbatim>\<open>Ipv4Addr::from_str\<close> on every string: with \<open>good\<close> the longest run of dot-separated parts, from
  the left, that are \<^verbatim>\<open>u8\<close> numbers, it fails when there are fewer than four, returns them when there
  are exactly four (whatever follows them) and panics on the fifth, out of the array's bounds.\<close>

theorem from_str_spec:
  "from_str s =
    (let good = takeWhile (\<lambda>x. x \<noteq> None) (map parse_u8 (split_on CHR ''.'' s)) in
     if length good < 4 then Done (Err InvalidAddress)
     else if length good = 4 then Done (Ok (Ipv4Addr (map the good)))
     else Panic)"
  unfolding from_str_def by (subst from_str_loop_spec) (simp_all add: Let_def)

text \<open>C39. Printing an address and parsing the result gives the address back.\<close>

theorem from_str_show: "wf_ipv4 a \<Longrightarrow> from_str (show_ipv4 a) = Done (Ok a)"
  unfolding from_str_def split_show_ipv4
  by (subst from_str_loop_spec) (simp_all add: wf_ipv4_def Let_def list4_nth flip: One_nat_def)

theorem from_str_show_witness:
  "from_str (show_ipv4 (Ipv4Addr [192, 168, 10, 2])) = Done (Ok (Ipv4Addr [192, 168, 10, 2]))"
  by (rule from_str_show) (simp add: wf_ipv4_def)

text \<open>The two integer readings of an address: \<^verbatim>\<open>from_be\<close> undoes \<^verbatim>\<open>to_u32_be\<close>, and \<^verbatim>\<open>to_u32_le\<close> is
  the same bytes in the other order.\<close>

theorem ipv4_integer_views:
  assumes "wf_ipv4 a"
  shows "from_be (to_u32_be a) = a \<and> to_u32_le a = bswap (to_u32_be a) \<and> to_u32_be (from_be x) = x"
  using assms to_le_from_le[of "octets a", where 'a=32]
  by (simp add: wf_ipv4_def from_be_def to_u32_be_def to_u32_le_def bswap_def from_le_to_le)

theorem ipv4_integer_views_witness:
  "wf_ipv4 (Ipv4Addr [10, 0, 0, 1]) \<and> from_be (to_u32_be (Ipv4Addr [10, 0, 0, 1])) = Ipv4Addr [10, 0, 0, 1]"
proof -
  have h: "wf_ipv4 (Ipv4Addr [10, 0, 0, 1])" by (simp add: wf_ipv4_def)
  then show ?thesis using ipv4_integer_views[OF h] by blast
qed

section \<open>The version and header-length nibbles\<close>

lemma nibble_bits:
  "bit (version h) i \<longleftrightarrow> i < 4 \<and> bit (ip_version_ihl h) (i + 4)"
  "bit (ihl h) i \<longleftrightarrow> i < 4 \<and> bit (ip_version_ihl h) i"
proof -
  have masks: "(0xf0 :: u8) = push_bit 4 (mask 4)" "(0xf :: u8) = mask 4"
    by (simp_all add: mask_eq_exp_minus_1)
  show "bit (version h) i \<longleftrightarrow> i < 4 \<and> bit (ip_version_ihl h) (i + 4)"
    unfolding version_def masks by (auto simp: bit_simps add.commute)
  show "bit (ihl h) i \<longleftrightarrow> i < 4 \<and> bit (ip_version_ihl h) i"
    unfolding ihl_def masks by (auto simp: bit_simps)
qed

lemma small_u8_bit: "v \<le> (15 :: u8) \<Longrightarrow> bit v i \<Longrightarrow> i < 4"
proof (rule ccontr)
  assume "v \<le> 15" "bit v i" "\<not> i < 4"
  then have "take_bit 4 (unat v) = unat v"
    by (intro take_bit_nat_eq_self) (simp add: word_le_nat_alt)
  moreover have "bit (unat v) i" using \<open>bit v i\<close> by (simp add: bit_simps bit_imp_le_length)
  ultimately show False using \<open>\<not> i < 4\<close> by (metis bit_take_bit_iff)
qed

text \<open>The nibble setters write into each other's half: after \<^verbatim>\<open>set_version(v)\<close> the \<^emph>\<open>header length\<close>
  read back has the bits of \<open>v\<close> added and the version is unchanged, and after \<^verbatim>\<open>set_ihl(n)\<close> the
  \<^emph>\<open>version\<close> read back has the bits of \<open>n\<close> added and the header length is unchanged; no bit is ever
  cleared.\<close>

lemma nibble_setters:
  assumes "v \<le> 15" and "n \<le> 15"
  shows "\<exists>h1 h2. set_version p v h = Done h1 \<and> set_ihl p n h1 = Done h2
    \<and> ihl h1 = ihl h OR v \<and> version h1 = version h
    \<and> version h2 = version h1 OR n \<and> ihl h2 = ihl h1"
proof -
  define h1 where "h1 = h\<lparr>ip_version_ihl := ip_version_ihl h OR v\<rparr>"
  define h2 where "h2 = h1\<lparr>ip_version_ihl := ip_version_ihl h1 OR push_bit 4 n\<rparr>"
  have "set_version p v h = Done h1" "set_ihl p n h1 = Done h2"
    using assms by (simp_all add: set_version_def set_ihl_def h1_def h2_def)
  moreover have "ihl h1 = ihl h OR v" "version h1 = version h"
    "version h2 = version h1 OR n" "ihl h2 = ihl h1"
    using small_u8_bit[OF assms(1)] small_u8_bit[OF assms(2)]
    by (fastforce intro!: bit_eqI simp: nibble_bits h1_def h2_def bit_simps)+
  ultimately show ?thesis by blast
qed

section \<open>Routes\<close>

lemma Route_new_short:
  assumes "unat c < 32"
  shows "Route_new p a c n =
    Done \<lparr>rt_ip = to_u32_be a, rt_cidr_mask = mask (unat c), rt_nic = n, rt_cidr = c\<rparr>"
proof -
  have "c \<le> 32" using assms by (simp add: word_le_nat_alt)
  moreover have "(1 :: u32) \<le> push_bit (unat c) 1"
    using assms by (simp add: push_bit_eq_mult word_le_nat_alt Suc_le_eq unat_gt_0)
  ultimately show ?thesis
    using assms by (simp add: Route_new_def chk_simps mask_eq_exp_minus_1 push_bit_eq_mult)
qed

lemma matches_mask:
  assumes "rt_cidr_mask r = mask k"
  shows "matches r ip \<longleftrightarrow> (\<forall>i<k. i < 32 \<longrightarrow> bit (rt_ip r) i = bit ip i)"
  unfolding matches_def assms by (auto simp: bit_eq_iff bit_simps)

text \<open>Which octet bits a route compares (prefix lengths below 32): the first \<open>cidr\<close> bits counted
  from the \<^emph>\<open>least\<close> significant bit of each octet.\<close>

lemma route_matches_octets:
  assumes "wf_ipv4 a" and "wf_ipv4 b" and "unat c < 32" and "Route_new p a c n = Done r"
  shows "matches r (to_u32_be b) \<longleftrightarrow>
    (\<forall>i<unat c. bit (octets a ! (i div 8)) (i mod 8) = bit (octets b ! (i div 8)) (i mod 8))"
proof -
  have r: "rt_cidr_mask r = mask (unat c)" "rt_ip r = to_u32_be a"
    using assms(3,4) by (auto simp: Route_new_short)
  have "i div 8 < 4" if "i < 32" for i :: nat
    using that by (simp add: div_less_iff_less_mult)
  then show ?thesis
    using assms(1-3) by (auto simp: matches_mask[OF r(1)] r(2) to_u32_be_def bit_from_le wf_ipv4_def)
qed

text \<open>The specification of a prefix: the \<open>k\<close> most significant bits of the address in network order.\<close>

definition same_prefix :: "nat \<Rightarrow> ipv4_addr \<Rightarrow> ipv4_addr \<Rightarrow> bool" where
  "same_prefix k a b \<longleftrightarrow> drop_bit (32 - k) (to_u32_le a) = drop_bit (32 - k) (to_u32_le b)"

lemma octets_eq_iff: "(x :: u8) = y \<longleftrightarrow> (\<forall>j<8. bit x j = bit y j)"
  by (auto simp: bit_eq_iff dest: bit_imp_le_length)

lemma bits_by_octet: "(\<forall>i<8 * (m :: nat). P (i div 8) (i mod 8)) \<longleftrightarrow> (\<forall>k<m. \<forall>j<8. P k j)"
proof safe
  fix k j :: nat assume all: "\<forall>i<8 * m. P (i div 8) (i mod 8)" and k: "k < m" and j: "j < 8"
  have "8 * k + j < 8 * m" using k j by simp
  with all have "P ((8 * k + j) div 8) ((8 * k + j) mod 8)" by blast
  with j show "P k j" by simp
next
  fix i assume "\<forall>k<m. \<forall>j<8. P k j" and "i < 8 * m"
  then show "P (i div 8) (i mod 8)" by (simp add: div_less_iff_less_mult)
qed

lemma drop_bit_octets:
  assumes "m \<le> 4"
  shows "drop_bit (32 - 8 * m) (x :: u32) = drop_bit (32 - 8 * m) y \<longleftrightarrow>
     (\<forall>k<m. \<forall>j<8. bit x (8 * (3 - k) + j) = bit y (8 * (3 - k) + j))"
    (is "_ \<longleftrightarrow> ?all")
proof
  assume eq: "drop_bit (32 - 8 * m) x = drop_bit (32 - 8 * m) y"
  show ?all
  proof (intro allI impI)
    fix k j :: nat assume kj: "k < m" "j < 8"
    define q where "q = 8 * (m - 1 - k) + j"
    have q: "8 * (3 - k) + j = (32 - 8 * m) + q" using kj assms by (simp add: q_def)
    have "bit (drop_bit (32 - 8 * m) x) q = bit (drop_bit (32 - 8 * m) y) q" using eq by simp
    then show "bit x (8 * (3 - k) + j) = bit y (8 * (3 - k) + j)" by (simp add: q bit_drop_bit_eq)
  qed
next
  assume all: ?all
  show "drop_bit (32 - 8 * m) x = drop_bit (32 - 8 * m) y"
  proof (rule bit_word_eqI)
    fix i assume "i < LENGTH(32)"
    let ?q = "32 - 8 * m + i"
    show "bit (drop_bit (32 - 8 * m) x) i = bit (drop_bit (32 - 8 * m) y) i"
    proof (cases "?q < 32")
      case True
      then have d: "?q div 8 \<le> 3" using div_le_mono[of ?q 31 8] by simp
      have "8 * (4 - m) \<le> ?q" using assms by simp
      then have "4 - m \<le> ?q div 8" by (simp add: less_eq_div_iff_mult_less_eq)
      with d assms \<open>?q < 32\<close> have k: "3 - ?q div 8 < m" by linarith
      have q: "?q = 8 * (3 - (3 - ?q div 8)) + ?q mod 8" using d by simp
      have "?q mod 8 < 8" by simp
      with all k have "bit x (8 * (3 - (3 - ?q div 8)) + ?q mod 8) = bit y (8 * (3 - (3 - ?q div 8)) + ?q mod 8)"
        by blast
      then show ?thesis by (simp only: bit_drop_bit_eq o_def q[symmetric])
    next
      case False
      then show ?thesis by (auto simp: bit_simps dest: bit_imp_le_length)
    qed
  qed
qed

lemma same_prefix_octets:
  assumes "wf_ipv4 a" and "wf_ipv4 b" and "m \<le> 4"
  shows "same_prefix (8 * m) a b \<longleftrightarrow> (\<forall>k<m. octets a ! k = octets b ! k)"
proof -
  have bits: "bit (to_u32_le x) (8 * (3 - k) + j) = bit (octets x ! k) j"
    if "wf_ipv4 x" "k < 4" "j < 8" for x k j
  proof -
    have "8 * (3 - k) + j < 32" "3 - k < 4" using that by arith+
    then show ?thesis using that by (simp add: to_u32_le_def bit_from_le wf_ipv4_def rev_nth)
  qed
  then show ?thesis using assms by (simp add: same_prefix_def drop_bit_octets octets_eq_iff)
qed

text \<open>Byte-aligned prefixes are matched correctly: for \<^verbatim>\<open>/0\<close>, \<^verbatim>\<open>/8\<close>, \<^verbatim>\<open>/16\<close> and \<^verbatim>\<open>/24\<close>, in both
  profiles, \<^verbatim>\<open>Route::new\<close> succeeds and \<^verbatim>\<open>Route::matches\<close> says exactly whether the address lies in the
  route's network.\<close>

lemma route_byte_prefix:
  assumes "wf_ipv4 a" and "wf_ipv4 b" and "unat c = 8 * m" and "m < 4"
  shows "\<exists>r. Route_new p a c n = Done r \<and> (matches r (to_u32_be b) \<longleftrightarrow> same_prefix (unat c) a b)"
proof -
  have c: "unat c < 32" using assms(3,4) by simp
  define r where "r = \<lparr>rt_ip = to_u32_be a, rt_cidr_mask = mask (unat c), rt_nic = n, rt_cidr = c\<rparr>"
  have r: "Route_new p a c n = Done r" by (simp add: Route_new_short[OF c] r_def)
  have rm: "rt_cidr_mask r = mask (unat c)" and [simp]: "rt_ip r = to_u32_be a"
    by (simp_all add: r_def)
  have "matches r (to_u32_be b) \<longleftrightarrow>
      (\<forall>i<8 * m. bit (octets a ! (i div 8)) (i mod 8) = bit (octets b ! (i div 8)) (i mod 8))"
    using assms by (auto simp: matches_mask[OF rm] to_u32_be_def bit_from_le wf_ipv4_def
        div_less_iff_less_mult)
  also have "\<dots> \<longleftrightarrow> (\<forall>k<m. octets a ! k = octets b ! k)"
    by (simp add: bits_by_octet[where P = "\<lambda>k j. bit (octets a ! k) j = bit (octets b ! k) j"] octets_eq_iff)
  finally show ?thesis using r assms same_prefix_octets[of a b m] by simp
qed

text \<open>A \<^verbatim>\<open>/32\<close> route passes the assertion but never works: the debug build panics on the shift,
  the release build gets an empty mask and matches every address.\<close>

lemma route_host_prefix:
  "Route_new Debug a 32 n = Panic \<and>
   (\<exists>r. Route_new Release a 32 n = Done r \<and> rt_cidr r = 32 \<and> (\<forall>ip. matches r ip))"
  by (simp add: Route_new_def shl_chk_def matches_def)

text \<open>Longer prefixes are rejected by the assertion in both profiles.\<close>

lemma Route_new_long: "32 < c \<Longrightarrow> Route_new p a c n = Panic"
  by (auto simp: Route_new_def assert_that_def)

end
