(* ===== verification/Machine.thy ===== *)
theory Machine
  imports Protocol
begin

text \<open>
  The data the packet path works on: the error type (\<^verbatim>\<open>error.rs\<close> with \<^verbatim>\<open>MemoryError\<close> and
  \<^verbatim>\<open>ServiceError\<close>), the structs \<^verbatim>\<open>Packet\<close>, \<^verbatim>\<open>MemoryPool\<close>, \<^verbatim>\<open>PacketPool\<close> and \<^verbatim>\<open>Context\<close>, and the
  memory they live in.  Raw pointers are addresses; \<open>world\<close> maps the address of every live struct
  to its contents (an address that maps to nothing is not dereferenceable) and keeps the bytes of the
  packet buffers in \<open>bytes\<close>; \<open>pkts\<close> are the packets in use and \<open>idle\<close> those that lie in their pool, so that using a
  packet after it was given back, or giving it back twice, is undefined; \<open>next_queue\<close> and \<open>port_ready\<close> are the process-wide statics \<^verbatim>\<open>QUEUE_ID\<close> of
  \<^verbatim>\<open>nio.rs\<close> and \<^verbatim>\<open>INIT_ONCE\<close>, \<^verbatim>\<open>INIT_DONE_FLAG\<close> of \<^verbatim>\<open>dpdk.rs\<close>.

  DPDK is not part of the repository: its calls and flag constants are the fields of \<open>dpdk_api\<close>, over a DPDK-side
  state of a type \<open>'x\<close> about which nothing is known.  Every operation that calls DPDK takes the
  record as its argument.
\<close>

section \<open>Errors\<close>

datatype memory_error = Exhausted

datatype service_error = SvcIoError | SvcInvalidRequest | SvcJsonParseError | SvcUnknown

datatype io_kind = WouldBlock | Interrupted | OtherIo

datatype error =
    Nop
  | Dropped
  | MemoryError memory_error
  | Unknown
  | ServiceError service_error
  | IoError io_kind
  | JsonParseError

section \<open>Packets\<close>

definition MTU :: u16 where "MTU = 1500"
definition DEFAULT_OFFSET :: u32 where "DEFAULT_OFFSET = 64"
definition PACKET_BUF_SIZE :: nat where "PACKET_BUF_SIZE = unat MTU + unat DEFAULT_OFFSET"

record header =
  h_length :: u16
  h_offset :: u16

datatype pkt_buf_type = Local | Mbuf ptr

record packet =
  p_len :: u16
  l2_header :: header
  l3_header :: header
  l4_header :: header
  p_offset :: u16
  p_data :: ptr
  p_next :: "ptr option"
  p_nic :: u16
  p_thread_id :: u32
  p_refcnt :: usize
  p_buf_ty :: pkt_buf_type

text \<open>The layout rule of \<^verbatim>\<open>#[repr(C)]\<close>: every field at the next multiple of its alignment, the size
  rounded up to the largest alignment.  \<open>packet_fields\<close> lists size and alignment of the fields of
  \<^verbatim>\<open>Packet\<close> in declaration order; the last one, \<^verbatim>\<open>buf: Aligned<[u8; PACKET_BUF_SIZE]>\<close>, is the byte
  buffer that follows the metadata kept in the record \<open>packet\<close>.\<close>

definition align_up :: "nat \<Rightarrow> nat \<Rightarrow> nat" where
  "align_up a n = (n + a - 1) div a * a"

fun c_offsets :: "nat \<Rightarrow> (nat \<times> nat) list \<Rightarrow> nat list" where
  "c_offsets pos [] = []"
| "c_offsets pos ((sz, al) # fs) = align_up al pos # c_offsets (align_up al pos + sz) fs"

definition c_size :: "(nat \<times> nat) list \<Rightarrow> nat" where
  "c_size fs = (let offs = c_offsets 0 fs
     in if fs = [] then 0 else align_up (fold max (map snd fs) 1) (last offs + fst (last fs)))"

definition packet_fields :: "(nat \<times> nat) list" where
  "packet_fields =
     [(2, 2), (4, 2), (4, 2), (4, 2), (2, 2), (8, 8), (8, 8), (2, 2), (4, 4), (8, 8), (16, 8),
      (align_up 64 PACKET_BUF_SIZE, 64)]"

definition packet_buf_off :: nat where
  "packet_buf_off = last (c_offsets 0 packet_fields)"

definition size_Packet :: nat where
  "size_Packet = c_size packet_fields"

section \<open>DPDK structs the code touches\<close>

record shared_info =
  fcb_opaque :: ptr
  sh_refcnt :: u16

record mbuf =
  m_buf_addr :: ptr
  m_data_off :: u16
  m_buf_iova :: u64
  m_buf_len :: u16
  m_ol_flags :: u64
  m_shinfo :: "ptr option"
  m_pkt_len :: u32
  m_data_len :: u16
  m_l2_len :: "7 word"
  m_l3_len :: "9 word"

record objhdr =
  oh_mp :: ptr
  oh_iova :: u64

record memory_pool =
  mp_mp :: ptr
  mp_socket_id :: u32
  mp_cache_per_thread :: ptr

record packet_pool =
  pp_mp :: ptr
  pp_thread_id :: u32

record 'x world =
  bytes :: mem
  pkts :: "ptr \<rightharpoonup> packet"
  idle :: "ptr \<rightharpoonup> packet"
  mbufs :: "ptr \<rightharpoonup> mbuf"
  shinfos :: "ptr \<rightharpoonup> shared_info"
  objhdrs :: "ptr \<rightharpoonup> objhdr"
  mempools :: "ptr \<rightharpoonup> memory_pool"
  privs :: "ptr \<rightharpoonup> ptr"
  slots :: "ptr \<rightharpoonup> ptr"
  next_queue :: u16
  port_ready :: bool
  ext :: 'x

record 'x dpdk_api =
  rte_memzone_lookup :: "string \<Rightarrow> 'x \<Rightarrow> ptr option"
  rte_memzone_reserve_aligned :: "string \<Rightarrow> nat \<Rightarrow> u32 \<Rightarrow> nat \<Rightarrow> 'x \<Rightarrow> ptr option \<times> 'x"
  rte_mempool_create ::
    "string \<Rightarrow> u32 \<Rightarrow> u32 \<Rightarrow> u32 \<Rightarrow> u32 \<Rightarrow> u32 \<Rightarrow> 'x \<Rightarrow> (ptr \<times> (ptr \<times> objhdr \<times> packet) list) option \<times> 'x"
  rte_mempool_cache_create :: "u32 \<Rightarrow> u32 \<Rightarrow> 'x \<Rightarrow> ptr \<times> 'x"
  rte_mempool_generic_get :: "ptr \<Rightarrow> nat \<Rightarrow> ptr \<Rightarrow> 'x \<Rightarrow> ptr list option \<times> 'x"
  rte_mempool_generic_put :: "ptr \<Rightarrow> ptr \<Rightarrow> ptr \<Rightarrow> 'x \<Rightarrow> 'x"
  rte_mbuf_raw_free :: "ptr \<Rightarrow> 'x \<Rightarrow> 'x"
  rte_mempool_lookup :: "string \<Rightarrow> 'x \<Rightarrow> ptr option"
  rte_pktmbuf_alloc_bulk :: "ptr \<Rightarrow> nat \<Rightarrow> 'x \<Rightarrow> (ptr \<times> mbuf) list option \<times> 'x"
  rte_eth_tx_burst :: "u16 \<Rightarrow> u16 \<Rightarrow> (ptr \<times> mbuf) list \<Rightarrow> 'x \<Rightarrow> nat \<times> 'x"
  rte_eth_rx_burst :: "u16 \<Rightarrow> u16 \<Rightarrow> nat \<Rightarrow> 'x \<Rightarrow> (ptr \<times> mbuf) list \<times> 'x"
  rte_eth_macaddr_get :: "u16 \<Rightarrow> 'x \<Rightarrow> u8 list option"
  rte_ipv4_phdr_cksum :: "ipv4_header \<Rightarrow> u64 \<Rightarrow> u16"
  f_external :: u64
  f_tx_ip_cksum :: u64
  f_tx_ipv4 :: u64
  f_tx_udp_cksum :: u64

record Context =
  ctx_pktpool :: packet_pool
  ctx_cpu :: u32
  ctx_worker_id :: u32
  ctx_thread_id :: u32
  ctx_graph_id :: u32
  ctx_stack_name :: string

text \<open>Dereferencing a packet pointer, reading and writing back through the reference.\<close>

definition deref_pkt :: "ptr \<Rightarrow> 'x world \<Rightarrow> packet outcome" where
  "deref_pkt p w = (case pkts w p of Some pkt \<Rightarrow> Done pkt | None \<Rightarrow> Undef)"

definition set_pkt :: "ptr \<Rightarrow> packet \<Rightarrow> 'x world \<Rightarrow> 'x world" where
  "set_pkt p pkt w = w\<lparr>pkts := (pkts w)(p \<mapsto> pkt)\<rparr>"

lemma deref_pkt_Some [simp, exec_simps]: "pkts w p = Some pkt \<Longrightarrow> deref_pkt p w = Done pkt"
  by (simp add: deref_pkt_def)

lemma deref_pkt_eq [simp]:
  "deref_pkt p w = Done pkt \<longleftrightarrow> pkts w p = Some pkt" "deref_pkt p w = Undef \<longleftrightarrow> pkts w p = None"
  "deref_pkt p w \<noteq> Panic"
  by (auto simp: deref_pkt_def split: option.splits)

lemma set_pkt_simps [simp]:
  "pkts (set_pkt p pkt w) = (pkts w)(p \<mapsto> pkt)" "bytes (set_pkt p pkt w) = bytes w"
  "ext (set_pkt p pkt w) = ext w" "mbufs (set_pkt p pkt w) = mbufs w"
  "objhdrs (set_pkt p pkt w) = objhdrs w" "mempools (set_pkt p pkt w) = mempools w"
  "privs (set_pkt p pkt w) = privs w" "slots (set_pkt p pkt w) = slots w" "idle (set_pkt p pkt w) = idle w"
  "shinfos (set_pkt p pkt w) = shinfos w" "next_queue (set_pkt p pkt w) = next_queue w"
  "port_ready (set_pkt p pkt w) = port_ready w"
  by (simp_all add: set_pkt_def)

lemma dvd_align_up: "0 < a \<Longrightarrow> a dvd align_up a n"
  by (simp add: align_up_def)

lemma align_up_bounds: "0 < a \<Longrightarrow> n \<le> align_up a n \<and> align_up a n < n + a"
proof -
  assume a: "0 < a"
  have "(n + a - 1) = (n + a - 1) div a * a + (n + a - 1) mod a" by simp
  moreover have "(n + a - 1) mod a < a" using a by simp
  ultimately have "n + a - 1 < align_up a n + a" "align_up a n \<le> n + a - 1"
    unfolding align_up_def by linarith+
  with a show ?thesis by linarith
qed

text \<open>The struct layout the comment in \<^verbatim>\<open>packet.rs\<close> relies on: the metadata of a \<^verbatim>\<open>Packet\<close> fills
  exactly one 64-byte cache line (no padding line, nothing spilled), the data buffer starts at the
  second line, and the whole struct is 26 lines.\<close>

theorem packet_layout:
  "c_offsets 0 packet_fields = [0, 2, 6, 10, 14, 16, 24, 32, 36, 40, 48, 64]
   \<and> packet_buf_off = 64 \<and> size_Packet = 26 * 64 \<and> PACKET_BUF_SIZE \<le> size_Packet - packet_buf_off"
  by (simp add: packet_fields_def align_up_def PACKET_BUF_SIZE_def MTU_def DEFAULT_OFFSET_def
      packet_buf_off_def size_Packet_def c_size_def)

end
