(* ===== verification/Memory.thy ===== *)
theory Memory
  imports Machine
begin

text \<open>
  \<^verbatim>\<open>omnistack-core/src/memory.rs\<close>: the named memory pools with one DPDK object cache per thread.
  \<^verbatim>\<open>get_or_create\<close> runs under a process-wide mutex, so one call is one step of the model.  Shown here:
  the cache table lies inside the reserved memory zone and is cache-line aligned, a created pool is
  the one every later call finds, and a call whose pool could not be created leaves its zone behind.

  \<open>mempool_laws\<close> is what the code relies on in DPDK's object pools: a successful get hands out
  distinct free objects, a put gives one back.  \<open>hand_out\<close> and \<open>take_back\<close> move the objects between \<open>idle\<close> and \<open>pkts\<close>; a
  second put of the same object is undefined.
\<close>

definition CACHE_LINE_SIZE :: nat where "CACHE_LINE_SIZE = 64"
definition MAX_THREAD_NUM :: nat where "MAX_THREAD_NUM = 2048"
definition SIZE_USIZE :: nat where "SIZE_USIZE = 8"

definition size_MemoryPool :: nat where
  "size_MemoryPool = c_size [(8, 8), (4, 4), (8, 8)]"

definition memzone_len :: nat where
  "memzone_len = (size_MemoryPool + CACHE_LINE_SIZE - 1) div CACHE_LINE_SIZE * CACHE_LINE_SIZE
     + SIZE_USIZE * MAX_THREAD_NUM"

text \<open>\<^verbatim>\<open>ptr::align_offset\<close>: the bytes to skip to the next multiple of the alignment.\<close>

definition align_offset :: "nat \<Rightarrow> nat \<Rightarrow> nat" where
  "align_offset al a = (al - a mod al) mod al"

definition cache_table :: "ptr \<Rightarrow> ptr" where
  "cache_table z = (let trailer = z + size_MemoryPool in trailer + align_offset CACHE_LINE_SIZE trailer)"

definition no_nul :: "string \<Rightarrow> bool" where
  "no_nul s \<longleftrightarrow> CHR 0x00 \<notin> set s"

text \<open>The objects of a new pool appear in memory with their headers, all of them in the pool, and the object
  constructor runs on each.\<close>

definition add_objects ::
  "(ptr \<Rightarrow> 'x world \<Rightarrow> 'x world) \<Rightarrow> (ptr \<times> objhdr \<times> packet) list \<Rightarrow> 'x world \<Rightarrow> 'x world" where
  "add_objects obj_init objs w =
     fold (\<lambda>(obj, h, junk) w.
       obj_init obj (w\<lparr>objhdrs := (objhdrs w)(obj \<mapsto> h), idle := (idle w)(obj \<mapsto> junk)\<rparr>)) objs w"

definition MemoryPool_get_or_create ::
  "profile \<Rightarrow> 'x dpdk_api \<Rightarrow> string \<Rightarrow> u32 \<Rightarrow> u32 \<Rightarrow> u32 \<Rightarrow> (ptr \<Rightarrow> 'x world \<Rightarrow> 'x world)
    \<Rightarrow> 'x world \<Rightarrow> ('x world \<times> (ptr, memory_error) result) outcome" where
  "MemoryPool_get_or_create prof api name n elt_size socket_id obj_init w =
     andthen (assert_that (length name \<le> 24)) (\<lambda>_.
     andthen (assert_that (no_nul name)) (\<lambda>_.
     case rte_memzone_lookup api (''zone_'' @ name) (ext w) of
       Some z \<Rightarrow> andthen (assert_that (z \<noteq> 0)) (\<lambda>_. Done (w, Ok z))
     | None \<Rightarrow>
       (case rte_memzone_reserve_aligned api (''zone_'' @ name) memzone_len socket_id CACHE_LINE_SIZE (ext w) of
          (None, x1) \<Rightarrow> Done (w\<lparr>ext := x1\<rparr>, Err Exhausted)
        | (Some z, x1) \<Rightarrow>
          (case rte_mempool_create api (''pool_'' @ name) n elt_size 0 64 socket_id x1 of
             (None, x2) \<Rightarrow> Done (w\<lparr>ext := x2\<rparr>, Err Exhausted)
           | (Some (mp, objs), x2) \<Rightarrow>
             let w1 = add_objects obj_init objs (w\<lparr>ext := x2\<rparr>);
                 cpt = cache_table z;
                 pool = \<lparr>mp_mp = mp, mp_socket_id = socket_id, mp_cache_per_thread = cpt\<rparr>
             in andthen (debug_assert prof (align_offset 64 cpt = 0)) (\<lambda>_.
                Done (w1\<lparr>mempools := (mempools w1)(z \<mapsto> pool), privs := (privs w1)(mp \<mapsto> cpt)\<rparr>, Ok z))))))"

definition slot_addr :: "ptr \<Rightarrow> u32 \<Rightarrow> ptr" where
  "slot_addr cpt tid = cpt + SIZE_USIZE * unat tid"

definition deref_pool :: "ptr \<Rightarrow> 'x world \<Rightarrow> memory_pool outcome" where
  "deref_pool z w = (case mempools w z of Some p \<Rightarrow> Done p | None \<Rightarrow> Undef)"

definition read_slot :: "ptr \<Rightarrow> u32 \<Rightarrow> 'x world \<Rightarrow> ptr outcome" where
  "read_slot cpt tid w = (if unat tid < MAX_THREAD_NUM
     then case slots w (slot_addr cpt tid) of Some c \<Rightarrow> Done c | None \<Rightarrow> Undef else Undef)"

definition create_cache :: "'x dpdk_api \<Rightarrow> ptr \<Rightarrow> u32 \<Rightarrow> u32 \<Rightarrow> 'x world \<Rightarrow> 'x world outcome" where
  "create_cache api z cache_size tid w =
     andthen (deref_pool z w) (\<lambda>pool.
     if unat tid < MAX_THREAD_NUM
     then let (c, x) = rte_mempool_cache_create api cache_size (mp_socket_id pool) (ext w)
          in Done (w\<lparr>slots := (slots w)(slot_addr (mp_cache_per_thread pool) tid \<mapsto> c), ext := x\<rparr>)
     else Undef)"

definition get_cache :: "ptr \<Rightarrow> u32 \<Rightarrow> 'x world \<Rightarrow> ptr outcome" where
  "get_cache z tid w = andthen (deref_pool z w) (\<lambda>pool. read_slot (mp_cache_per_thread pool) tid w)"

text \<open>What a get and a put do to the objects: those handed out are in use from then on, with the contents they had; an
  object that is put back must be in use.\<close>

definition hand_out :: "ptr list \<Rightarrow> 'x world \<Rightarrow> 'x world" where
  "hand_out objs w = w\<lparr>pkts := pkts w ++ (idle w |` set objs), idle := idle w |` (- set objs)\<rparr>"

definition take_back :: "ptr \<Rightarrow> 'x world \<Rightarrow> 'x world outcome" where
  "take_back obj w = (case pkts w obj of None \<Rightarrow> Undef
     | Some pkt \<Rightarrow> Done (w\<lparr>pkts := (pkts w)(obj := None), idle := (idle w)(obj \<mapsto> pkt)\<rparr>))"

text \<open>\<^verbatim>\<open>MemoryPool::allocate\<close> fills the slice \<^verbatim>\<open>objs\<close>, of length \<open>cap\<close>, through its raw pointer.\<close>

definition MemoryPool_allocate ::
  "'x dpdk_api \<Rightarrow> ptr \<Rightarrow> nat \<Rightarrow> u32 \<Rightarrow> u32 \<Rightarrow> 'x world \<Rightarrow> ('x world \<times> (ptr list, memory_error) result) outcome"
where
  "MemoryPool_allocate api z cap n tid w =
     andthen (get_cache z tid w) (\<lambda>cache.
     andthen (deref_pool z w) (\<lambda>pool.
     if cap < unat n then Undef
     else case rte_mempool_generic_get api (mp_mp pool) (unat n) cache (ext w) of
       (Some objs, x) \<Rightarrow> Done (hand_out objs (w\<lparr>ext := x\<rparr>), Ok objs)
     | (None, x) \<Rightarrow> Done (w\<lparr>ext := x\<rparr>, Err Exhausted)))"

definition MemoryPool_deallocate :: "'x dpdk_api \<Rightarrow> ptr \<Rightarrow> u32 \<Rightarrow> 'x world \<Rightarrow> 'x world outcome" where
  "MemoryPool_deallocate api obj tid w =
     (case objhdrs w obj of None \<Rightarrow> Undef
      | Some h \<Rightarrow>
        (case privs w (oh_mp h) of None \<Rightarrow> Undef
         | Some cpt \<Rightarrow>
           andthen (read_slot cpt tid w) (\<lambda>cache.
           andthen (take_back obj w) (\<lambda>w1.
           Done (w1\<lparr>ext := rte_mempool_generic_put api (oh_mp h) obj cache (ext w)\<rparr>)))))"

definition virt2iova :: "ptr \<Rightarrow> 'x world \<Rightarrow> u64 outcome" where
  "virt2iova obj w = (case objhdrs w obj of Some h \<Rightarrow> Done (oh_iova h) | None \<Rightarrow> Undef)"

text \<open>What DPDK documents of its object pools; \<open>avail\<close> is the set of objects that are in a pool or
  in one of its caches.\<close>

definition mempool_laws :: "'x dpdk_api \<Rightarrow> ('x \<Rightarrow> ptr set) \<Rightarrow> bool" where
  "mempool_laws api avail \<longleftrightarrow>
     (\<forall>mp n c x objs x'. rte_mempool_generic_get api mp n c x = (Some objs, x') \<longrightarrow>
        distinct objs \<and> length objs = n \<and> set objs \<subseteq> avail x \<and> avail x' = avail x - set objs) \<and>
     (\<forall>mp n c x x'. rte_mempool_generic_get api mp n c x = (None, x') \<longrightarrow> avail x' = avail x) \<and>
     (\<forall>mp obj c x. avail (rte_mempool_generic_put api mp obj c x) = insert obj (avail x)) \<and>
     (\<forall>m x. avail (rte_mbuf_raw_free api m x) = avail x)"

section \<open>The cache table\<close>

lemma pool_sizes [simp]:
  "size_MemoryPool = 24" "memzone_len = 64 + 8 * 2048" "CACHE_LINE_SIZE = 64"
  "MAX_THREAD_NUM = 2048" "SIZE_USIZE = 8"
  by (simp_all add: size_MemoryPool_def c_size_def align_up_def memzone_len_def CACHE_LINE_SIZE_def
      MAX_THREAD_NUM_def SIZE_USIZE_def)

lemma align_offset_zero: "0 < al \<Longrightarrow> a mod al = 0 \<Longrightarrow> align_offset al a = 0"
  by (simp add: align_offset_def)

text \<open>C37. The per-thread cache table of a pool: for a zone placed at a cache-line boundary it starts
  right after the struct's line, is itself aligned, and the slot of every thread number below
  \<^verbatim>\<open>MAX_THREAD_NUM\<close> lies inside the reserved zone; different threads have different slots.\<close>

theorem cache_table_in_zone:
  assumes "64 dvd z" and "unat tid < MAX_THREAD_NUM"
  shows "cache_table z = z + 64 \<and> align_offset 64 (cache_table z) = 0
    \<and> z + size_MemoryPool \<le> slot_addr (cache_table z) tid
    \<and> slot_addr (cache_table z) tid + SIZE_USIZE \<le> z + memzone_len
    \<and> (\<forall>tid'. slot_addr (cache_table z) tid' = slot_addr (cache_table z) tid \<longrightarrow> tid' = tid)"
proof -
  obtain k where z: "z = 64 * k" using assms(1) by blast
  have "(z + 24) mod 64 = 24" by (simp add: z)
  then have ct: "cache_table z = z + 64" by (simp add: cache_table_def align_offset_def Let_def)
  have "align_offset 64 (z + 64) = 0" by (simp add: align_offset_zero z)
  with ct assms(2) show ?thesis
    by (auto simp: slot_addr_def word_unat_eq_iff)
qed

theorem cache_table_in_zone_witness:
  "64 dvd (4096 :: nat) \<and> slot_addr (cache_table 4096) 2047 + SIZE_USIZE \<le> 4096 + memzone_len"
proof -
  have h: "64 dvd (4096 :: nat)" "unat (2047 :: u32) < MAX_THREAD_NUM" by simp_all
  then show ?thesis using cache_table_in_zone[OF h] by blast
qed

section \<open>Finding and creating pools\<close>

text \<open>What DPDK documents of its named memory zones: a reserved zone is found by its name from then
  on, has a non-null, aligned address, and creating an object pool or an object cache does not touch the zones.\<close>

definition zone_laws :: "'x dpdk_api \<Rightarrow> bool" where
  "zone_laws api \<longleftrightarrow>
     (\<forall>nm len s al x z x'. rte_memzone_reserve_aligned api nm len s al x = (Some z, x') \<longrightarrow>
        z \<noteq> 0 \<and> al dvd z \<and> rte_memzone_lookup api nm x' = Some z) \<and>
     (\<forall>pn n e c pd s x r x' nm. rte_mempool_create api pn n e c pd s x = (r, x') \<longrightarrow>
        rte_memzone_lookup api nm x' = rte_memzone_lookup api nm x) \<and>
     (\<forall>n s x c x' nm. rte_mempool_cache_create api n s x = (c, x') \<longrightarrow>
        rte_memzone_lookup api nm x' = rte_memzone_lookup api nm x)"

lemma zone_lawsD:
  assumes "zone_laws api"
  shows "rte_memzone_reserve_aligned api nm len s al x = (Some z, x') \<Longrightarrow>
      z \<noteq> 0 \<and> al dvd z \<and> rte_memzone_lookup api nm x' = Some z"
    and "rte_mempool_create api pn n e c pd s x = (r, x') \<Longrightarrow>
      rte_memzone_lookup api nm x' = rte_memzone_lookup api nm x"
    and "rte_mempool_cache_create api n s x = (ch, x') \<Longrightarrow> rte_memzone_lookup api nm x' = rte_memzone_lookup api nm x"
  using assms unfolding zone_laws_def by metis+

lemma ext_add_objects [simp]:
  "(\<And>obj w. ext (obj_init obj w) = ext w) \<Longrightarrow> ext (add_objects obj_init objs w) = ext w"
  unfolding add_objects_def by (induction objs arbitrary: w) auto

lemma get_or_create_found:
  "length name \<le> 24 \<Longrightarrow> no_nul name \<Longrightarrow> rte_memzone_lookup api (''zone_'' @ name) (ext w) = Some z \<Longrightarrow>
   z \<noteq> 0 \<Longrightarrow> MemoryPool_get_or_create prof api name n sz s init w = Done (w, Ok z)"
  by (simp add: MemoryPool_get_or_create_def)

text \<open>A pool is created once: after a successful \<^verbatim>\<open>get_or_create\<close> every further call with that name
  returns the same pool and changes nothing, whatever size it asks for.\<close>

lemma get_or_create_stable:
  assumes laws: "zone_laws api" and init: "\<And>obj w. ext (obj_init obj w) = ext w"
    and ok: "MemoryPool_get_or_create prof api name n sz s obj_init w = Done (w', Ok z)"
  shows "MemoryPool_get_or_create prof' api name n' sz' s' obj_init' w' = Done (w', Ok z)"
proof -
  have nm: "length name \<le> 24" "no_nul name"
    using ok by (auto simp: MemoryPool_get_or_create_def)
  have "rte_memzone_lookup api (''zone_'' @ name) (ext w') = Some z \<and> z \<noteq> 0"
    using ok init zone_lawsD[OF laws]
    by (auto simp: MemoryPool_get_or_create_def Let_def split: option.splits prod.splits)
  then show ?thesis using get_or_create_found[OF nm] by blast
qed

text \<open>When the object pool cannot be created after its zone was reserved, the call fails but the
  zone stays: the next call returns that zone as a pool although no \<^verbatim>\<open>MemoryPool\<close> was ever written
  there.\<close>

lemma get_or_create_leaks_zone:
  assumes laws: "zone_laws api" and nm: "length name \<le> 24" "no_nul name"
    and none: "rte_memzone_lookup api (''zone_'' @ name) (ext w) = None"
    and res: "rte_memzone_reserve_aligned api (''zone_'' @ name) memzone_len s CACHE_LINE_SIZE (ext w) = (Some z, xa)"
    and create: "rte_mempool_create api (''pool_'' @ name) n sz 0 64 s xa = (None, xb)"
  shows "\<exists>w1. MemoryPool_get_or_create prof api name n sz s init w = Done (w1, Err Exhausted)
    \<and> mempools w1 = mempools w
    \<and> MemoryPool_get_or_create prof api name n sz s init w1 = Done (w1, Ok z)"
proof -
  let ?w1 = "w\<lparr>ext := xb\<rparr>"
  have "MemoryPool_get_or_create prof api name n sz s init w = Done (?w1, Err Exhausted)"
    using nm none res create by (simp add: MemoryPool_get_or_create_def)
  moreover have "z \<noteq> 0" "rte_memzone_lookup api (''zone_'' @ name) (ext ?w1) = Some z"
    using zone_lawsD(1)[OF laws res] zone_lawsD(2)[OF laws create] by simp_all
  ultimately show ?thesis using get_or_create_found[OF nm] by fastforce
qed

section \<open>A simulator for the witnesses\<close>

text \<open>A small executable DPDK: zones, free objects and mbufs are lists, the sizes of received bursts are
  scripted, sent frames are logged and their mbufs free again.  It satisfies the laws above, so they are satisfiable; no theorem depends on it
  apart from the witnesses.\<close>

record sim =
  sim_zones :: "(string \<times> ptr) list"
  sim_pool :: "(ptr \<times> (ptr \<times> objhdr \<times> packet) list) option"
  sim_free :: "ptr list"
  sim_mbufs :: "(ptr \<times> mbuf) list"
  sim_rx :: "nat list"
  sim_tx :: "(u16 \<times> u16 \<times> ptr \<times> mbuf) list"
  sim_freed :: "ptr list"

definition blank_mbuf :: mbuf where
  "blank_mbuf = \<lparr>m_buf_addr = 8192, m_data_off = 128, m_buf_iova = 8192, m_buf_len = 1664, m_ol_flags = 0, m_shinfo = None,
     m_pkt_len = 60, m_data_len = 60, m_l2_len = 0, m_l3_len = 0\<rparr>"

definition uniq :: "(ptr \<times> mbuf) list \<Rightarrow> (ptr \<times> mbuf) list" where
  "uniq xs = map (\<lambda>p. (p, the (map_of xs p))) (remdups (map fst xs))"

definition without :: "(ptr \<times> mbuf) list \<Rightarrow> (ptr \<times> mbuf) list \<Rightarrow> (ptr \<times> mbuf) list" where
  "without ys xs = filter (\<lambda>b. fst b \<notin> fst ` set ys) xs"

definition sim_api :: "sim dpdk_api" where
  "sim_api = \<lparr>
     rte_memzone_lookup = (\<lambda>nm x. map_of (sim_zones x) nm),
     rte_memzone_reserve_aligned = (\<lambda>nm len s al x.
       let z = al * (length (sim_zones x) + 1)
       in (if z = 0 then (None, x) else (Some z, x\<lparr>sim_zones := (nm, z) # sim_zones x\<rparr>))),
     rte_mempool_create = (\<lambda>nm n e c pd s x.
       (map_option (\<lambda>(mp, objs). (mp, map (\<lambda>(obj, h, j). (obj, h\<lparr>oh_mp := mp\<rparr>, j)) objs)) (sim_pool x), x)),
     rte_mempool_cache_create = (\<lambda>sz s x. (8, x)),
     rte_mempool_generic_get = (\<lambda>mp n c x.
       let objs = take n (remdups (sim_free x))
       in if length objs = n then (Some objs, x\<lparr>sim_free := filter (\<lambda>p. p \<notin> set objs) (sim_free x)\<rparr>)
          else (None, x)),
     rte_mempool_generic_put = (\<lambda>mp obj c x. x\<lparr>sim_free := obj # sim_free x\<rparr>),
     rte_mbuf_raw_free = (\<lambda>m x. x\<lparr>sim_freed := m # sim_freed x, sim_mbufs := sim_mbufs x @ [(m, blank_mbuf)]\<rparr>),
     rte_mempool_lookup = (\<lambda>nm x. map_option fst (sim_pool x)),
     rte_pktmbuf_alloc_bulk = (\<lambda>mp n x.
       let bufs = take n (uniq (sim_mbufs x))
       in if length bufs = n then (Some bufs, x\<lparr>sim_mbufs := without bufs (sim_mbufs x)\<rparr>) else (None, x)),
     rte_eth_tx_burst = (\<lambda>port q ps x.
       let k = min 2 (length ps)
       in (k, x\<lparr>sim_tx := sim_tx x @ map (\<lambda>pm. (port, q, pm)) (take k ps), sim_mbufs := sim_mbufs x @ take k ps\<rparr>)),
     rte_eth_rx_burst = (\<lambda>port q n x. case sim_rx x of [] \<Rightarrow> ([], x)
       | c # cs \<Rightarrow> let items = map (apsnd (\<lambda>m. m\<lparr>m_data_off := 128, m_buf_len := 1728\<rparr>)) (take (min c n) (uniq (sim_mbufs x)))
           in (items, x\<lparr>sim_rx := cs, sim_mbufs := without items (sim_mbufs x)\<rparr>)),
     rte_eth_macaddr_get = (\<lambda>port x. Some [2, 0, 0, 0, 0, 1]),
     rte_ipv4_phdr_cksum = (\<lambda>h fl. 0),
     f_external = push_bit 61 1, f_tx_ip_cksum = push_bit 54 1, f_tx_ipv4 = push_bit 55 1,
     f_tx_udp_cksum = push_bit 52 3\<rparr>"

definition sim_init :: sim where
  "sim_init = \<lparr>sim_zones = [], sim_pool = None, sim_free = [], sim_mbufs = [], sim_rx = [], sim_tx = [],
     sim_freed = []\<rparr>"

definition sim_world :: "sim \<Rightarrow> sim world" where
  "sim_world x = \<lparr>bytes = (\<lambda>_. 0), pkts = Map.empty, idle = Map.empty, mbufs = Map.empty, shinfos = Map.empty,
     objhdrs = Map.empty, mempools = Map.empty, privs = Map.empty, slots = Map.empty, next_queue = 0,
     port_ready = False, ext = x\<rparr>"

lemma sim_zone_laws: "zone_laws sim_api"
  by (auto simp: zone_laws_def sim_api_def Let_def split: if_splits)

lemma sim_mempool_laws: "mempool_laws sim_api (\<lambda>x. set (sim_free x))"
  by (auto simp: mempool_laws_def sim_api_def Let_def split: if_splits dest: in_set_takeD)

end
