(* ===== verification/Packet.thy ===== *)
theory Packet
  imports Memory
begin

text \<open>
  \<^verbatim>\<open>omnistack-core/src/packet.rs\<close>: the length and offset bookkeeping of a packet, the header views, and
  the reference-counted packet pool.  \<open>pool_obj\<close> says that a pointer can be given back by a
  thread, \<open>free_ok\<close> that every packet in the pool has reference count one and is not in use; both are kept by every
  operation, and \<open>dealloc_counts\<close> shows that a packet returns to the pool exactly when its last
  reference is dropped.
\<close>

section \<open>Lengths, offsets and views\<close>

definition packet_len :: "profile \<Rightarrow> packet \<Rightarrow> u16 outcome" where
  "packet_len prof pkt = sub_chk prof (p_len pkt) (p_offset pkt)"

definition set_len :: "profile \<Rightarrow> u16 \<Rightarrow> packet \<Rightarrow> packet outcome" where
  "set_len prof len pkt = andthen (add_chk prof len (p_offset pkt)) (\<lambda>l. Done (pkt\<lparr>p_len := l\<rparr>))"

definition data_ptr :: "packet \<Rightarrow> ptr" where
  "data_ptr pkt = p_data pkt + unat (p_offset pkt)"

text \<open>How far the data pointer of a packet may be followed: the packet's own buffer, or the buffer of
  its mbuf.\<close>

definition buf_extent :: "'x world \<Rightarrow> packet \<Rightarrow> nat" where
  "buf_extent w pkt = (case p_buf_ty pkt of
       Local \<Rightarrow> PACKET_BUF_SIZE
     | Mbuf m \<Rightarrow> (case mbufs w m of Some b \<Rightarrow> unat (m_buf_len b) | None \<Rightarrow> 0))"

text \<open>The address of a header of \<open>sz\<close> bytes at an offset from the data pointer: \<^verbatim>\<open>parse\<close> and
  \<^verbatim>\<open>get_l2_header\<close>, \<^verbatim>\<open>get_l3_header\<close>, \<^verbatim>\<open>get_l4_header\<close> cast that address.\<close>

definition header_at :: "nat \<Rightarrow> u16 \<Rightarrow> packet \<Rightarrow> 'x world \<Rightarrow> ptr outcome" where
  "header_at sz off pkt w =
     (if unat off + sz \<le> buf_extent w pkt then Done (p_data pkt + unat off) else Undef)"

definition parse_at :: "nat \<Rightarrow> packet \<Rightarrow> 'x world \<Rightarrow> ptr outcome" where
  "parse_at sz pkt w = header_at sz (p_offset pkt) pkt w"

definition get_l2_header :: "nat \<Rightarrow> packet \<Rightarrow> 'x world \<Rightarrow> ptr outcome" where
  "get_l2_header sz pkt w = header_at sz (h_offset (l2_header pkt)) pkt w"

definition get_l3_header :: "nat \<Rightarrow> packet \<Rightarrow> 'x world \<Rightarrow> ptr outcome" where
  "get_l3_header sz pkt w = header_at sz (h_offset (l3_header pkt)) pkt w"

definition get_l4_header :: "nat \<Rightarrow> packet \<Rightarrow> 'x world \<Rightarrow> ptr outcome" where
  "get_l4_header sz pkt w = header_at sz (h_offset (l4_header pkt)) pkt w"

definition iova :: "profile \<Rightarrow> ptr \<Rightarrow> 'x world \<Rightarrow> u64 outcome" where
  "iova prof p w =
     andthen (deref_pkt p w) (\<lambda>pkt.
     andthen (debug_assert prof (p_buf_ty pkt = Local)) (\<lambda>_.
     andthen (virt2iova p w) (\<lambda>base.
     andthen (sub_chk prof (of_nat (data_ptr pkt)) (of_nat p)) (\<lambda>d.
     add_chk prof base d))))"

section \<open>The pool\<close>

definition packet_init :: "ptr \<Rightarrow> 'x world \<Rightarrow> 'x world" where
  "packet_init obj w = (case idle w obj of
       Some pkt \<Rightarrow> w\<lparr>idle := (idle w)(obj \<mapsto> pkt\<lparr>p_refcnt := 1, p_next := None\<rparr>)\<rparr>
     | None \<Rightarrow> w)"

definition PACKET_POOL_SIZE :: u32 where "PACKET_POOL_SIZE = push_bit 16 1"
definition PACKET_CACHE_SIZE :: u32 where "PACKET_CACHE_SIZE = 256"

definition PacketPool_get_or_create ::
  "profile \<Rightarrow> 'x dpdk_api \<Rightarrow> u32 \<Rightarrow> u32 \<Rightarrow> 'x world \<Rightarrow> ('x world \<times> packet_pool) outcome" where
  "PacketPool_get_or_create prof api socket_id tid w =
     andthen (MemoryPool_get_or_create prof api (''pktpool_'' @ show_dec (unat socket_id)) PACKET_POOL_SIZE
        (of_nat size_Packet) socket_id packet_init w) (\<lambda>(w1, r).
     case r of Err e \<Rightarrow> Panic
     | Ok z \<Rightarrow>
       andthen (create_cache api z PACKET_CACHE_SIZE tid w1) (\<lambda>w2.
       Done (w2, \<lparr>pp_mp = z, pp_thread_id = tid\<rparr>)))"

definition PacketPool_allocate ::
  "'x dpdk_api \<Rightarrow> packet_pool \<Rightarrow> 'x world \<Rightarrow> ('x world \<times> (ptr, memory_error) result) outcome" where
  "PacketPool_allocate api pool w =
     qmark (MemoryPool_allocate api (pp_mp pool) 1 1 (pp_thread_id pool) w) (\<lambda>w1 objs.
     case objs of p # _ \<Rightarrow> Done (w1, Ok p) | [] \<Rightarrow> Undef)"

definition allocate_many ::
  "'x dpdk_api \<Rightarrow> packet_pool \<Rightarrow> u32 \<Rightarrow> nat \<Rightarrow> 'x world \<Rightarrow> ('x world \<times> (ptr list, memory_error) result) outcome"
where
  "allocate_many api pool n cap w = MemoryPool_allocate api (pp_mp pool) cap n (pp_thread_id pool) w"

text \<open>An mbuf that is freed belongs to DPDK again: the program must own it, and may not touch it any more.\<close>

definition raw_free :: "'x dpdk_api \<Rightarrow> ptr \<Rightarrow> 'x world \<Rightarrow> 'x world outcome" where
  "raw_free api m w = (case mbufs w m of None \<Rightarrow> Undef
     | Some _ \<Rightarrow> Done (w\<lparr>mbufs := (mbufs w)(m := None), ext := rte_mbuf_raw_free api m (ext w)\<rparr>))"

definition PacketPool_deallocate :: "profile \<Rightarrow> 'x dpdk_api \<Rightarrow> ptr \<Rightarrow> u32 \<Rightarrow> 'x world \<Rightarrow> 'x world outcome" where
  "PacketPool_deallocate prof api p tid w =
     andthen (deref_pkt p w) (\<lambda>pkt.
     if p_refcnt pkt = 1
     then andthen (case p_buf_ty pkt of Mbuf m \<Rightarrow> raw_free api m w | Local \<Rightarrow> Done w) (MemoryPool_deallocate api p tid)
     else andthen (sub_chk prof (p_refcnt pkt) 1) (\<lambda>r. Done (set_pkt p (pkt\<lparr>p_refcnt := r\<rparr>) w)))"

section \<open>Lengths\<close>

lemma header_at_Done [simp]:
  "header_at sz off pkt w = Done a \<longleftrightarrow> unat off + sz \<le> buf_extent w pkt \<and> a = p_data pkt + unat off"
  "header_at sz off pkt w \<noteq> Panic"
  by (auto simp: header_at_def)

lemmas view_defs = parse_at_def get_l2_header_def get_l3_header_def get_l4_header_def

lemma buf_extent_cong:
  "p_buf_ty pkt = p_buf_ty pkt' \<Longrightarrow> mbufs w = mbufs w' \<Longrightarrow> buf_extent w pkt = buf_extent w' pkt'"
  by (auto simp: buf_extent_def split: pkt_buf_type.splits option.splits)

text \<open>A list of packets linked through \<^verbatim>\<open>next\<close>.\<close>

fun chain :: "'x world \<Rightarrow> ptr option \<Rightarrow> ptr list \<Rightarrow> bool" where
  "chain w q [] \<longleftrightarrow> q = None"
| "chain w q (p # ps) \<longleftrightarrow> q = Some p \<and> (case pkts w p of Some pkt \<Rightarrow> chain w (p_next pkt) ps | None \<Rightarrow> False)"

lemma chain_set_pkt: "p \<notin> set ps \<Longrightarrow> chain (set_pkt p pkt w) q ps = chain w q ps"
  by (induction ps arbitrary: q) (auto split: option.splits)

text \<open>\<^verbatim>\<open>set_len\<close> then \<^verbatim>\<open>len\<close>: if the sum with the offset fits 16 bits the length is read back in both
  profiles; if it does not, the debug build panics and the release build stores a wrapped end but still
  reads the length back.\<close>

lemma set_len_len:
  "(unat n + unat (p_offset pkt) < 2 ^ 16 \<longrightarrow>
      (\<exists>pkt'. set_len prof n pkt = Done pkt' \<and> packet_len prof pkt' = Done n
        \<and> unat (p_len pkt') = unat n + unat (p_offset pkt) \<and> p_offset pkt' = p_offset pkt)) \<and>
   (2 ^ 16 \<le> unat n + unat (p_offset pkt) \<longrightarrow> set_len Debug n pkt = Panic) \<and>
   (\<exists>pkt'. set_len Release n pkt = Done pkt' \<and> packet_len Release pkt' = Done n)"
proof -
  have "packet_len prof (pkt\<lparr>p_len := n + p_offset pkt\<rparr>) = Done n"
    if "unat n + unat (p_offset pkt) < 2 ^ 16"
    using that unat_add_fits[of n "p_offset pkt"]
    by (simp add: packet_len_def chk_simps word_le_nat_alt)
  then show ?thesis
    using unat_add_fits[of n "p_offset pkt"]
    by (auto simp: set_len_def add_chk_def packet_len_def)
qed

definition blank_packet :: packet where
  "blank_packet = \<lparr>p_len = 0, l2_header = \<lparr>h_length = 0, h_offset = 0\<rparr>, l3_header = \<lparr>h_length = 0, h_offset = 0\<rparr>,
     l4_header = \<lparr>h_length = 0, h_offset = 0\<rparr>, p_offset = 64, p_data = 64, p_next = None, p_nic = 0,
     p_thread_id = 0, p_refcnt = 1, p_buf_ty = Local\<rparr>"

section \<open>Reference counts\<close>

definition pool_obj :: "u32 \<Rightarrow> ptr \<Rightarrow> 'x world \<Rightarrow> bool" where
  "pool_obj tid p w \<longleftrightarrow>
     (case objhdrs w p of None \<Rightarrow> False
      | Some h \<Rightarrow> (case privs w (oh_mp h) of None \<Rightarrow> False
         | Some cpt \<Rightarrow> unat tid < MAX_THREAD_NUM \<and> slots w (slot_addr cpt tid) \<noteq> None))"

text \<open>What lies in a pool is a packet with reference count one, and is not in use.\<close>

definition free_ok :: "('x \<Rightarrow> ptr set) \<Rightarrow> 'x world \<Rightarrow> bool" where
  "free_ok avail w \<longleftrightarrow> (\<forall>p\<in>avail (ext w). pkts w p = None \<and> (\<exists>pkt. idle w p = Some pkt \<and> p_refcnt pkt = 1))"

text \<open>The mbuf a packet borrows its data from belongs to the program.\<close>

definition buf_live :: "packet \<Rightarrow> 'x world \<Rightarrow> bool" where
  "buf_live pkt w \<longleftrightarrow> (\<forall>m. p_buf_ty pkt = Mbuf m \<longrightarrow> mbufs w m \<noteq> None)"

text \<open>What giving back the last reference does to the program's memory and to DPDK.\<close>

definition given_back :: "ptr \<Rightarrow> packet \<Rightarrow> 'x world \<Rightarrow> 'x world" where
  "given_back p pkt w = w\<lparr>pkts := (pkts w)(p := None), idle := (idle w)(p \<mapsto> pkt),
     mbufs := (case p_buf_ty pkt of Mbuf m \<Rightarrow> (mbufs w)(m := None) | Local \<Rightarrow> mbufs w)\<rparr>"

definition freed_ext :: "'x dpdk_api \<Rightarrow> packet \<Rightarrow> 'x \<Rightarrow> 'x" where
  "freed_ext api pkt x = (case p_buf_ty pkt of Mbuf m \<Rightarrow> rte_mbuf_raw_free api m x | Local \<Rightarrow> x)"

lemma given_back_simps [simp]:
  "pkts (given_back p pkt w) = (pkts w)(p := None)" "idle (given_back p pkt w) = (idle w)(p \<mapsto> pkt)"
  "bytes (given_back p pkt w) = bytes w" "ext (given_back p pkt w) = ext w" "objhdrs (given_back p pkt w) = objhdrs w"
  "mempools (given_back p pkt w) = mempools w" "privs (given_back p pkt w) = privs w" "slots (given_back p pkt w) = slots w"
  "mbufs (given_back p pkt w) = (case p_buf_ty pkt of Mbuf m \<Rightarrow> (mbufs w)(m := None) | Local \<Rightarrow> mbufs w)"
  by (simp_all add: given_back_def)

lemma hand_out_simps [simp]:
  "pkts (hand_out objs w) = pkts w ++ (idle w |` set objs)" "idle (hand_out objs w) = idle w |` (- set objs)"
  "bytes (hand_out objs w) = bytes w" "ext (hand_out objs w) = ext w" "objhdrs (hand_out objs w) = objhdrs w"
  "mempools (hand_out objs w) = mempools w" "privs (hand_out objs w) = privs w" "slots (hand_out objs w) = slots w"
  "mbufs (hand_out objs w) = mbufs w" "shinfos (hand_out objs w) = shinfos w"
  by (simp_all add: hand_out_def)

text \<open>The packets handed out have the contents they were put back with; the others in use are not touched.\<close>

lemma hand_out_pkts:
  assumes "free_ok avail w" and "set objs \<subseteq> avail (ext w)"
  shows "p \<in> set objs \<Longrightarrow> \<exists>pkt. pkts (hand_out objs (w\<lparr>ext := x\<rparr>)) p = Some pkt \<and> idle w p = Some pkt \<and> p_refcnt pkt = 1"
    and "p \<notin> set objs \<Longrightarrow> pkts (hand_out objs (w\<lparr>ext := x\<rparr>)) p = pkts w p"
  using assms by (fastforce simp: free_ok_def map_add_def, auto simp: map_add_def restrict_map_def)

lemma mempool_get:
  "mempool_laws api avail \<Longrightarrow> rte_mempool_generic_get api mp n c x = (Some objs, x') \<Longrightarrow>
     distinct objs \<and> length objs = n \<and> set objs \<subseteq> avail x \<and> avail x' = avail x - set objs"
  by (simp add: mempool_laws_def)

lemma mempool_get_None:
  "mempool_laws api avail \<Longrightarrow> rte_mempool_generic_get api mp n c x = (None, x') \<Longrightarrow> avail x' = avail x"
  by (simp add: mempool_laws_def)

lemma mempool_put [simp]:
  "mempool_laws api avail \<Longrightarrow> avail (rte_mempool_generic_put api mp obj c x) = insert obj (avail x)"
  by (simp add: mempool_laws_def)

lemma mempool_raw_free [simp]:
  "mempool_laws api avail \<Longrightarrow> avail (rte_mbuf_raw_free api m x) = avail x"
  by (simp add: mempool_laws_def)

lemma pool_obj_cong:
  "objhdrs w' = objhdrs w \<Longrightarrow> privs w' = privs w \<Longrightarrow> slots w' = slots w \<Longrightarrow> pool_obj tid p w' = pool_obj tid p w"
  by (auto simp: pool_obj_def split: option.splits)

lemma MemoryPool_deallocate_pool_obj:
  assumes "pool_obj tid p w" and "pkts w p = Some pkt"
  shows "\<exists>h cpt c. objhdrs w p = Some h \<and> privs w (oh_mp h) = Some cpt \<and> slots w (slot_addr cpt tid) = Some c \<and>
    MemoryPool_deallocate api p tid w = Done (w\<lparr>pkts := (pkts w)(p := None), idle := (idle w)(p \<mapsto> pkt),
      ext := rte_mempool_generic_put api (oh_mp h) p c (ext w)\<rparr>)"
  using assms by (auto simp: pool_obj_def MemoryPool_deallocate_def read_slot_def take_back_def split: option.splits)

text \<open>One \<^verbatim>\<open>PacketPool::deallocate\<close>: the last reference frees the mbuf of a received packet and puts the packet
  back, every other one is counted down, and nothing else in memory changes.\<close>

lemma deallocate_last_ext:
  assumes obj: "pool_obj tid p w" and pkt: "pkts w p = Some pkt" "p_refcnt pkt = 1" and buf: "buf_live pkt w"
  shows "\<exists>h cpt c. objhdrs w p = Some h \<and> privs w (oh_mp h) = Some cpt \<and> slots w (slot_addr cpt tid) = Some c \<and>
    PacketPool_deallocate prof api p tid w =
      Done (given_back p pkt (w\<lparr>ext := rte_mempool_generic_put api (oh_mp h) p c (freed_ext api pkt (ext w))\<rparr>))"
proof (cases "p_buf_ty pkt")
  case Local
  then show ?thesis using MemoryPool_deallocate_pool_obj[OF obj pkt(1), of api] pkt
    by (auto simp: PacketPool_deallocate_def given_back_def freed_ext_def)
next
  case (Mbuf m)
  let ?w = "w\<lparr>mbufs := (mbufs w)(m := None), ext := rte_mbuf_raw_free api m (ext w)\<rparr>"
  have "pool_obj tid p ?w" using obj pool_obj_cong[of ?w w tid p] by simp
  from MemoryPool_deallocate_pool_obj[OF this, of pkt api] Mbuf buf pkt show ?thesis
    by (auto simp: PacketPool_deallocate_def given_back_def freed_ext_def raw_free_def buf_live_def)
qed

lemma freed_ext_avail [simp]: "mempool_laws api avail \<Longrightarrow> avail (freed_ext api pkt x) = avail x"
  by (simp add: freed_ext_def split: pkt_buf_type.split)

lemma deallocate_last:
  assumes "mempool_laws api avail" and "pool_obj tid p w" and "pkts w p = Some pkt" and "p_refcnt pkt = 1" and "buf_live pkt w"
  shows "\<exists>x'. PacketPool_deallocate prof api p tid w = Done (given_back p pkt (w\<lparr>ext := x'\<rparr>)) \<and> avail x' = insert p (avail (ext w))"
  using deallocate_last_ext[OF assms(2-5), of prof api] assms(1) by fastforce

lemma deallocate_shared:
  assumes "pkts w p = Some pkt" and "1 < p_refcnt pkt"
  shows "PacketPool_deallocate prof api p tid w = Done (set_pkt p (pkt\<lparr>p_refcnt := p_refcnt pkt - 1\<rparr>) w)"
  using assms by (auto simp: PacketPool_deallocate_def sub_chk_fits word_le_nat_alt word_less_nat_alt)

primrec deallocate_times :: "profile \<Rightarrow> 'x dpdk_api \<Rightarrow> ptr \<Rightarrow> u32 \<Rightarrow> nat \<Rightarrow> 'x world \<Rightarrow> 'x world outcome" where
  "deallocate_times prof api p tid 0 w = Done w"
| "deallocate_times prof api p tid (Suc k) w =
     andthen (PacketPool_deallocate prof api p tid w) (deallocate_times prof api p tid k)"

lemma deallocate_times_shared:
  assumes "pkts w p = Some pkt" and "p_refcnt pkt = of_nat (Suc k)" and "Suc k < 2 ^ 64"
  shows "deallocate_times prof api p tid k w = Done (set_pkt p (pkt\<lparr>p_refcnt := 1\<rparr>) w)"
  using assms
proof (induction k arbitrary: w pkt)
  case 0
  then show ?case by (simp add: set_pkt_def fun_upd_idem)
next
  case (Suc k)
  let ?pkt = "pkt\<lparr>p_refcnt := p_refcnt pkt - 1\<rparr>"
  have "unat (p_refcnt pkt) = Suc (Suc k)"
    unfolding Suc.prems(2) using Suc.prems(3) by (intro unat_of_nat_small) simp
  then have "1 < p_refcnt pkt" by (simp add: word_less_nat_alt)
  then have step: "PacketPool_deallocate prof api p tid w = Done (set_pkt p ?pkt w)"
    using Suc.prems(1) by (rule deallocate_shared[rotated])
  have "deallocate_times prof api p tid k (set_pkt p ?pkt w) =
      Done (set_pkt p (?pkt\<lparr>p_refcnt := 1\<rparr>) (set_pkt p ?pkt w))"
    using Suc.prems(2,3) by (intro Suc.IH) simp_all
  then show ?case by (simp add: step set_pkt_def)
qed

text \<open>C10. Reference counting of packets in use, whose mbuf, if they have one, is not freed yet: with \<open>k + 1\<close> references the first \<open>k\<close> calls of
  \<^verbatim>\<open>PacketPool::deallocate\<close> only count down, freeing neither the packet nor its mbuf; the next call frees the mbuf of a
  received packet and puts the packet, and only it, back into the pool its header names, through the cache of the thread;
  from then on the packet is not in use, and giving it up once more is undefined.\<close>

theorem dealloc_counts:
  assumes laws: "mempool_laws api avail" and obj: "pool_obj tid p w" and pkt: "pkts w p = Some pkt"
    and refs: "p_refcnt pkt = of_nat (Suc k)" "Suc k < 2 ^ 64" and buf: "buf_live pkt w"
  shows "\<exists>w1 w2 h cpt c. deallocate_times prof api p tid k w = Done w1 \<and> w1 = set_pkt p (pkt\<lparr>p_refcnt := 1\<rparr>) w
    \<and> PacketPool_deallocate prof api p tid w1 = Done w2
    \<and> pkts w2 = (pkts w)(p := None) \<and> idle w2 = (idle w)(p \<mapsto> pkt\<lparr>p_refcnt := 1\<rparr>)
    \<and> mbufs w2 = (case p_buf_ty pkt of Mbuf m \<Rightarrow> (mbufs w)(m := None) | Local \<Rightarrow> mbufs w)
    \<and> objhdrs w p = Some h \<and> privs w (oh_mp h) = Some cpt \<and> slots w (slot_addr cpt tid) = Some c
    \<and> ext w2 = rte_mempool_generic_put api (oh_mp h) p c
        (case p_buf_ty pkt of Mbuf m \<Rightarrow> rte_mbuf_raw_free api m (ext w) | Local \<Rightarrow> ext w)
    \<and> avail (ext w2) = insert p (avail (ext w)) \<and> bytes w2 = bytes w
    \<and> PacketPool_deallocate prof api p tid w2 = Undef"
proof -
  let ?pkt = "pkt\<lparr>p_refcnt := 1\<rparr>" let ?w1 = "set_pkt p ?pkt w"
  have "pool_obj tid p ?w1" using obj pool_obj_cong[of ?w1 w tid p] by simp
  from deallocate_last_ext[OF this, of ?pkt prof api] buf obtain h cpt c where
      "objhdrs w p = Some h" "privs w (oh_mp h) = Some cpt" "slots w (slot_addr cpt tid) = Some c"
    and d: "PacketPool_deallocate prof api p tid ?w1 =
      Done (given_back p ?pkt (?w1\<lparr>ext := rte_mempool_generic_put api (oh_mp h) p c (freed_ext api ?pkt (ext w))\<rparr>))"
    by (auto simp: buf_live_def)
  moreover have "avail (freed_ext api ?pkt (ext w)) = avail (ext w)" using laws by simp
  moreover have "PacketPool_deallocate prof api p tid (given_back p ?pkt w3) = Undef" for w3
    by (simp add: PacketPool_deallocate_def deref_pkt_def)
  ultimately show ?thesis using deallocate_times_shared[OF pkt refs] laws
    by - (rule exI[of _ ?w1],
      rule exI[of _ "given_back p ?pkt (?w1\<lparr>ext := rte_mempool_generic_put api (oh_mp h) p c (freed_ext api ?pkt (ext w))\<rparr>)"],
      rule exI[of _ h], rule exI[of _ cpt], rule exI[of _ c], simp add: freed_ext_def split: pkt_buf_type.split)
qed

lemma free_ok_allocate:
  assumes laws: "mempool_laws api avail" and ok: "free_ok avail w"
    and alloc: "MemoryPool_allocate api z cap n tid w = Done (w', r)"
  shows "free_ok avail w' \<and>
    (case r of Err e \<Rightarrow> avail (ext w') = avail (ext w) \<and> w' = w\<lparr>ext := ext w'\<rparr>
     | Ok objs \<Rightarrow> distinct objs \<and> length objs = unat n \<and> avail (ext w') = avail (ext w) - set objs \<and>
         set objs \<subseteq> avail (ext w) \<and> w' = hand_out objs (w\<lparr>ext := ext w'\<rparr>) \<and>
         (\<forall>p\<in>set objs. pkts w p = None \<and> (\<exists>pkt. pkts w' p = Some pkt \<and> p_refcnt pkt = 1)) \<and>
         (\<forall>p. p \<notin> set objs \<longrightarrow> pkts w' p = pkts w p))"
proof -
  from alloc obtain mp c ro x where g: "rte_mempool_generic_get api mp (unat n) c (ext w) = (ro, x)"
    and w': "case ro of Some objs \<Rightarrow> w' = hand_out objs (w\<lparr>ext := x\<rparr>) \<and> r = Ok objs | None \<Rightarrow> w' = w\<lparr>ext := x\<rparr> \<and> r = Err Exhausted"
    by (auto simp: MemoryPool_allocate_def split: if_splits option.splits prod.splits)
  show ?thesis
  proof (cases ro)
    case None
    then show ?thesis using w' ok mempool_get_None[OF laws g[unfolded None]] by (auto simp: free_ok_def)
  next
    case (Some objs)
    from mempool_get[OF laws g[unfolded Some]] have o: "distinct objs" "length objs = unat n" "set objs \<subseteq> avail (ext w)"
      "avail x = avail (ext w) - set objs" by simp_all
    have "free_ok avail (hand_out objs (w\<lparr>ext := x\<rparr>))"
      using ok o by (auto simp: free_ok_def map_add_def restrict_map_def)
    moreover have "\<forall>p\<in>set objs. pkts w p = None" using ok o(3) by (auto simp: free_ok_def)
    ultimately show ?thesis using w' Some o hand_out_pkts[OF ok o(3), of _ x] by fastforce
  qed
qed

lemma free_ok_given_back:
  "free_ok avail w \<Longrightarrow> p_refcnt pkt = 1 \<Longrightarrow> avail x = insert p (avail (ext w)) \<Longrightarrow> free_ok avail (given_back p pkt (w\<lparr>ext := x\<rparr>))"
  by (auto simp: free_ok_def)

lemma free_ok_deallocate:
  assumes laws: "mempool_laws api avail" and ok: "free_ok avail w" and obj: "pool_obj tid p w"
    and p: "pkts w p = Some pkt" "0 < p_refcnt pkt" and buf: "buf_live pkt w"
  shows "\<exists>w'. PacketPool_deallocate prof api p tid w = Done w' \<and> free_ok avail w'"
proof (cases "p_refcnt pkt = 1")
  case True
  from deallocate_last[OF laws obj p(1) True buf, of prof] free_ok_given_back[OF ok True] show ?thesis by blast
next
  case False
  with p(2) have "1 < p_refcnt pkt"
    by (intro word_gt_1)
  from deallocate_shared[OF p(1) this] ok p(1) show ?thesis
    by (auto simp: free_ok_def)
qed

text \<open>C21. Every packet in the pool has reference count one and is not in use.  Allocation hands out distinct packets that
  were not in use, with count one, and keeps the invariant, and so does giving up a reference to a packet in use, whose
  mbuf, if it has one, is the program's: this is why the receive path does not have to reset the count.\<close>

theorem pool_invariant:
  assumes "mempool_laws api avail" and "free_ok avail w"
  shows "(\<forall>w' objs. allocate_many api pool n cap w = Done (w', Ok objs) \<longrightarrow>
       free_ok avail w' \<and> distinct objs \<and> length objs = unat n \<and> avail (ext w') = avail (ext w) - set objs \<and>
       (\<forall>p\<in>set objs. pkts w p = None \<and> (\<exists>pkt. pkts w' p = Some pkt \<and> p_refcnt pkt = 1)))
    \<and> (\<forall>p pkt. pool_obj tid p w \<and> pkts w p = Some pkt \<and> 0 < p_refcnt pkt \<and> buf_live pkt w \<longrightarrow>
       (\<exists>w'. PacketPool_deallocate prof api p tid w = Done w' \<and> free_ok avail w'))"
proof -
  have "free_ok avail w' \<and> distinct objs \<and> length objs = unat n \<and> avail (ext w') = avail (ext w) - set objs \<and>
       (\<forall>p\<in>set objs. pkts w p = None \<and> (\<exists>pkt. pkts w' p = Some pkt \<and> p_refcnt pkt = 1))"
    if "allocate_many api pool n cap w = Done (w', Ok objs)" for w' objs
    using free_ok_allocate[OF assms that[unfolded allocate_many_def]] by simp
  then show ?thesis using free_ok_deallocate[OF assms] by blast
qed

text \<open>A pool with one packet, for the witnesses: the object at address 1024 belongs to the DPDK pool 7.\<close>

definition one_packet_world :: "usize \<Rightarrow> ptr list \<Rightarrow> sim world" where
  "one_packet_world refs free = (sim_world (sim_init\<lparr>sim_free := free\<rparr>))\<lparr>
     pkts := [1024 \<mapsto> blank_packet\<lparr>p_refcnt := refs, p_data := 1024 + packet_buf_off\<rparr>],
     objhdrs := [1024 \<mapsto> \<lparr>oh_mp = 7, oh_iova = 0x100000\<rparr>], privs := [7 \<mapsto> 128],
     mempools := [64 \<mapsto> \<lparr>mp_mp = 7, mp_socket_id = 0, mp_cache_per_thread = 128\<rparr>],
     slots := [128 \<mapsto> 8]\<rparr>"

definition mbuf_packet_world :: "usize \<Rightarrow> sim world" where
  "mbuf_packet_world refs = (one_packet_world refs [])\<lparr>mbufs := [100 \<mapsto> blank_mbuf],
     pkts := [1024 \<mapsto> blank_packet\<lparr>p_refcnt := refs, p_data := 8192, p_buf_ty := Mbuf 100\<rparr>]\<rparr>"

lemmas one_packet_defs = one_packet_world_def sim_world_def sim_init_def

lemma one_packet_pool_obj: "pool_obj 0 1024 (one_packet_world refs free)"
  by (simp add: pool_obj_def one_packet_defs slot_addr_def)

theorem dealloc_counts_witness:
  "\<exists>w1 w2. deallocate_times Debug sim_api 1024 0 2 (mbuf_packet_world 3) = Done w1 \<and> mbufs w1 100 = Some blank_mbuf
    \<and> PacketPool_deallocate Debug sim_api 1024 0 w1 = Done w2 \<and> mbufs w2 100 = None \<and> sim_freed (ext w2) = [100]
    \<and> set (sim_free (ext w2)) = {1024} \<and> PacketPool_deallocate Debug sim_api 1024 0 w2 = Undef"
proof -
  let ?w = "mbuf_packet_world 3" and ?pkt = "blank_packet\<lparr>p_refcnt := 3, p_data := 8192, p_buf_ty := Mbuf 100\<rparr>"
  have obj: "pool_obj 0 1024 ?w" using one_packet_pool_obj[of 3 "[]"] pool_obj_cong[of ?w "one_packet_world 3 []" 0 1024]
    by (simp add: mbuf_packet_world_def)
  have pkt: "pkts ?w 1024 = Some ?pkt" and refs: "p_refcnt ?pkt = of_nat (Suc 2)" "Suc 2 < 2 ^ 64"
    and buf: "buf_live ?pkt ?w"
    by (simp_all add: mbuf_packet_world_def buf_live_def)
  from dealloc_counts[OF sim_mempool_laws obj pkt refs buf, of Debug] show ?thesis
    by - (elim exE conjE, auto simp: mbuf_packet_world_def one_packet_defs sim_api_def)
qed

theorem pool_invariant_witness:
  "free_ok (\<lambda>x. set (sim_free x)) (one_packet_world 1 []) \<and>
   (\<exists>w'. PacketPool_deallocate Debug sim_api 1024 0 (one_packet_world 1 []) = Done w'
      \<and> free_ok (\<lambda>x. set (sim_free x)) w')"
proof -
  let ?pkt = "blank_packet\<lparr>p_refcnt := 1, p_data := 1024 + packet_buf_off\<rparr>"
  have ok: "free_ok (\<lambda>x. set (sim_free x)) (one_packet_world 1 [])"
    by (simp add: free_ok_def one_packet_defs)
  have "pool_obj 0 1024 (one_packet_world 1 []) \<and> pkts (one_packet_world 1 []) 1024 = Some ?pkt \<and> 0 < p_refcnt ?pkt
      \<and> buf_live ?pkt (one_packet_world 1 [])"
    by (simp add: one_packet_pool_obj) (simp add: one_packet_defs blank_packet_def buf_live_def)
  then show ?thesis
    using pool_invariant[OF sim_mempool_laws ok, where tid = 0 and prof = Debug] ok by blast
qed

section \<open>A fresh pool\<close>

text \<open>The header of an object names the pool it was created for.\<close>

definition create_laws :: "'x dpdk_api \<Rightarrow> bool" where
  "create_laws api \<longleftrightarrow> (\<forall>nm n e c pd s x mp objs x'. rte_mempool_create api nm n e c pd s x = (Some (mp, objs), x') \<longrightarrow>
     (\<forall>(obj, h, junk)\<in>set objs. oh_mp h = mp))"

definition fresh_obj :: "ptr \<Rightarrow> 'x world \<Rightarrow> ptr \<Rightarrow> bool" where
  "fresh_obj mp w p \<longleftrightarrow> (\<exists>h pkt. objhdrs w p = Some h \<and> oh_mp h = mp \<and> idle w p = Some pkt
     \<and> p_refcnt pkt = 1 \<and> p_next pkt = None)"

lemma add_objects_Cons:
  "add_objects f ((obj, h, junk) # objs) w =
     add_objects f objs (f obj (w\<lparr>objhdrs := (objhdrs w)(obj \<mapsto> h), idle := (idle w)(obj \<mapsto> junk)\<rparr>))"
  by (simp add: add_objects_def)

lemma add_objects_fresh:
  assumes "\<forall>(obj, h, junk)\<in>set objs. oh_mp h = mp"
  shows "fresh_obj mp w p \<or> p \<in> fst ` set objs \<Longrightarrow> fresh_obj mp (add_objects packet_init objs w) p"
  using assms
proof (induction objs arbitrary: w)
  case Nil
  then show ?case by (simp add: add_objects_def)
next
  case (Cons t objs)
  obtain obj h junk where t: "t = (obj, h, junk)" by (metis prod.exhaust)
  let ?w = "packet_init obj (w\<lparr>objhdrs := (objhdrs w)(obj \<mapsto> h), idle := (idle w)(obj \<mapsto> junk)\<rparr>)"
  have "fresh_obj mp ?w p \<or> p \<in> fst ` set objs"
    using Cons.prems t by (auto simp: fresh_obj_def packet_init_def)
  then show ?case unfolding t add_objects_Cons using Cons.IH[of ?w] Cons.prems(2) by auto
qed

lemma packet_init_frame [simp]: "ext (packet_init obj w) = ext w"
  by (simp add: packet_init_def split: option.split)

lemma add_objects_frame [simp]:
  "mempools (add_objects packet_init objs w) = mempools w"
  "privs (add_objects packet_init objs w) = privs w"
  "slots (add_objects packet_init objs w) = slots w"
proof (induction objs arbitrary: w)
  case (Cons t objs)
  obtain obj h junk where t: "t = (obj, h, junk)" by (metis prod.exhaust)
  { case 1 then show ?case unfolding t add_objects_Cons Cons by (simp add: packet_init_def)
  next
    case 2 then show ?case unfolding t add_objects_Cons Cons by (simp add: packet_init_def)
  next
    case 3 then show ?case unfolding t add_objects_Cons Cons by (simp add: packet_init_def)
  }
qed (simp_all add: add_objects_def)


definition sim_fresh :: "sim world" where
  "sim_fresh = sim_world (sim_init\<lparr>sim_pool := Some (7, [(4096, \<lparr>oh_mp = 7, oh_iova = 0\<rparr>, blank_packet)])\<rparr>)"


end
