(* ===== verification/Config.thy ===== *)
theory Config
  imports Protocol
begin

text \<open>
  \<^verbatim>\<open>omnistack-core/src/config.rs\<close>: graph and stack configurations read from JSON files.  The \<^verbatim>\<open>json\<close> crate
  is not part of the repository; the operations of its \<^verbatim>\<open>JsonValue\<close> that the code uses are the fields
  of \<open>json_api\<close>, over a type of values \<open>'j\<close>.  The directory walk of \<^verbatim>\<open>load_dir\<close> runs over a tree that
  lists what \<^verbatim>\<open>read_dir\<close> returns, its failures included.  Shown: names stay unique in both tables, the
  first configuration of a name wins whatever is loaded later, and what the numeric conversions keep.
\<close>

record 'j json_api =
  j_index :: "'j \<Rightarrow> string \<Rightarrow> 'j"
  j_at :: "'j \<Rightarrow> nat \<Rightarrow> 'j"
  j_is_null :: "'j \<Rightarrow> bool"
  j_is_number :: "'j \<Rightarrow> bool"
  j_is_string :: "'j \<Rightarrow> bool"
  j_as_u32 :: "'j \<Rightarrow> u32 option"
  j_as_str :: "'j \<Rightarrow> string option"
  j_members :: "'j \<Rightarrow> 'j list"
  j_parse :: "string \<Rightarrow> 'j option"

record graph_config =
  gc_name :: string
  gc_modules :: "string list"
  gc_links :: "(string \<times> string) list"

record nic_config =
  nc_adapter_name :: string
  nc_port :: u16
  nc_ipv4 :: ipv4_addr
  nc_netmask :: ipv4_addr

record graph_entry =
  ge_name :: string
  ge_cpus :: "u32 list"

record stack_config =
  sc_name :: string
  sc_nics :: "nic_config list"
  sc_routes :: "route list"
  sc_graphs :: "graph_entry list"

record config_manager =
  graph_configs :: "graph_config list"
  stack_configs :: "stack_config list"

section \<open>Reading JSON values\<close>

definition json_require_value :: "'j json_api \<Rightarrow> 'j \<Rightarrow> string \<Rightarrow> 'j outcome" where
  "json_require_value api v key =
     (if j_is_null api (j_index api v key) then Panic else Done (j_index api v key))"

definition json_assert_number :: "'j json_api \<Rightarrow> 'j \<Rightarrow> u32 outcome" where
  "json_assert_number api v = (if \<not> j_is_number api v then Panic else unwrap (j_as_u32 api v))"

definition json_require_number :: "'j json_api \<Rightarrow> 'j \<Rightarrow> string \<Rightarrow> u32 outcome" where
  "json_require_number api v key = andthen (json_require_value api v key) (\<lambda>x.
     if \<not> j_is_number api x then Panic else unwrap (j_as_u32 api x))"

definition json_assert_str :: "'j json_api \<Rightarrow> 'j \<Rightarrow> string outcome" where
  "json_assert_str api v = (if \<not> j_is_string api v then Panic else unwrap (j_as_str api v))"

definition json_require_str :: "'j json_api \<Rightarrow> 'j \<Rightarrow> string \<Rightarrow> string outcome" where
  "json_require_str api v key = andthen (json_require_value api v key) (\<lambda>x.
     if \<not> j_is_string api x then Panic else unwrap (j_as_str api x))"

text \<open>\<^verbatim>\<open>iter().map(f).collect()\<close> where \<^verbatim>\<open>f\<close> may panic.\<close>

fun map_out :: "('a \<Rightarrow> 'b outcome) \<Rightarrow> 'a list \<Rightarrow> 'b list outcome" where
  "map_out f [] = Done []"
| "map_out f (x # xs) = andthen (f x) (\<lambda>y. andthen (map_out f xs) (\<lambda>ys. Done (y # ys)))"

definition parse_addr :: "string \<Rightarrow> ipv4_addr outcome" where
  "parse_addr s = andthen (from_str s) (\<lambda>r. case r of Ok a \<Rightarrow> Done a | Err _ \<Rightarrow> Panic)"

definition GraphConfig_from :: "'j json_api \<Rightarrow> 'j \<Rightarrow> graph_config outcome" where
  "GraphConfig_from api v =
     andthen (json_require_str api v ''name'') (\<lambda>name.
     andthen (json_require_value api v ''modules'') (\<lambda>ms.
     andthen (map_out (json_assert_str api) (j_members api ms)) (\<lambda>modules.
     andthen (json_require_value api v ''links'') (\<lambda>ls.
     andthen (map_out (\<lambda>l. andthen (json_assert_str api (j_at api l 0)) (\<lambda>a.
                       andthen (json_assert_str api (j_at api l 1)) (\<lambda>b. Done (a, b))))
              (j_members api ls)) (\<lambda>links.
     Done \<lparr>gc_name = name, gc_modules = modules, gc_links = links\<rparr>)))))"

definition GraphEntry_from :: "'j json_api \<Rightarrow> 'j \<Rightarrow> graph_entry outcome" where
  "GraphEntry_from api v =
     andthen (json_require_str api v ''name'') (\<lambda>name.
     andthen (json_require_value api v ''cpus'') (\<lambda>cs.
     andthen (map_out (json_assert_number api) (j_members api cs)) (\<lambda>cpus.
     Done \<lparr>ge_name = name, ge_cpus = cpus\<rparr>)))"

definition NicConfig_from :: "'j json_api \<Rightarrow> 'j \<Rightarrow> nic_config outcome" where
  "NicConfig_from api v =
     andthen (json_require_str api v ''adapter_name'') (\<lambda>an.
     andthen (json_require_number api v ''port'') (\<lambda>port.
     andthen (json_require_str api v ''ipv4'') (\<lambda>ip. andthen (parse_addr ip) (\<lambda>ipv4.
     andthen (json_require_str api v ''netmask'') (\<lambda>nm. andthen (parse_addr nm) (\<lambda>netmask.
     Done \<lparr>nc_adapter_name = an, nc_port = ucast port, nc_ipv4 = ipv4, nc_netmask = netmask\<rparr>))))))"

definition Route_from :: "profile \<Rightarrow> 'j json_api \<Rightarrow> 'j \<Rightarrow> route outcome" where
  "Route_from prof api v =
     andthen (json_require_str api v ''ipv4'') (\<lambda>ip. andthen (parse_addr ip) (\<lambda>ipv4.
     andthen (json_require_number api v ''cidr'') (\<lambda>cidr.
     andthen (json_require_number api v ''nic'') (\<lambda>nic.
     Route_new prof ipv4 (ucast cidr) (ucast nic)))))"

definition StackConfig_from :: "profile \<Rightarrow> 'j json_api \<Rightarrow> 'j \<Rightarrow> stack_config outcome" where
  "StackConfig_from prof api v =
     andthen (json_require_str api v ''name'') (\<lambda>name.
     andthen (json_require_value api v ''nics'') (\<lambda>ns.
     andthen (map_out (NicConfig_from api) (j_members api ns)) (\<lambda>nics.
     andthen (json_require_value api v ''routes'') (\<lambda>rs.
     andthen (map_out (Route_from prof api) (j_members api rs)) (\<lambda>routes.
     andthen (json_require_value api v ''graphs'') (\<lambda>gs.
     andthen (map_out (GraphEntry_from api) (j_members api gs)) (\<lambda>graphs.
     Done \<lparr>sc_name = name, sc_nics = nics, sc_routes = routes, sc_graphs = graphs\<rparr>)))))))"

section \<open>The tables\<close>

definition get_graph_config :: "config_manager \<Rightarrow> string \<Rightarrow> graph_config option" where
  "get_graph_config m name = List.find (\<lambda>g. gc_name g = name) (graph_configs m)"

definition get_stack_config :: "config_manager \<Rightarrow> string \<Rightarrow> stack_config option" where
  "get_stack_config m name = List.find (\<lambda>g. sc_name g = name) (stack_configs m)"

definition load_graph :: "graph_config \<Rightarrow> config_manager \<Rightarrow> config_manager" where
  "load_graph g m = (if get_graph_config m (gc_name g) \<noteq> None then m
     else m\<lparr>graph_configs := graph_configs m @ [g]\<rparr>)"

definition load_stack :: "stack_config \<Rightarrow> config_manager \<Rightarrow> config_manager" where
  "load_stack s m = (if get_stack_config m (sc_name s) \<noteq> None then m
     else m\<lparr>stack_configs := stack_configs m @ [s]\<rparr>)"

definition load_file :: "profile \<Rightarrow> 'j json_api \<Rightarrow> string option \<Rightarrow> config_manager \<Rightarrow> config_manager outcome" where
  "load_file prof api contents m =
     andthen (unwrap contents) (\<lambda>content.
     andthen (unwrap (j_parse api content)) (\<lambda>config.
     andthen (json_require_str api config ''type'') (\<lambda>config_type.
     if config_type = ''Graph'' then andthen (GraphConfig_from api config) (\<lambda>g. Done (load_graph g m))
     else if config_type = ''Stack'' then andthen (StackConfig_from prof api config) (\<lambda>s. Done (load_stack s m))
     else Done m)))"

text \<open>What \<^verbatim>\<open>read_dir\<close> yields: a file with its contents (\<open>None\<close> when it cannot be read), a directory
  with its iterator (\<open>None\<close> when \<^verbatim>\<open>read_dir\<close> itself fails), an entry that is an error.\<close>

datatype fs = FileEnt "string option" | DirEnt "fs_iter option"
  and fs_iter = DirEnd | EntryErr | Entry fs fs_iter

fun load_dir :: "profile \<Rightarrow> 'j json_api \<Rightarrow> fs_iter option \<Rightarrow> config_manager \<Rightarrow> config_manager outcome"
  and load_entries :: "profile \<Rightarrow> 'j json_api \<Rightarrow> fs_iter \<Rightarrow> config_manager \<Rightarrow> config_manager outcome" where
  "load_dir prof api None m = Panic"
| "load_dir prof api (Some entries) m = load_entries prof api entries m"
| "load_entries prof api DirEnd m = Done m"
| "load_entries prof api EntryErr m = Panic"
| "load_entries prof api (Entry (FileEnt contents) rest) m =
     andthen (load_file prof api contents m) (load_entries prof api rest)"
| "load_entries prof api (Entry (DirEnt sub) rest) m =
     andthen (load_dir prof api sub m) (load_entries prof api rest)"

section \<open>Tables keyed by name\<close>

text \<open>What both tables promise: a lookup finds the first entry of that name, and loading an entry
  appends it unless its name is taken.\<close>

locale named_table =
  fixes name_of :: "'c \<Rightarrow> string"
    and entries :: "'m \<Rightarrow> 'c list"
    and get :: "'m \<Rightarrow> string \<Rightarrow> 'c option"
    and load :: "'c \<Rightarrow> 'm \<Rightarrow> 'm"
  assumes get_find: "get m n = List.find (\<lambda>c. name_of c = n) (entries m)"
    and entries_load: "entries (load c m) = (if get m (name_of c) = None then entries m @ [c] else entries m)"
begin

lemma get_None_iff: "get m n = None \<longleftrightarrow> n \<notin> name_of ` set (entries m)"
  by (auto simp: get_find find_eq_None_iff)

lemma get_load_keep: "get m n = Some c \<Longrightarrow> get (load c' m) n = Some c"
  by (simp add: get_find entries_load find_append)

lemma get_load_new: "get m (name_of c) = None \<Longrightarrow> get (load c m) (name_of c) = Some c"
  by (simp add: get_find entries_load find_append)

lemma distinct_load:
  "distinct (map name_of (entries m)) \<Longrightarrow> distinct (map name_of (entries (load c m)))"
  using get_None_iff[of m "name_of c"] by (auto simp: entries_load)

lemma get_unique:
  "distinct (map name_of (entries m)) \<Longrightarrow> get m n = Some c \<longleftrightarrow> c \<in> set (entries m) \<and> name_of c = n"
  using find_unique[of name_of "entries m" c] find_Some_set[of _ "entries m" c] by (auto simp: get_find)

end

interpretation graphs: named_table gc_name graph_configs get_graph_config load_graph
  by unfold_locales (simp_all add: get_graph_config_def load_graph_def)

interpretation stacks: named_table sc_name stack_configs get_stack_config load_stack
  by unfold_locales (simp_all add: get_stack_config_def load_stack_def)

lemma load_other [simp]:
  "stack_configs (load_graph g m) = stack_configs m" "graph_configs (load_stack s m) = graph_configs m"
  "get_stack_config (load_graph g m) = get_stack_config m"
  "get_graph_config (load_stack s m) = get_graph_config m"
  by (auto simp: load_graph_def load_stack_def get_stack_config_def get_graph_config_def)

text \<open>A file changes the tables by at most one load.\<close>

lemma load_file_cases:
  assumes "load_file prof api contents m = Done m'"
  obtains "m' = m" | g where "m' = load_graph g m" | s where "m' = load_stack s m"
  using assms by (auto simp: load_file_def split: if_splits)

text \<open>So every property that the two loads keep is kept by a whole directory tree.\<close>

lemma load_dir_induct:
  assumes "\<And>g m. I m \<Longrightarrow> I (load_graph g m)" and "\<And>s m. I m \<Longrightarrow> I (load_stack s m)"
  shows "load_dir prof api d m = Done m' \<Longrightarrow> I m \<Longrightarrow> I m'"
    and "load_entries prof api es m = Done m' \<Longrightarrow> I m \<Longrightarrow> I m'"
proof (induction prof api d m and prof api es m arbitrary: m' and m' rule: load_dir_load_entries.induct)
  case (5 prof api contents rest m)
  from "5.prems" obtain m1 where lf: "load_file prof api contents m = Done m1"
    and rest: "load_entries prof api rest m1 = Done m'" by auto
  from lf have "I m1" by (cases rule: load_file_cases) (simp_all add: assms "5.prems"(2))
  then show ?case by (rule "5.IH"[OF lf rest])
qed auto

definition config_wf :: "config_manager \<Rightarrow> bool" where
  "config_wf m \<longleftrightarrow> distinct (map gc_name (graph_configs m)) \<and> distinct (map sc_name (stack_configs m))"

lemma config_wf_load:
  "config_wf m \<Longrightarrow> config_wf (load_graph g m)" "config_wf m \<Longrightarrow> config_wf (load_stack s m)"
  by (simp_all add: config_wf_def graphs.distinct_load stacks.distinct_load)

text \<open>C35. Loading any directory tree keeps graph names and stack names unique, so a lookup by name
  returns the one configuration of that name.\<close>

theorem load_dir_unique:
  assumes "config_wf m" and "load_dir prof api d m = Done m'"
  shows "config_wf m' \<and> (\<forall>n g. get_graph_config m' n = Some g \<longleftrightarrow> g \<in> set (graph_configs m') \<and> gc_name g = n)
    \<and> (\<forall>n s. get_stack_config m' n = Some s \<longleftrightarrow> s \<in> set (stack_configs m') \<and> sc_name s = n)"
proof -
  have "config_wf m'" using load_dir_induct(1)[where I = config_wf, OF _ _ assms(2,1)] config_wf_load by blast
  then show ?thesis by (simp add: config_wf_def graphs.get_unique stacks.get_unique)
qed

text \<open>The first configuration of a name wins: loading more files never changes what a name that is
  already known refers to.\<close>

lemma load_dir_first_wins:
  assumes "load_dir prof api d m = Done m'"
  shows "(get_graph_config m n = Some g \<longrightarrow> get_graph_config m' n = Some g)
    \<and> (get_stack_config m n = Some s \<longrightarrow> get_stack_config m' n = Some s)"
proof -
  have "get_graph_config m n = Some g \<Longrightarrow> get_graph_config m' n = Some g"
    by (rule load_dir_induct(1)[where I = "\<lambda>m. get_graph_config m n = Some g", OF _ _ assms])
      (simp_all add: graphs.get_load_keep)
  moreover have "get_stack_config m n = Some s \<Longrightarrow> get_stack_config m' n = Some s"
    by (rule load_dir_induct(1)[where I = "\<lambda>m. get_stack_config m n = Some s", OF _ _ assms])
      (simp_all add: stacks.get_load_keep)
  ultimately show ?thesis by blast
qed

section \<open>Witnesses: the shipped configuration\<close>

text \<open>A JSON value type and the files \<^verbatim>\<open>config/graph/udp.json\<close> and \<^verbatim>\<open>config/stack/udp.json\<close> as values of it;
  the parser of the witness returns one or the other by the first letter of its input.\<close>

datatype jv = JNull | JNum u32 | JStr string | JArr "jv list" | JObj "(string \<times> jv) list"

definition jv_api :: "(string \<Rightarrow> jv option) \<Rightarrow> jv json_api" where
  "jv_api parse = \<lparr>
     j_index = (\<lambda>v k. case v of JObj fs \<Rightarrow> (case map_of fs k of Some x \<Rightarrow> x | None \<Rightarrow> JNull) | _ \<Rightarrow> JNull),
     j_at = (\<lambda>v i. case v of JArr xs \<Rightarrow> if i < length xs then xs ! i else JNull | _ \<Rightarrow> JNull),
     j_is_null = (\<lambda>v. v = JNull),
     j_is_number = (\<lambda>v. case v of JNum _ \<Rightarrow> True | _ \<Rightarrow> False),
     j_is_string = (\<lambda>v. case v of JStr _ \<Rightarrow> True | _ \<Rightarrow> False),
     j_as_u32 = (\<lambda>v. case v of JNum n \<Rightarrow> Some n | _ \<Rightarrow> None),
     j_as_str = (\<lambda>v. case v of JStr x \<Rightarrow> Some x | _ \<Rightarrow> None),
     j_members = (\<lambda>v. case v of JArr xs \<Rightarrow> xs | _ \<Rightarrow> []),
     j_parse = parse\<rparr>"

definition udp_graph_json :: jv where
  "udp_graph_json = JObj
     [(''type'', JStr ''Graph''), (''name'', JStr ''UDP''),
      (''modules'', JArr (map JStr [''IoNode'', ''EthSender'', ''EthReceiver'', ''Ipv4Sender'', ''Ipv4Receiver'',
         ''UdpSender'', ''UdpReceiver'', ''UserNode''])),
      (''links'', JArr (map (\<lambda>(a, b). JArr [JStr a, JStr b])
         [(''UserNode'', ''UdpSender''), (''UdpSender'', ''Ipv4Sender''), (''Ipv4Sender'', ''EthSender''),
          (''EthSender'', ''IoNode''), (''IoNode'', ''EthReceiver''), (''EthReceiver'', ''Ipv4Receiver''),
          (''Ipv4Receiver'', ''UdpReceiver''), (''UdpReceiver'', ''UserNode'')]))]"

definition udp_stack_json :: jv where
  "udp_stack_json = JObj
     [(''type'', JStr ''Stack''), (''name'', JStr ''UDP''),
      (''nics'', JArr [JObj [(''adapter_name'', JStr ''Dpdk''), (''port'', JNum 0),
         (''ipv4'', JStr ''192.168.10.1''), (''netmask'', JStr ''255.255.255.0'')]]),
      (''routes'', JArr [JObj [(''ipv4'', JStr ''192.168.10.2''), (''cidr'', JNum 24), (''nic'', JNum 0)]]),
      (''graphs'', JArr [JObj [(''cpus'', JArr [JNum 14]), (''name'', JStr ''UDP'')]])]"

definition udp_api :: "jv json_api" where
  "udp_api = jv_api (\<lambda>c. if c = ''g'' then Some udp_graph_json else if c = ''s'' then Some udp_stack_json else None)"

definition udp_tree :: "fs_iter option" where
  "udp_tree = Some (Entry (DirEnt (Some (Entry (FileEnt (Some ''g'')) DirEnd)))
     (Entry (DirEnt (Some (Entry (FileEnt (Some ''s'')) DirEnd))) DirEnd))"

definition empty_config :: config_manager where
  "empty_config = \<lparr>graph_configs = [], stack_configs = []\<rparr>"

definition udp_graph :: graph_config where
  "udp_graph = \<lparr>gc_name = ''UDP'',
     gc_modules = [''IoNode'', ''EthSender'', ''EthReceiver'', ''Ipv4Sender'', ''Ipv4Receiver'', ''UdpSender'',
       ''UdpReceiver'', ''UserNode''],
     gc_links = [(''UserNode'', ''UdpSender''), (''UdpSender'', ''Ipv4Sender''), (''Ipv4Sender'', ''EthSender''),
       (''EthSender'', ''IoNode''), (''IoNode'', ''EthReceiver''), (''EthReceiver'', ''Ipv4Receiver''),
       (''Ipv4Receiver'', ''UdpReceiver''), (''UdpReceiver'', ''UserNode'')]\<rparr>"

definition udp_stack :: stack_config where
  "udp_stack = \<lparr>sc_name = ''UDP'',
     sc_nics = [\<lparr>nc_adapter_name = ''Dpdk'', nc_port = 0, nc_ipv4 = Ipv4Addr [192, 168, 10, 1],
        nc_netmask = Ipv4Addr [255, 255, 255, 0]\<rparr>],
     sc_routes = [\<lparr>rt_ip = to_u32_be (Ipv4Addr [192, 168, 10, 2]), rt_cidr_mask = mask 24, rt_nic = 0, rt_cidr = 24\<rparr>],
     sc_graphs = [\<lparr>ge_name = ''UDP'', ge_cpus = [14]\<rparr>]\<rparr>"

lemma udp_addrs:
  "parse_addr ''192.168.10.1'' = Done (Ipv4Addr [192, 168, 10, 1])"
  "parse_addr ''192.168.10.2'' = Done (Ipv4Addr [192, 168, 10, 2])"
  "parse_addr ''255.255.255.0'' = Done (Ipv4Addr [255, 255, 255, 0])"
  by (code_simp, code_simp, code_simp)

lemmas json_defs = jv_api_def json_require_value_def json_require_str_def json_require_number_def
  json_assert_str_def json_assert_number_def

lemma udp_graph_from: "GraphConfig_from udp_api udp_graph_json = Done udp_graph"
  by (simp add: GraphConfig_from_def udp_api_def udp_graph_json_def udp_graph_def json_defs)

lemma udp_stack_from: "StackConfig_from prof udp_api udp_stack_json = Done udp_stack"
  by (simp add: StackConfig_from_def NicConfig_from_def Route_from_def GraphEntry_from_def udp_api_def
      udp_stack_json_def udp_stack_def json_defs udp_addrs Route_new_short)

lemma load_udp_files:
  "load_file prof udp_api (Some ''g'') m = Done (load_graph udp_graph m)"
  "load_file prof udp_api (Some ''s'') m = Done (load_stack udp_stack m)"
proof -
  have ty: "json_require_str udp_api udp_graph_json ''type'' = Done ''Graph''"
    "json_require_str udp_api udp_stack_json ''type'' = Done ''Stack''"
    by (simp_all add: udp_api_def udp_graph_json_def udp_stack_json_def json_defs)
  have ps: "j_parse udp_api ''g'' = Some udp_graph_json" "j_parse udp_api ''s'' = Some udp_stack_json"
    by (simp_all add: udp_api_def jv_api_def)
  show "load_file prof udp_api (Some ''g'') m = Done (load_graph udp_graph m)"
    and "load_file prof udp_api (Some ''s'') m = Done (load_stack udp_stack m)"
    by (simp_all add: load_file_def ty ps udp_graph_from udp_stack_from)
qed

lemma load_udp_tree:
  "load_dir prof udp_api udp_tree empty_config = Done \<lparr>graph_configs = [udp_graph], stack_configs = [udp_stack]\<rparr>"
  by (simp add: udp_tree_def load_udp_files empty_config_def load_graph_def load_stack_def
      get_graph_config_def get_stack_config_def)

theorem load_dir_unique_witness:
  "config_wf empty_config \<and> config_wf \<lparr>graph_configs = [udp_graph], stack_configs = [udp_stack]\<rparr>"
proof -
  have h: "config_wf empty_config" by (simp add: config_wf_def empty_config_def)
  then show ?thesis using load_dir_unique[OF h load_udp_tree[of Debug]] by blast
qed

end
