(* ===== verification/Registry.thy ===== *)
theory Registry
  imports Machine
begin

text \<open>
  The two factories: \<^verbatim>\<open>module.rs\<close> keeps the builders of the modules and \<^verbatim>\<open>nio.rs\<close> those of the adapters, both
  in a hash map filled by static constructors that the derive macros of \<^verbatim>\<open>omnistack-proc\<close> emit, in an
  order nobody fixes.  The locale \<open>factory\<close> is what both promise; in it the outcome is shown not to
  depend on that order when the names differ.  A builder is represented by the object it makes.
\<close>

type_synonym 'b builders = "string \<rightharpoonup> 'b"

text \<open>\<^verbatim>\<open>module::register\<close>; the flag says that the warning about a second registration is printed.\<close>

definition module_register :: "string \<Rightarrow> 'b \<Rightarrow> 'b builders \<Rightarrow> 'b builders \<times> bool" where
  "module_register nm b fac = (fac(nm \<mapsto> b), fac nm \<noteq> None)"

definition build_module :: "'b builders \<Rightarrow> string \<Rightarrow> 'b outcome" where
  "build_module fac nm = unwrap (fac nm)"

text \<open>\<^verbatim>\<open>nio::register\<close> and the lookup in \<^verbatim>\<open>IoNode::init\<close>.\<close>

definition adapter_register :: "string \<Rightarrow> 'b \<Rightarrow> 'b builders \<Rightarrow> 'b builders \<times> bool" where
  "adapter_register nm b fac = (fac(nm \<mapsto> b), fac nm \<noteq> None)"

definition build_adapter :: "'b builders \<Rightarrow> string \<Rightarrow> 'b outcome" where
  "build_adapter fac nm = unwrap (fac nm)"

locale factory =
  fixes reg :: "string \<Rightarrow> 'b \<Rightarrow> 's \<Rightarrow> 's \<times> bool" and build :: "'s \<Rightarrow> string \<Rightarrow> 'b outcome"
  assumes build_same: "build (fst (reg nm b s)) nm = Done b"
    and build_other: "nm' \<noteq> nm \<Longrightarrow> build (fst (reg nm b s)) nm' = build s nm'"
    and warns: "snd (reg nm b s) \<longleftrightarrow> build s nm \<noteq> Panic"
begin

lemma build_fold:
  "build (fold (\<lambda>(nm, b) s. fst (reg nm b s)) regs s) nm =
     (case map_of (rev regs) nm of Some b \<Rightarrow> Done b | None \<Rightarrow> build s nm)"
proof (induction regs arbitrary: s)
  case (Cons r regs)
  obtain nm' b where "r = (nm', b)" by fastforce
  then show ?case using Cons by (cases "nm = nm'") (auto simp: map_add_def build_same build_other split: option.splits)
qed simp

lemma build_any_order:
  assumes "distinct (map fst regs)" and "distinct (map fst regs')" and "set regs' = set regs"
  shows "build (fold (\<lambda>(nm, b) s. fst (reg nm b s)) regs s) nm = build (fold (\<lambda>(nm, b) s. fst (reg nm b s)) regs' s) nm"
proof -
  have "map_of (rev regs) = map_of (rev regs')"
    using assms by (subst map_of_inject_set) (simp_all flip: rev_map)
  then show ?thesis by (simp add: build_fold)
qed

end

interpretation modules: factory module_register build_module
  by unfold_locales (auto simp: module_register_def build_module_def unwrap_def split: option.splits)

interpretation adapters: factory adapter_register build_adapter
  by unfold_locales (auto simp: adapter_register_def build_adapter_def unwrap_def split: option.splits)

text \<open>The registrations the static constructors make, run in a given order.\<close>

definition register_modules :: "(string \<times> 'b) list \<Rightarrow> 'b builders" where
  "register_modules regs = fold (\<lambda>(nm, b) fac. fst (module_register nm b fac)) regs Map.empty"

text \<open>The order in which the static constructors run does not matter: with pairwise different names
  every order of registration gives a factory that builds, for each registered name, its own module,
  and panics for every other name.\<close>

lemma registration_order:
  assumes "distinct (map fst regs)" and "distinct (map fst regs')" and "set regs' = set regs"
  shows "build_module (register_modules regs') nm = (case map_of regs nm of Some b \<Rightarrow> Done b | None \<Rightarrow> Panic)"
proof -
  have "map_of (rev regs) = map_of regs" using assms(1) by (subst map_of_inject_set) (simp_all flip: rev_map)
  then show ?thesis
    using modules.build_any_order[OF assms, of Map.empty nm] modules.build_fold[of regs Map.empty nm]
    by (simp add: register_modules_def build_module_def split: option.splits)
qed

end
