(* ===== verification/Nio.thy ===== *)
theory Nio
  imports Packet Config Registry
begin

text \<open>
  \<^verbatim>\<open>omnistack-core/src/nio.rs\<close>: the network adapters' trait as the record \<open>adapter_ops\<close> and the \<^verbatim>\<open>IoNode\<close>
  module.  The node remembers in a queue of NIC numbers and a bit set which adapters have packets to
  flush; both are accessed unchecked.  \<open>io_inv\<close> ties them together.  The locale \<open>adapter_laws\<close> is what
  the node relies on from its adapters; in it the polling of the node is shown to be safe and to flush
  every adapter that was sent to.
\<close>

section \<open>The adapter trait\<close>

record ('a, 'x) adapter_ops =
  ad_init :: "Context \<Rightarrow> u16 \<Rightarrow> u16 \<Rightarrow> u16 \<Rightarrow> u16 \<Rightarrow> 'a \<Rightarrow> 'x world \<Rightarrow> (('a \<times> 'x world) \<times> (mac_addr, error) result) outcome"
  ad_start :: "'a \<Rightarrow> 'x world \<Rightarrow> ('x world \<times> (unit, error) result) outcome"
  ad_send :: "Context \<Rightarrow> ptr \<Rightarrow> 'a \<Rightarrow> 'x world \<Rightarrow> (('a \<times> 'x world) \<times> (unit, error) result) outcome"
  ad_recv :: "Context \<Rightarrow> 'a \<Rightarrow> 'x world \<Rightarrow> (('a \<times> 'x world) \<times> (ptr, error) result) outcome"
  ad_flush :: "Context \<Rightarrow> 'a \<Rightarrow> 'x world \<Rightarrow> (('a \<times> 'x world) \<times> (unit, error) result) outcome"
  ad_stop :: "Context \<Rightarrow> 'a \<Rightarrow> 'x world \<Rightarrow> 'x world outcome"

definition NUM_ADAPTER_MAX :: nat where "NUM_ADAPTER_MAX = 16"

record 'a io_node =
  flush_queue :: "u8 list"
  flush_flag :: usize
  flush_queue_idx :: nat
  io_adapters :: "'a list"
  nic_to_mac :: "mac_addr list"

definition IoNode_new :: "'a io_node" where
  "IoNode_new = \<lparr>flush_queue = replicate NUM_ADAPTER_MAX 0, flush_flag = 0, flush_queue_idx = 0, io_adapters = [],
     nic_to_mac = replicate NUM_ADAPTER_MAX MacAddr_new\<rparr>"

section \<open>The node\<close>

fun IoNode_init_loop :: "'a builders \<Rightarrow> ('a, 'x) adapter_ops \<Rightarrow> Context \<Rightarrow> u16 \<Rightarrow> u16 \<Rightarrow> nat \<Rightarrow> nic_config list
    \<Rightarrow> 'a io_node \<Rightarrow> 'x world \<Rightarrow> ('a io_node \<times> 'x world) outcome" where
  "IoNode_init_loop fac aops ctx num_queues queue_id i [] io w = Done (io, w)"
| "IoNode_init_loop fac aops ctx num_queues queue_id i (nic # nics) io w =
     andthen (build_adapter fac (nc_adapter_name nic)) (\<lambda>a.
     andthen (ad_init aops ctx (of_nat i) (nc_port nic) num_queues queue_id a w) (\<lambda>((a1, w1), r).
     case r of Err e \<Rightarrow> Panic
     | Ok mac \<Rightarrow>
       if i < NUM_ADAPTER_MAX \<and> length (io_adapters io) < NUM_ADAPTER_MAX
       then IoNode_init_loop fac aops ctx num_queues queue_id (Suc i) nics
         (io\<lparr>nic_to_mac := (nic_to_mac io)[i := mac], io_adapters := io_adapters io @ [a1]\<rparr>) w1
       else Panic))"

definition IoNode_init :: "config_manager \<Rightarrow> 'a builders \<Rightarrow> ('a, 'x) adapter_ops \<Rightarrow> Context \<Rightarrow> 'a io_node \<Rightarrow> 'x world
    \<Rightarrow> (('a io_node \<times> 'x world) \<times> (unit, error) result) outcome" where
  "IoNode_init cfg fac aops ctx io w =
     andthen (unwrap (get_stack_config cfg (ctx_stack_name ctx))) (\<lambda>sc.
     if length (sc_graphs sc) \<le> unat (ctx_graph_id ctx) then Panic
     else let num_queues = of_nat (length (ge_cpus (sc_graphs sc ! unat (ctx_graph_id ctx))));
              queue_id = next_queue w
       in andthen (IoNode_init_loop fac aops ctx num_queues queue_id 0 (sc_nics sc) io
            (w\<lparr>next_queue := queue_id + 1\<rparr>)) (\<lambda>s. Done (s, Ok ())))"

text \<open>The end of \<^verbatim>\<open>process\<close>: remember that the adapter has something to flush.\<close>

definition IoNode_mark :: "profile \<Rightarrow> nat \<Rightarrow> 'a io_node \<Rightarrow> 'a io_node outcome" where
  "IoNode_mark prof nic io =
     andthen (shl_chk prof 1 nic) (\<lambda>msk.
     if flush_flag io AND msk = 0
     then (if length (flush_queue io) \<le> flush_queue_idx io then Undef
           else Done (io\<lparr>flush_queue := (flush_queue io)[flush_queue_idx io := of_nat nic],
             flush_flag := flush_flag io OR msk, flush_queue_idx := flush_queue_idx io + 1\<rparr>))
     else Done io)"

definition IoNode_process :: "profile \<Rightarrow> ('a, 'x) adapter_ops \<Rightarrow> Context \<Rightarrow> ptr \<Rightarrow> 'a io_node \<Rightarrow> 'x world
    \<Rightarrow> (('a io_node \<times> 'x world) \<times> (unit, error) result) outcome" where
  "IoNode_process prof aops ctx p io w =
     andthen (deref_pkt p w) (\<lambda>pkt.
     let nic = unat (p_nic pkt) in
     andthen (get_l2_header size_EthHeader pkt w) (\<lambda>a.
     if length (nic_to_mac io) \<le> nic then Undef
     else let w1 = w\<lparr>bytes := write_eth a ((read_eth a (bytes w))\<lparr>eth_src := nic_to_mac io ! nic\<rparr>) (bytes w)\<rparr> in
     if length (io_adapters io) \<le> nic then Undef
     else andthen (ad_send aops ctx p (io_adapters io ! nic) w1) (\<lambda>((ad, w2), r).
       let io1 = io\<lparr>io_adapters := (io_adapters io)[nic := ad]\<rparr> in
       case r of Err e \<Rightarrow> Done ((io1, w2), Err e)
       | Ok _ \<Rightarrow>
         andthen (IoNode_mark prof nic io1) (\<lambda>io2. Done ((io2, w2), Err Dropped)))))"

text \<open>The number of the NIC comes from the route table of the configuration and is not checked: a route that names a NIC the stack
  does not have makes \<^verbatim>\<open>process\<close> read outside the adapters.\<close>

lemma io_missing_nic:
  assumes "pkts w p = Some pkt" and "get_l2_header size_EthHeader pkt w = Done a" and "length (io_adapters io) \<le> unat (p_nic pkt)"
  shows "IoNode_process prof aops ctx p io w = Undef"
  using assms by (simp add: IoNode_process_def Let_def)

text \<open>The \<^verbatim>\<open>while\<close> loop of \<^verbatim>\<open>poll\<close>, counting \<^verbatim>\<open>flush_queue_idx\<close> down.  The literal in
  \<^verbatim>\<open>(1 << nic_to_flush) as usize\<close> is an \<^verbatim>\<open>i32\<close>.\<close>

fun IoNode_flush_loop :: "nat \<Rightarrow> profile \<Rightarrow> ('a, 'x) adapter_ops \<Rightarrow> Context \<Rightarrow> 'a io_node \<Rightarrow> 'x world
    \<Rightarrow> (('a io_node \<times> 'x world) \<times> (unit, error) result) outcome" where
  "IoNode_flush_loop 0 prof aops ctx io w = Done ((io, w), Ok ())"
| "IoNode_flush_loop (Suc n) prof aops ctx io w =
     (if length (flush_queue io) \<le> n then Undef
      else let nic = flush_queue io ! n in
        andthen (shl_chk prof (1 :: 32 word) (unat nic)) (\<lambda>msk.
        let io1 = io\<lparr>flush_queue_idx := n, flush_flag := flush_flag io XOR scast msk\<rparr> in
        if length (io_adapters io1) \<le> unat nic then Undef
        else andthen (ad_flush aops ctx (io_adapters io1 ! unat nic) w) (\<lambda>((ad, w1), r).
          let io2 = io1\<lparr>io_adapters := (io_adapters io1)[unat nic := ad]\<rparr> in
          case r of Ok _ \<Rightarrow> IoNode_flush_loop n prof aops ctx io2 w1
          | Err e \<Rightarrow> Done ((io2, w1), Err e))))"

fun IoNode_recv_loop :: "nat \<Rightarrow> ('a, 'x) adapter_ops \<Rightarrow> Context \<Rightarrow> 'a list \<Rightarrow> 'a io_node \<Rightarrow> 'x world
    \<Rightarrow> (('a io_node \<times> 'x world) \<times> (ptr, error) result) outcome" where
  "IoNode_recv_loop i aops ctx [] io w = Done ((io, w), Err Nop)"
| "IoNode_recv_loop i aops ctx (a # as) io w =
     andthen (ad_recv aops ctx a w) (\<lambda>((ad, w1), r).
     let io1 = io\<lparr>io_adapters := (io_adapters io)[i := ad]\<rparr> in
     if r = Err Nop then IoNode_recv_loop (Suc i) aops ctx as io1 w1 else Done ((io1, w1), r))"

definition IoNode_poll :: "profile \<Rightarrow> ('a, 'x) adapter_ops \<Rightarrow> Context \<Rightarrow> 'a io_node \<Rightarrow> 'x world
    \<Rightarrow> (('a io_node \<times> 'x world) \<times> (ptr, error) result) outcome" where
  "IoNode_poll prof aops ctx io w =
     qmark (IoNode_flush_loop (flush_queue_idx io) prof aops ctx io w) (\<lambda>(io1, w1) _.
     IoNode_recv_loop 0 aops ctx (io_adapters io1) io1 w1)"

fun IoNode_destroy_loop :: "('a, 'x) adapter_ops \<Rightarrow> Context \<Rightarrow> 'a list \<Rightarrow> 'x world \<Rightarrow> ('a list \<times> 'x world) outcome" where
  "IoNode_destroy_loop aops ctx [] w = Done ([], w)"
| "IoNode_destroy_loop aops ctx (a # as) w =
     andthen (ad_flush aops ctx a w) (\<lambda>((a1, w1), r).
     andthen (ad_stop aops ctx a1 w1) (\<lambda>w2.
     andthen (IoNode_destroy_loop aops ctx as w2) (\<lambda>(as1, w3). Done (a1 # as1, w3))))"

definition IoNode_destroy :: "('a, 'x) adapter_ops \<Rightarrow> Context \<Rightarrow> 'a io_node \<Rightarrow> 'x world \<Rightarrow> ('a io_node \<times> 'x world) outcome" where
  "IoNode_destroy aops ctx io w =
     andthen (IoNode_destroy_loop aops ctx (io_adapters io) w) (\<lambda>(as, w1). Done (io\<lparr>io_adapters := as\<rparr>, w1))"

section \<open>The flush queue\<close>

definition queued :: "'a io_node \<Rightarrow> u8 list" where
  "queued io = take (flush_queue_idx io) (flush_queue io)"

definition io_inv :: "'a io_node \<Rightarrow> bool" where
  "io_inv io \<longleftrightarrow> length (flush_queue io) = NUM_ADAPTER_MAX \<and> flush_queue_idx io \<le> NUM_ADAPTER_MAX
     \<and> length (nic_to_mac io) = NUM_ADAPTER_MAX \<and> (\<forall>mac\<in>set (nic_to_mac io). length (raw mac) = 6)
     \<and> length (io_adapters io) \<le> NUM_ADAPTER_MAX
     \<and> distinct (queued io) \<and> (\<forall>n\<in>set (queued io). unat n < length (io_adapters io))
     \<and> (\<forall>i. bit (flush_flag io) i \<longleftrightarrow> i \<in> unat ` set (queued io))"

lemma bit_one_shift: "bit (2 ^ n :: 'w::len word) i \<longleftrightarrow> i = n \<and> i < LENGTH('w)"
  by (auto simp: bit_simps)

lemma scast_one_shift: "n < 31 \<Longrightarrow> (scast (2 ^ n :: 32 word) :: usize) = 2 ^ n"
  by (rule bit_word_eqI) (auto simp: bit_simps min_def)

lemma raw_MacAddr_new [simp]: "length (raw MacAddr_new) = 6"
  by (simp add: MacAddr_new_def MacAddr_from_bytes_def)

lemma NUM_ADAPTER_MAX_eq [simp]: "NUM_ADAPTER_MAX = 16"
  by (simp add: NUM_ADAPTER_MAX_def)

lemma queued_length: "io_inv io \<Longrightarrow> length (queued io) = flush_queue_idx io"
  by (auto simp: io_inv_def queued_def)

lemma queued_room:
  assumes inv: "io_inv io" and nic: "nic < length (io_adapters io)" "nic \<notin> unat ` set (queued io)"
  shows "flush_queue_idx io < NUM_ADAPTER_MAX"
proof -
  let ?q = "unat ` set (queued io)"
  have "card ?q = length (queued io)"
    using inv by (subst card_image) (auto simp: io_inv_def inj_on_def word_unat_eq_iff distinct_card)
  moreover have "?q \<subseteq> {..<NUM_ADAPTER_MAX} - {nic}" "nic < NUM_ADAPTER_MAX"
    using inv nic by (auto simp: io_inv_def)
  then have "card ?q \<le> card ({..<NUM_ADAPTER_MAX} - {nic})" "card ({..<NUM_ADAPTER_MAX} - {nic}) = NUM_ADAPTER_MAX - 1"
    by (meson card_mono finite_Diff finite_lessThan) (use \<open>nic < NUM_ADAPTER_MAX\<close> in \<open>subst card_Diff_singleton, auto\<close>)
  ultimately show ?thesis using queued_length[OF inv] by simp
qed

lemma mark_spec:
  assumes inv: "io_inv io" and nic: "nic < length (io_adapters io)"
  shows "\<exists>io'. IoNode_mark prof nic io = Done io' \<and> io_inv io' \<and> io_adapters io' = io_adapters io
    \<and> unat ` set (queued io') = insert nic (unat ` set (queued io))
    \<and> map unat (queued io') = map unat (queued io) @ (if nic \<in> unat ` set (queued io) then [] else [nic])"
proof -
  have n16: "nic < 16" using inv nic by (simp add: io_inv_def)
  have shl: "shl_chk prof (1 :: usize) nic = Done (2 ^ nic)" using n16 by (simp add: shl_chk_fits push_bit_eq_mult)
  have un: "unat (of_nat nic :: u8) = nic" using n16 by (intro unat_of_nat_small) simp
  have bt: "bit (flush_flag io) nic \<longleftrightarrow> nic \<in> unat ` set (queued io)" using inv by (simp add: io_inv_def)
  show ?thesis
  proof (cases "bit (flush_flag io) nic")
    case True
    then show ?thesis using shl n16 bt inv by (auto simp: IoNode_mark_def and_exp_eq_0_iff_not_bit)
  next
    case False
    then have nq: "nic \<notin> unat ` set (queued io)" using bt by simp
    note room = queued_room[OF inv nic nq]
    let ?io = "io\<lparr>flush_queue := (flush_queue io)[flush_queue_idx io := of_nat nic],
      flush_flag := flush_flag io OR 2 ^ nic, flush_queue_idx := flush_queue_idx io + 1\<rparr>"
    have q: "queued ?io = queued io @ [of_nat nic]"
      using inv room by (simp add: queued_def io_inv_def take_Suc_conv_app_nth)
    have "IoNode_mark prof nic io = Done ?io"
      using shl n16 False inv room by (simp add: IoNode_mark_def and_exp_eq_0_iff_not_bit io_inv_def)
    moreover have "of_nat nic \<notin> set (queued io)" using nq un by (metis image_eqI)
    then have "io_inv ?io"
      using inv room nic un n16 unfolding io_inv_def q by (auto simp: bit_or_iff bit_one_shift)
    ultimately show ?thesis using q un nq by auto
  qed
qed

text \<open>Marking an adapter for the next flush never leaves the queue of 16 entries, in both profiles: the
  adapter's number is in the queue afterwards, the others stay, nothing is queued twice, and the bit
  set still describes the queue.\<close>

lemma io_mark:
  assumes inv: "io_inv io" and nic: "nic < length (io_adapters io)"
  shows "\<exists>io'. IoNode_mark prof nic io = Done io' \<and> io_inv io' \<and> io_adapters io' = io_adapters io
    \<and> unat ` set (queued io') = insert nic (unat ` set (queued io))"
  using mark_spec[OF assms] by blast

text \<open>\<open>io_sent prof aops ctx io w ns io' w'\<close>: from \<open>io\<close> the node has processed packets for the NICs \<open>ns\<close>, in this order.\<close>

inductive io_sent :: "profile \<Rightarrow> ('a, 'x) adapter_ops \<Rightarrow> Context \<Rightarrow> 'a io_node \<Rightarrow> 'x world \<Rightarrow> nat list \<Rightarrow> 'a io_node \<Rightarrow> 'x world \<Rightarrow> bool"
  for prof aops ctx io w where
  sent_none: "io_sent prof aops ctx io w [] io w"
| sent_one: "io_sent prof aops ctx io w ns io1 w1 \<Longrightarrow> pkts w1 p = Some pkt \<Longrightarrow>
    IoNode_process prof aops ctx p io1 w1 = Done ((io2, w2), Err Dropped) \<Longrightarrow> io_sent prof aops ctx io w (ns @ [unat (p_nic pkt)]) io2 w2"

text \<open>\<^verbatim>\<open>Dropped\<close> is how the node says that it took the packet; an adapter does not return it.\<close>

definition send_takes :: "('a, 'x) adapter_ops \<Rightarrow> bool" where
  "send_takes aops \<longleftrightarrow> (\<forall>ctx p a w a' w'. ad_send aops ctx p a w \<noteq> Done ((a', w'), Err Dropped))"

lemma process_marks:
  assumes takes: "send_takes aops" and inv: "io_inv io" and pkt: "pkts w p = Some pkt"
    and pr: "IoNode_process prof aops ctx p io w = Done ((io', w'), Err Dropped)"
  shows "io_inv io' \<and> map unat (queued io') =
    map unat (queued io) @ (if unat (p_nic pkt) \<in> unat ` set (queued io) then [] else [unat (p_nic pkt)])"
proof -
  let ?n = "unat (p_nic pkt)"
  obtain a where a: "get_l2_header size_EthHeader pkt w = Done a" using pr pkt by (auto simp: IoNode_process_def Let_def)
  have nm: "\<not> length (nic_to_mac io) \<le> ?n" "\<not> length (io_adapters io) \<le> ?n"
    using pr pkt a by (auto simp: IoNode_process_def Let_def split: if_splits)
  let ?w1 = "w\<lparr>bytes := write_eth a ((read_eth a (bytes w))\<lparr>eth_src := nic_to_mac io ! ?n\<rparr>) (bytes w)\<rparr>"
  obtain ad w2 r where sd: "ad_send aops ctx p (io_adapters io ! ?n) ?w1 = Done ((ad, w2), r)"
    using pr pkt a nm by (cases "ad_send aops ctx p (io_adapters io ! ?n) ?w1") (auto simp: IoNode_process_def Let_def)
  have rs: "(case r of Err e \<Rightarrow> Done ((io\<lparr>io_adapters := (io_adapters io)[?n := ad]\<rparr>, w2), Err e)
      | Ok _ \<Rightarrow> andthen (IoNode_mark prof ?n (io\<lparr>io_adapters := (io_adapters io)[?n := ad]\<rparr>)) (\<lambda>io2. Done ((io2, w2), Err Dropped)))
      = Done ((io', w'), Err Dropped :: (unit, error) result)"
    using pr pkt a nm sd by (simp add: IoNode_process_def Let_def)
  have "r \<noteq> Err Dropped" using sd takes by (auto simp: send_takes_def)
  with rs have mk: "IoNode_mark prof ?n (io\<lparr>io_adapters := (io_adapters io)[?n := ad]\<rparr>) = Done io'" by (cases r) auto
  let ?io = "io\<lparr>io_adapters := (io_adapters io)[unat (p_nic pkt) := ad]\<rparr>"
  have q: "queued ?io = queued io" by (simp add: queued_def)
  have "io_inv ?io" "unat (p_nic pkt) < length (io_adapters ?io)" using inv nm by (simp_all add: io_inv_def q)
  from mark_spec[OF this, of prof] mk show ?thesis unfolding q by auto
qed

lemma io_sent_queue:
  assumes takes: "send_takes aops" and inv: "io_inv io" "flush_queue_idx io = 0"
    and sent: "io_sent prof aops ctx io w ns io1 w1"
  shows "io_inv io1 \<and> map unat (queued io1) = rev (remdups (rev ns))"
  using sent
proof (induction rule: io_sent.induct)
  case sent_none
  show ?case using inv by (simp add: queued_def)
next
  case (sent_one ns io1 w1 p pkt io2 w2)
  have "unat ` set (queued io1) = set ns"
    using arg_cong[OF conjunct2[OF sent_one.IH], of set] by simp
  then show ?case using process_marks[OF takes _ sent_one(2,3)] sent_one.IH by simp
qed

section \<open>Flushing\<close>

text \<open>What flushing a list of adapters amounts to, without the bookkeeping.\<close>

fun flush_seq :: "('a, 'x) adapter_ops \<Rightarrow> Context \<Rightarrow> nat list \<Rightarrow> 'a list \<Rightarrow> 'x world
    \<Rightarrow> (('a list \<times> 'x world) \<times> (unit, error) result) outcome" where
  "flush_seq aops ctx [] as w = Done ((as, w), Ok ())"
| "flush_seq aops ctx (n # ns) as w =
     (if length as \<le> n then Undef
      else andthen (ad_flush aops ctx (as ! n) w) (\<lambda>((a, w1), r).
        case r of Ok _ \<Rightarrow> flush_seq aops ctx ns (as[n := a]) w1 | Err e \<Rightarrow> Done ((as[n := a], w1), Err e)))"

definition io_view :: "(('a io_node \<times> 'x world) \<times> (unit, error) result) \<Rightarrow> (('a list \<times> 'x world) \<times> (unit, error) result)" where
  "io_view = (\<lambda>((io, w), r). ((io_adapters io, w), r))"

lemma io_inv_pop:
  assumes inv: "io_inv io" and n: "flush_queue_idx io = Suc n"
  defines "nic \<equiv> flush_queue io ! n"
  defines "io1 \<equiv> io\<lparr>flush_queue_idx := n, flush_flag := flush_flag io XOR 2 ^ unat nic\<rparr>"
  shows "queued io = queued io1 @ [nic] \<and> io_inv io1 \<and> unat nic < length (io_adapters io)"
proof -
  have q: "queued io = queued io1 @ [nic]"
    using inv n by (simp add: queued_def io1_def nic_def io_inv_def take_Suc_conv_app_nth)
  then have k: "unat nic < length (io_adapters io)" "unat nic < 64" and "nic \<notin> set (queued io1)"
    using inv by (auto simp: io_inv_def)
  then have k3: "unat nic \<notin> unat ` set (queued io1)" by (metis imageE word_unat_eq_iff)
  have "bit (flush_flag io1) i \<longleftrightarrow> i \<in> unat ` set (queued io1)" for i
  proof -
    have "bit (flush_flag io1) i \<longleftrightarrow> (i \<in> unat ` set (queued io)) \<noteq> (i = unat nic)"
      using inv k(2) unfolding io1_def io_inv_def by (auto simp: bit_xor_iff bit_one_shift)
    then show ?thesis using k3 unfolding q by auto
  qed
  then have "io_inv io1"
    using inv n q unfolding io_inv_def by (auto simp: io1_def)
  with q k show ?thesis by simp
qed

lemma flush_loop_ok:
  assumes "io_inv io" and "flush_queue_idx io = n"
  shows "map_outcome io_view (IoNode_flush_loop n prof aops ctx io w)
      = flush_seq aops ctx (map unat (rev (queued io))) (io_adapters io) w
    \<and> (\<forall>io' w' r. IoNode_flush_loop n prof aops ctx io w = Done ((io', w'), r) \<longrightarrow>
         io_inv io' \<and> length (io_adapters io') = length (io_adapters io) \<and> (r = Ok () \<longrightarrow> queued io' = [] \<and> flush_flag io' = 0))"
  using assms
proof (induction n arbitrary: io w)
  case 0
  then have "flush_flag io = 0" by (auto simp: io_inv_def queued_def bit_eq_iff)
  with 0 show ?case by (simp add: io_view_def queued_def)
next
  case (Suc n)
  let ?nic = "flush_queue io ! n"
  let ?io1 = "io\<lparr>flush_queue_idx := n, flush_flag := flush_flag io XOR 2 ^ unat ?nic\<rparr>"
  from io_inv_pop[OF Suc.prems] have q: "queued io = queued ?io1 @ [?nic]" and inv: "io_inv ?io1"
    and k: "unat ?nic < length (io_adapters io)" by auto
  have "unat ?nic < 16" using k Suc.prems(1) by (simp add: io_inv_def)
  then have shl: "shl_chk prof (1 :: 32 word) (unat ?nic) = Done (2 ^ unat ?nic)" "unat ?nic < 31"
    by (simp_all add: shl_chk_fits push_bit_eq_mult)
  have len: "n < length (flush_queue io)" using Suc.prems by (simp add: io_inv_def)
  show ?case
  proof (cases "ad_flush aops ctx (io_adapters io ! unat ?nic) w")
    case (Done x)
    obtain a w1 r where x: "x = ((a, w1), r)" by (metis prod.exhaust)
    let ?io2 = "?io1\<lparr>io_adapters := (io_adapters io)[unat ?nic := a]\<rparr>"
    have i2: "io_inv ?io2" "queued ?io2 = queued ?io1" using inv by (simp_all add: io_inv_def queued_def)
    from Suc.IH[OF i2(1), of w1] show ?thesis
      using Done x k shl len q i2
      by (cases r) (auto simp: io_view_def scast_one_shift Let_def)
  qed (use k shl len q in \<open>simp_all add: Let_def\<close>)
qed

text \<open>C13. The flush loop of \<^verbatim>\<open>poll\<close> flushes exactly the adapters that were sent to since the queue was last empty,
  each once, whatever the number and the order of the packets the node processed: the one first sent to comes last.  It
  stops at the first failure; it never reads outside the queue or the adapters, ends with an empty queue and a clear bit
  set, and keeps both consistent even when it stops early, so that the same holds of the next round.\<close>

theorem io_flush_loop:
  assumes "io_inv io" and "flush_queue_idx io = 0" and "send_takes aops" and "io_sent prof aops ctx io w ns io1 w1"
  shows "map_outcome io_view (IoNode_flush_loop (flush_queue_idx io1) prof aops ctx io1 w2)
      = flush_seq aops ctx (remdups (rev ns)) (io_adapters io1) w2
    \<and> (\<forall>io' w' r. IoNode_flush_loop (flush_queue_idx io1) prof aops ctx io1 w2 = Done ((io', w'), r) \<longrightarrow>
         io_inv io' \<and> (r = Ok () \<longrightarrow> flush_queue_idx io' = 0 \<and> flush_flag io' = 0))"
proof -
  note q = io_sent_queue[OF assms(3,1,2,4)]
  have "map unat (rev (queued io1)) = remdups (rev ns)" using q by (simp flip: rev_map)
  moreover have "flush_queue_idx io' = 0" if "io_inv io'" "queued io' = []" for io' :: "'a io_node"
    using that queued_length[OF that(1)] by simp
  ultimately show ?thesis using flush_loop_ok[OF conjunct1[OF q] refl, of prof aops ctx w2] by metis
qed

definition demo_io :: "nat io_node" where
  "demo_io = IoNode_new\<lparr>io_adapters := [10, 11]\<rparr>"

lemma demo_io_inv: "io_inv demo_io"
  by (simp add: io_inv_def demo_io_def IoNode_new_def queued_def)

definition demo_adapter :: "(nat, 'x) adapter_ops" where
  "demo_adapter = \<lparr>ad_init = (\<lambda>ctx nic port nq q a w. Done ((a, w), Ok MacAddr_new)), ad_start = (\<lambda>a w. Done (w, Ok ())),
     ad_send = (\<lambda>ctx p a w. Done ((a, w), Ok ())), ad_recv = (\<lambda>ctx a w. Done ((a, w), Err Nop)),
     ad_flush = (\<lambda>ctx a w. Done ((a + 100, w), Ok ())), ad_stop = (\<lambda>ctx a w. Done w)\<rparr>"

theorem io_flush_loop_witness:
  "\<forall>ctx. \<exists>io1 w1 io'. IoNode_process Debug demo_adapter ctx 1024 demo_io (set_pkt 1024 (blank_packet\<lparr>p_nic := 1\<rparr>) (sim_world sim_init))
        = Done ((io1, w1), Err Dropped)
    \<and> IoNode_flush_loop (flush_queue_idx io1) Debug demo_adapter ctx io1 w1 = Done ((io', w1), Ok ())
    \<and> io_adapters io' = [10, 111] \<and> flush_queue_idx io' = 0"
proof
  fix ctx
  let ?w = "set_pkt 1024 (blank_packet\<lparr>p_nic := 1\<rparr>) (sim_world sim_init)"
  have takes: "send_takes demo_adapter" by (simp add: send_takes_def demo_adapter_def)
  have q0: "flush_queue_idx demo_io = 0" by (simp add: demo_io_def IoNode_new_def)
  have pkt: "pkts ?w 1024 = Some (blank_packet\<lparr>p_nic := 1\<rparr>)" by simp
  obtain io1 w1 where pr: "IoNode_process Debug demo_adapter ctx 1024 demo_io ?w = Done ((io1, w1), Err Dropped)"
    and ad: "io_adapters io1 = [10, 11]"
    by (simp add: IoNode_process_def IoNode_mark_def demo_adapter_def demo_io_def IoNode_new_def view_defs header_at_def
        buf_extent_def blank_packet_def PACKET_BUF_SIZE_def MTU_def DEFAULT_OFFSET_def shl_chk_fits)
  have "io_sent Debug demo_adapter ctx demo_io ?w ([] @ [unat (p_nic (blank_packet\<lparr>p_nic := 1\<rparr>))]) io1 w1"
    by (rule sent_one[OF sent_none pkt pr])
  from io_flush_loop[OF demo_io_inv q0 takes this, of w1]
  have "map_outcome io_view (IoNode_flush_loop (flush_queue_idx io1) Debug demo_adapter ctx io1 w1) = Done (([10, 111], w1), Ok ())"
    and st: "\<forall>io' w' r. IoNode_flush_loop (flush_queue_idx io1) Debug demo_adapter ctx io1 w1 = Done ((io', w'), r) \<longrightarrow>
      (r = Ok () \<longrightarrow> flush_queue_idx io' = 0)"
    by (simp_all add: ad) (simp add: demo_adapter_def)
  then obtain io' where "IoNode_flush_loop (flush_queue_idx io1) Debug demo_adapter ctx io1 w1 = Done ((io', w1), Ok ())"
    "io_adapters io' = [10, 111]"
    by (cases "IoNode_flush_loop (flush_queue_idx io1) Debug demo_adapter ctx io1 w1") (auto simp: io_view_def)
  then show "\<exists>io1 w1 io'. IoNode_process Debug demo_adapter ctx 1024 demo_io ?w = Done ((io1, w1), Err Dropped)
    \<and> IoNode_flush_loop (flush_queue_idx io1) Debug demo_adapter ctx io1 w1 = Done ((io', w1), Ok ())
    \<and> io_adapters io' = [10, 111] \<and> flush_queue_idx io' = 0" using pr st by blast
qed

section \<open>Polling\<close>

text \<open>What the node relies on from its adapters: \<open>ok\<close> is their common invariant, \<open>got\<close> holds of a burst
  of received packets, given by its first one.\<close>

locale adapter_laws =
  fixes aops :: "('a, 'x) adapter_ops" and ctx :: Context
    and ok :: "'a list \<Rightarrow> 'x world \<Rightarrow> bool" and got :: "'a list \<Rightarrow> ptr \<Rightarrow> 'x world \<Rightarrow> bool"
  assumes flush_law: "ok as w \<Longrightarrow> i < length as \<Longrightarrow>
      \<exists>a w' r. ad_flush aops ctx (as ! i) w = Done ((a, w'), r) \<and> r \<noteq> Err Nop \<and> (r = Ok () \<longrightarrow> ok (as[i := a]) w')"
    and recv_law: "ok as w \<Longrightarrow> i < length as \<Longrightarrow>
      \<exists>a w' r. ad_recv aops ctx (as ! i) w = Done ((a, w'), r) \<and> (r = Err Nop \<longrightarrow> ok (as[i := a]) w')
        \<and> (\<forall>p. r = Ok p \<longrightarrow> ok (as[i := a]) w' \<and> got (as[i := a]) p w')"
begin

lemma flush_seq_total:
  assumes "ok as w" and "\<forall>n\<in>set ns. n < length as"
  shows "\<exists>as' w' r. flush_seq aops ctx ns as w = Done ((as', w'), r) \<and> r \<noteq> Err Nop \<and> length as' = length as
    \<and> (r = Ok () \<longrightarrow> ok as' w')"
  using assms
proof (induction ns arbitrary: as w)
  case (Cons n ns)
  from flush_law[OF Cons.prems(1), of n] Cons.prems(2) obtain a w' r where
    fl: "ad_flush aops ctx (as ! n) w = Done ((a, w'), r)" "r \<noteq> Err Nop" "r = Ok () \<Longrightarrow> ok (as[n := a]) w'" by auto
  show ?case
  proof (cases r)
    case (Ok u)
    with Cons.IH[of "as[n := a]" w'] fl Cons.prems(2) show ?thesis by auto
  next
    case (Err e)
    with fl Cons.prems(2) show ?thesis by auto
  qed
qed simp

lemma recv_loop_total:
  assumes "ok (io_adapters io) w" and "i \<le> length (io_adapters io)" and "as = drop i (io_adapters io)"
  shows "\<exists>io' w' r. IoNode_recv_loop i aops ctx as io w = Done ((io', w'), r)
    \<and> (\<exists>as'. io' = io\<lparr>io_adapters := as'\<rparr> \<and> length as' = length (io_adapters io))
    \<and> (r = Err Nop \<longrightarrow> ok (io_adapters io') w') \<and> (\<forall>p. r = Ok p \<longrightarrow> ok (io_adapters io') w' \<and> got (io_adapters io') p w')"
  using assms
proof (induction as arbitrary: i io w)
  case Nil
  then show ?case by (auto intro: exI[of _ "io_adapters io"])
next
  case (Cons a as)
  have i1: "i < length (io_adapters io)" using Cons.prems(3) by (metis drop_all list.distinct(1) not_le_imp_less)
  then have i: "i < length (io_adapters io)" "a = io_adapters io ! i" "as = drop (Suc i) (io_adapters io)"
    using Cons.prems(3) unfolding Cons_nth_drop_Suc[OF i1, symmetric] by simp_all
  from recv_law[OF Cons.prems(1) i(1)] obtain ad w1 r where
    rc: "ad_recv aops ctx a w = Done ((ad, w1), r)" "r = Err Nop \<Longrightarrow> ok ((io_adapters io)[i := ad]) w1"
    "\<And>p. r = Ok p \<Longrightarrow> ok ((io_adapters io)[i := ad]) w1 \<and> got ((io_adapters io)[i := ad]) p w1" using i(2) by auto
  let ?io = "io\<lparr>io_adapters := (io_adapters io)[i := ad]\<rparr>"
  show ?case
  proof (cases "r = Err Nop")
    case True
    have "as = drop (Suc i) (io_adapters ?io)" using i(3) by simp
    with Cons.IH[of ?io w1 "Suc i"] True rc i(1) show ?thesis by (auto simp: Let_def)
  next
    case False
    with rc show ?thesis by (auto simp: Let_def)
  qed
qed

lemma poll_total:
  assumes inv: "io_inv io" and ok: "ok (io_adapters io) w"
  shows "\<exists>io' w' r. IoNode_poll prof aops ctx io w = Done ((io', w'), r) \<and> io_inv io'
    \<and> length (io_adapters io') = length (io_adapters io)
    \<and> (r = Err Nop \<longrightarrow> ok (io_adapters io') w' \<and> queued io' = [])
    \<and> (\<forall>p. r = Ok p \<longrightarrow> ok (io_adapters io') w' \<and> got (io_adapters io') p w' \<and> queued io' = [])"
proof -
  note fl = flush_loop_ok[OF inv refl, of prof aops ctx w]
  have "\<forall>n\<in>set (map unat (rev (queued io))). n < length (io_adapters io)" using inv by (auto simp: io_inv_def)
  from flush_seq_total[OF ok this] obtain as' w1 r where
    sq: "flush_seq aops ctx (map unat (rev (queued io))) (io_adapters io) w = Done ((as', w1), r)" "r \<noteq> Err Nop"
      "r = Ok () \<Longrightarrow> ok as' w1" "length as' = length (io_adapters io)" by blast
  from fl sq(1) obtain io1 where lp: "IoNode_flush_loop (flush_queue_idx io) prof aops ctx io w = Done ((io1, w1), r)"
    and as': "as' = io_adapters io1"
    by (cases "IoNode_flush_loop (flush_queue_idx io) prof aops ctx io w") (auto simp: io_view_def)
  from fl lp have i1: "io_inv io1" "r = Ok () \<Longrightarrow> queued io1 = []" by auto
  show ?thesis
  proof (cases r)
    case (Ok u)
    then have "ok (io_adapters io1) w1" using sq(3) as' by simp
    from recv_loop_total[OF this, of 0] obtain io' w' r' as2 where
      rl: "IoNode_recv_loop 0 aops ctx (io_adapters io1) io1 w1 = Done ((io', w'), r')"
      and io': "io' = io1\<lparr>io_adapters := as2\<rparr>" "length as2 = length (io_adapters io1)"
      and post: "r' = Err Nop \<longrightarrow> ok (io_adapters io') w'" "\<forall>p. r' = Ok p \<longrightarrow> ok (io_adapters io') w' \<and> got (io_adapters io') p w'" by fastforce
    have "io_inv io'" "queued io' = []" using i1 io' Ok by (auto simp: io_inv_def queued_def)
    then show ?thesis using lp Ok rl post io' sq(4) as' by (auto simp: IoNode_poll_def)
  next
    case (Err e)
    then show ?thesis using lp sq(2,4) as' i1(1) by (simp add: IoNode_poll_def)
  qed
qed

end

end
