(* ===== verification/Dpdk.thy ===== *)
theory Dpdk
  imports Nio
begin

text \<open>
  \<^verbatim>\<open>omnistack-core/src/modules/dpdk.rs\<close>: the DPDK adapter.  Its configuration calls are the fields of
  \<open>port_api\<close>, its data-path calls those of \<open>dpdk_api\<close>.  An mbuf that was handed to the NIC no longer belongs to
  the program: \<open>tx_loop\<close> removes it from \<open>mbufs\<close>, so that touching it again is undefined.  The loop
  of \<^verbatim>\<open>flush\<close> runs until the NIC has taken everything, which DPDK does not promise; it takes fuel.

  \<open>nic_laws\<close> states what DPDK documents of bursts and mbuf allocation.  Under it the adapter is shown to
  send every queued frame once and in order, to keep its invariant \<open>dpdk_ok\<close>, and to hand received
  frames on in arrival order; it is the interpretation of the \<open>adapter_laws\<close> of the I/O node.
\<close>

section \<open>Constants and state\<close>

definition RX_RING_SIZE :: u16 where "RX_RING_SIZE = 2048"
definition TX_RING_SIZE :: u16 where "TX_RING_SIZE = 2048"
definition DPDK_BURST_SIZE :: nat where "DPDK_BURST_SIZE = 64"
definition MBUF_CACHE_SIZE :: u32 where "MBUF_CACHE_SIZE = 256"
definition NB_MBUFS :: u32 where "NB_MBUFS = push_bit 16 1"
definition MAX_FRAME_SIZE :: nat where "MAX_FRAME_SIZE = unat MTU + size_EthHeader"

definition MBUF_SIZE :: "nat \<Rightarrow> nat" where
  "MBUF_SIZE headroom = (unat MTU + size_EthHeader + headroom + 64 - 1) div 64 * 64"

definition DEFAULT_RSS_KEY :: "u8 list" where
  "DEFAULT_RSS_KEY = [
     0xd1, 0x81, 0xc6, 0x2c, 0xf7, 0xf4, 0xdb, 0x5b, 0x19, 0x83, 0xa2, 0xfc, 0x94, 0x3e, 0x1a, 0xdb,
     0xd9, 0x38, 0x9e, 0x6b, 0xd1, 0x03, 0x9c, 0x2c, 0xa7, 0x44, 0x99, 0xad, 0x59, 0x3d, 0x56, 0xd9,
     0xf3, 0x25, 0x3c, 0x06, 0x2a, 0xdc, 0x1f, 0xfc]"

record dpdk =
  tx_bufs :: "ptr list"
  rx_bufs :: "ptr list"
  tx_idx :: nat
  d_port :: u16
  d_queue :: u16
  d_nic :: u16
  pktmbuf_pool :: ptr

definition Dpdk_new :: dpdk where
  "Dpdk_new = \<lparr>tx_bufs = replicate DPDK_BURST_SIZE 0, rx_bufs = replicate DPDK_BURST_SIZE 0, tx_idx = 0,
     d_port = 0, d_queue = 0, d_nic = 0, pktmbuf_pool = 0\<rparr>"

section \<open>Configuring a port\<close>

record eth_conf =
  ec_rx_mq_mode :: u32
  ec_rx_mtu :: u32
  ec_rx_max_lro :: u32
  ec_rx_offloads :: u64
  ec_tx_mq_mode :: u32
  ec_tx_offloads :: u64
  ec_rss_key :: "u8 list"
  ec_rss_hf :: u64

text \<open>The fields of \<^verbatim>\<open>rte_eth_dev_info\<close> the code reads: the capabilities and the offloads and remaining
  settings of the default queue configurations.\<close>

record ('r, 't) dev_info =
  di_rx_offload_capa :: u64
  di_tx_offload_capa :: u64
  di_default_rxconf :: 'r
  di_default_txconf :: 't

record ('r, 't, 'x) port_api =
  c_mq_rx_rss :: u32
  c_mq_tx_none :: u32
  c_rx_offload_rss_hash :: u64
  c_rx_offload_checksum :: u64
  c_tx_offloads :: "u64 list"
  c_rss_hf :: "u64 list"
  c_headroom :: nat
  rte_eth_dev_is_valid_port :: "u16 \<Rightarrow> 'x \<Rightarrow> bool"
  rte_eth_dev_info_get :: "u16 \<Rightarrow> 'x \<Rightarrow> ('r, 't) dev_info option"
  rte_eth_dev_adjust_nb_rx_tx_desc :: "u16 \<Rightarrow> u16 \<Rightarrow> u16 \<Rightarrow> 'x \<Rightarrow> (u16 \<times> u16) option \<times> 'x"
  rte_eth_dev_configure :: "u16 \<Rightarrow> u16 \<Rightarrow> u16 \<Rightarrow> eth_conf \<Rightarrow> 'x \<Rightarrow> bool \<times> 'x"
  rte_flow_flush :: "u16 \<Rightarrow> 'x \<Rightarrow> bool \<times> 'x"
  rte_socket_id :: "'x \<Rightarrow> u32"
  rte_eth_dev_socket_id :: "u16 \<Rightarrow> 'x \<Rightarrow> u32"
  rte_pktmbuf_pool_create :: "string \<Rightarrow> u32 \<Rightarrow> u32 \<Rightarrow> u16 \<Rightarrow> u16 \<Rightarrow> u32 \<Rightarrow> 'x \<Rightarrow> ptr \<times> 'x"
  rte_eth_rx_queue_setup :: "u16 \<Rightarrow> u16 \<Rightarrow> u16 \<Rightarrow> u32 \<Rightarrow> 'r \<Rightarrow> u64 \<Rightarrow> ptr \<Rightarrow> 'x \<Rightarrow> bool \<times> 'x"
  rte_eth_tx_queue_setup :: "u16 \<Rightarrow> u16 \<Rightarrow> u16 \<Rightarrow> u32 \<Rightarrow> 't \<Rightarrow> u64 \<Rightarrow> 'x \<Rightarrow> bool \<times> 'x"
  rte_eth_dev_start :: "u16 \<Rightarrow> 'x \<Rightarrow> bool \<times> 'x"
  rte_eth_promiscuous_enable :: "u16 \<Rightarrow> 'x \<Rightarrow> bool \<times> 'x"

text \<open>\<^verbatim>\<open>default_port_conf\<close>; \<open>c_tx_offloads\<close> and \<open>c_rss_hf\<close> are the constants or-ed together there.\<close>

definition default_port_conf :: "('r, 't, 'x) port_api \<Rightarrow> eth_conf" where
  "default_port_conf pa = \<lparr>ec_rx_mq_mode = c_mq_rx_rss pa, ec_rx_mtu = ucast MTU, ec_rx_max_lro = of_nat MAX_FRAME_SIZE,
     ec_rx_offloads = c_rx_offload_rss_hash pa OR c_rx_offload_checksum pa, ec_tx_mq_mode = c_mq_tx_none pa,
     ec_tx_offloads = fold (OR) (c_tx_offloads pa) 0, ec_rss_key = DEFAULT_RSS_KEY, ec_rss_hf = fold (OR) (c_rss_hf pa) 0\<rparr>"

definition default_rx_conf :: "('r, 't, 'x) port_api \<Rightarrow> u16 \<Rightarrow> 'x \<Rightarrow> ('r \<times> u64) outcome" where
  "default_rx_conf pa port x = (case rte_eth_dev_info_get pa port x of None \<Rightarrow> Panic
     | Some di \<Rightarrow> Done (di_default_rxconf di, ec_rx_offloads (default_port_conf pa) AND di_rx_offload_capa di))"

definition default_tx_conf :: "('r, 't, 'x) port_api \<Rightarrow> u16 \<Rightarrow> 'x \<Rightarrow> ('t \<times> u64) outcome" where
  "default_tx_conf pa port x = (case rte_eth_dev_info_get pa port x of None \<Rightarrow> Panic
     | Some di \<Rightarrow> Done (di_default_txconf di, ec_tx_offloads (default_port_conf pa) AND di_tx_offload_capa di))"

text \<open>A call that returns a status: anything but success is a panic.\<close>

definition must :: "bool \<times> 'x \<Rightarrow> ('x \<Rightarrow> 'y outcome) \<Rightarrow> 'y outcome" where
  "must r f = (if fst r then f (snd r) else Panic)"

fun setup_queues :: "('r, 't, 'x) port_api \<Rightarrow> u16 \<Rightarrow> u16 \<Rightarrow> u16 \<Rightarrow> u32 \<Rightarrow> ptr \<Rightarrow> nat list \<Rightarrow> 'x \<Rightarrow> 'x outcome" where
  "setup_queues pa port rx_desc tx_desc socket_id pool [] x = Done x"
| "setup_queues pa port rx_desc tx_desc socket_id pool (q # qs) x =
     andthen (default_rx_conf pa port x) (\<lambda>(rc, ro).
     must (rte_eth_rx_queue_setup pa port (of_nat q) rx_desc socket_id rc ro pool x) (\<lambda>x1.
     andthen (default_tx_conf pa port x1) (\<lambda>(tc, to).
     must (rte_eth_tx_queue_setup pa port (of_nat q) tx_desc socket_id tc to x1) (\<lambda>x2.
     setup_queues pa port rx_desc tx_desc socket_id pool qs x2))))"

definition pool_name :: "u16 \<Rightarrow> string" where
  "pool_name port = ''mbuf_pool_p'' @ show_dec (unat port)"

definition port_init :: "('r, 't, 'x) port_api \<Rightarrow> u16 \<Rightarrow> u16 \<Rightarrow> 'x \<Rightarrow> 'x outcome" where
  "port_init pa port num_queues x =
     (if \<not> rte_eth_dev_is_valid_port pa port x then Panic
      else case rte_eth_dev_info_get pa port x of None \<Rightarrow> Panic
      | Some di \<Rightarrow>
        let dflt = default_port_conf pa;
            conf = dflt\<lparr>ec_tx_offloads := ec_tx_offloads dflt AND di_tx_offload_capa di,
                       ec_rx_offloads := ec_rx_offloads dflt AND di_rx_offload_capa di\<rparr> in
        (case rte_eth_dev_adjust_nb_rx_tx_desc pa port RX_RING_SIZE TX_RING_SIZE x of
           (None, x1) \<Rightarrow> Panic
         | (Some (rx_desc, tx_desc), x1) \<Rightarrow>
           must (rte_eth_dev_configure pa port num_queues num_queues conf x1) (\<lambda>x2.
           must (rte_flow_flush pa port x2) (\<lambda>x3.
           let socket_id = rte_socket_id pa x3 in
           andthen (assert_that (socket_id = rte_eth_dev_socket_id pa port x3)) (\<lambda>_.
           let (pool, x4) = rte_pktmbuf_pool_create pa (pool_name port) NB_MBUFS MBUF_CACHE_SIZE 0
                 (of_nat (MBUF_SIZE (c_headroom pa))) socket_id x3 in
           andthen (setup_queues pa port rx_desc tx_desc socket_id pool [0..<unat num_queues] x4) (\<lambda>x5.
           must (rte_eth_dev_start pa port x5) (\<lambda>x6.
           must (rte_eth_promiscuous_enable pa port x6) Done)))))))"

text \<open>\<^verbatim>\<open>init\<close>.  \<^verbatim>\<open>INIT_ONCE\<close> is one for the whole process: the first call initialises its port, every later
  one, for whatever port, goes straight on.\<close>

definition Dpdk_init :: "'x dpdk_api \<Rightarrow> ('r, 't, 'x) port_api \<Rightarrow> Context \<Rightarrow> u16 \<Rightarrow> u16 \<Rightarrow> u16 \<Rightarrow> u16 \<Rightarrow> dpdk \<Rightarrow> 'x world
    \<Rightarrow> ((dpdk \<times> 'x world) \<times> (mac_addr, error) result) outcome" where
  "Dpdk_init api pa ctx nic port num_queues queue d w =
     andthen (if port_ready w then Done w
       else andthen (port_init pa port num_queues (ext w)) (\<lambda>x. Done (w\<lparr>ext := x, port_ready := True\<rparr>))) (\<lambda>w1.
     case rte_mempool_lookup api (pool_name port) (ext w1) of None \<Rightarrow> Panic
     | Some pool \<Rightarrow>
       let d1 = d\<lparr>d_nic := nic, d_port := port, d_queue := queue, pktmbuf_pool := pool\<rparr> in
       (case rte_pktmbuf_alloc_bulk api pool DPDK_BURST_SIZE (ext w1) of
          (None, x) \<Rightarrow> Done ((d1, w1\<lparr>ext := x\<rparr>), Err Unknown)
        | (Some bufs, x) \<Rightarrow>
          let w2 = w1\<lparr>ext := x, mbufs := mbufs w1 ++ map_of bufs\<rparr>; d2 = d1\<lparr>tx_bufs := map fst bufs\<rparr> in
          (case rte_eth_macaddr_get api port x of
             None \<Rightarrow> Done ((d2, w2), Err Unknown)
           | Some mac \<Rightarrow> Done ((d2, w2), Ok (MacAddr_from_bytes mac)))))"

lemma Dpdk_init_ready:
  assumes "Dpdk_init api pa ctx nic port num_queues queue d w = Done ((d1, w1), r)"
  shows "port_ready w1"
  using assms unfolding Dpdk_init_def Let_def andthen_eq_Done
  by (elim exE conjE) (auto split: if_splits option.splits prod.splits)

definition Dpdk_start :: "('r, 't, 'x) port_api \<Rightarrow> dpdk \<Rightarrow> 'x world \<Rightarrow> ('x world \<times> (unit, error) result) outcome" where
  "Dpdk_start pa d w =
     must (rte_eth_dev_start pa (d_port d) (ext w)) (\<lambda>x1.
     must (rte_eth_promiscuous_enable pa (d_port d) x1) (\<lambda>x2. Done (w\<lparr>ext := x2\<rparr>, Ok ())))"

section \<open>Sending\<close>

definition packet_free_callback :: "profile \<Rightarrow> 'x dpdk_api \<Rightarrow> ptr \<Rightarrow> 'x world \<Rightarrow> 'x world outcome" where
  "packet_free_callback prof api p w =
     andthen (deref_pkt p w) (\<lambda>pkt. PacketPool_deallocate prof api p (p_thread_id pkt) w)"

text \<open>The loop of \<^verbatim>\<open>flush\<close>: \<open>ms\<close> are the mbufs not yet taken, the slice \<^verbatim>\<open>pkts\<close> points to.  A count
  larger than what was offered would make \<^verbatim>\<open>tx_idx\<close> wrap around.\<close>

fun tx_loop :: "nat \<Rightarrow> profile \<Rightarrow> 'x dpdk_api \<Rightarrow> u16 \<Rightarrow> u16 \<Rightarrow> ptr list \<Rightarrow> 'x world \<Rightarrow> 'x world outcome" where
  "tx_loop fuel prof api port queue ms w =
     (if ms = [] then Done w
      else case fuel of 0 \<Rightarrow> Hang
      | Suc f \<Rightarrow>
        if \<exists>m\<in>set ms. mbufs w m = None then Undef
        else let (k, x) = rte_eth_tx_burst api port queue (map (\<lambda>m. (m, the (mbufs w m))) ms) (ext w) in
          if length ms < k then (if prof = Debug then Panic else Undef)
          else tx_loop f prof api port queue (drop k ms)
            (w\<lparr>ext := x, mbufs := mbufs w |` (- set (take k ms))\<rparr>))"

declare tx_loop.simps [simp del]

definition Dpdk_flush :: "nat \<Rightarrow> profile \<Rightarrow> 'x dpdk_api \<Rightarrow> Context \<Rightarrow> dpdk \<Rightarrow> 'x world
    \<Rightarrow> ((dpdk \<times> 'x world) \<times> (unit, error) result) outcome" where
  "Dpdk_flush fuel prof api ctx d w =
     (if tx_idx d = 0 then Done ((d, w), Ok ())
      else let sent = tx_idx d in
        andthen (tx_loop fuel prof api (d_port d) (d_queue d) (take sent (tx_bufs d)) w) (\<lambda>w1.
        let d1 = d\<lparr>tx_idx := 0\<rparr> in
        (case rte_pktmbuf_alloc_bulk api (pktmbuf_pool d) sent (ext w1) of
           (None, x) \<Rightarrow> Done ((d1, w1\<lparr>ext := x\<rparr>), Err (MemoryError Exhausted))
         | (Some bufs, x) \<Rightarrow>
           Done ((d1\<lparr>tx_bufs := map fst bufs @ drop sent (tx_bufs d)\<rparr>,
             w1\<lparr>ext := x, mbufs := mbufs w1 ++ map_of bufs\<rparr>), Ok ()))))"

text \<open>How \<^verbatim>\<open>send\<close> fills the mbuf: the packet's own buffer is attached as external data, the checksum
  offloads are requested and the pseudo-header sum is stored in the UDP header.  The mbuf's own buffer
  keeps the shared info that names the packet to free.\<close>

definition fill_mbuf :: "'x dpdk_api \<Rightarrow> ptr \<Rightarrow> packet \<Rightarrow> u16 \<Rightarrow> u64 \<Rightarrow> mbuf \<Rightarrow> mbuf" where
  "fill_mbuf api shinfo pkt pkt_len io m = m\<lparr>m_buf_addr := data_ptr pkt, m_buf_iova := io, m_buf_len := pkt_len,
     m_data_off := 0, m_ol_flags := m_ol_flags m OR f_external api, m_shinfo := Some shinfo, m_pkt_len := ucast pkt_len,
     m_data_len := pkt_len, m_l2_len := ucast (h_length (l2_header pkt)), m_l3_len := ucast (h_length (l3_header pkt))\<rparr>"

definition Dpdk_send :: "nat \<Rightarrow> profile \<Rightarrow> 'x dpdk_api \<Rightarrow> Context \<Rightarrow> ptr \<Rightarrow> dpdk \<Rightarrow> 'x world
    \<Rightarrow> ((dpdk \<times> 'x world) \<times> (unit, error) result) outcome" where
  "Dpdk_send fuel prof api ctx p d w =
     (if length (tx_bufs d) \<le> tx_idx d then Undef
      else let mp = tx_bufs d ! tx_idx d in
      case mbufs w mp of None \<Rightarrow> Undef
      | Some m \<Rightarrow>
        andthen (deref_pkt p w) (\<lambda>pkt0.
        let pkt = pkt0\<lparr>p_thread_id := ctx_thread_id ctx\<rparr>;
            sh = m_buf_addr m + unat (m_data_off m);
            w1 = (set_pkt p pkt w)\<lparr>shinfos := (shinfos w)(sh \<mapsto> \<lparr>fcb_opaque = p, sh_refcnt = 1\<rparr>)\<rparr> in
        andthen (packet_len prof pkt) (\<lambda>pkt_len.
        andthen (iova prof p w1) (\<lambda>io.
        let m1 = fill_mbuf api sh pkt pkt_len io m in
        andthen (get_l2_header size_EthHeader pkt w1) (\<lambda>ea.
        case ether_decode (eth_ether_ty (read_eth ea (bytes w1))) of None \<Rightarrow> Undef
        | Some EtIpv4 \<Rightarrow>
          let m2 = m1\<lparr>m_ol_flags := m_ol_flags m1 OR (f_tx_ip_cksum api OR f_tx_ipv4 api)\<rparr> in
          andthen (get_l3_header size_Ipv4Header pkt w1) (\<lambda>ia.
          let ih = read_ipv4 ia (bytes w1) in
          case proto_decode (ip_protocol ih) of None \<Rightarrow> Undef
          | Some UDP \<Rightarrow>
            let m3 = m2\<lparr>m_ol_flags := m_ol_flags m2 OR f_tx_udp_cksum api\<rparr> in
            andthen (get_l4_header size_UdpHeader pkt w1) (\<lambda>ua.
            let uh = (read_udp ua (bytes w1))\<lparr>udp_chksum := rte_ipv4_phdr_cksum api ih (m_ol_flags m3)\<rparr>;
                w2 = w1\<lparr>mbufs := (mbufs w1)(mp \<mapsto> m3), bytes := write_udp ua uh (bytes w1)\<rparr>;
                d1 = d\<lparr>tx_idx := tx_idx d + 1\<rparr> in
            if tx_idx d1 = DPDK_BURST_SIZE then Dpdk_flush fuel prof api ctx d1 w2 else Done ((d1, w2), Ok ()))
          | Some TCP \<Rightarrow> Panic)
        | Some _ \<Rightarrow> Panic)))))"

section \<open>Receiving\<close>

text \<open>The loop over the received mbufs, last one first: a packet is allocated for each and becomes the
  head of the chain.\<close>

fun rx_fill :: "profile \<Rightarrow> 'x dpdk_api \<Rightarrow> packet_pool \<Rightarrow> u16 \<Rightarrow> ptr list \<Rightarrow> ptr option \<Rightarrow> 'x world
    \<Rightarrow> ('x world \<times> (ptr option, memory_error) result) outcome" where
  "rx_fill prof api pool nic [] ret w = Done (w, Ok ret)"
| "rx_fill prof api pool nic (mp # mps) ret w =
     qmark (PacketPool_allocate api pool w) (\<lambda>w1 p.
     andthen (deref_pkt p w1) (\<lambda>pkt.
     case mbufs w1 mp of None \<Rightarrow> Undef
     | Some m \<Rightarrow>
       andthen (set_len prof (ucast (m_pkt_len m)) (pkt\<lparr>p_nic := nic, p_offset := m_data_off m\<rparr>)) (\<lambda>pkt1.
       rx_fill prof api pool nic mps (Some p)
         (set_pkt p (pkt1\<lparr>p_data := m_buf_addr m, p_next := ret, p_buf_ty := Mbuf mp\<rparr>) w1))))"

definition Dpdk_recv :: "profile \<Rightarrow> 'x dpdk_api \<Rightarrow> Context \<Rightarrow> dpdk \<Rightarrow> 'x world
    \<Rightarrow> ((dpdk \<times> 'x world) \<times> (ptr, error) result) outcome" where
  "Dpdk_recv prof api ctx d w =
     (let (items, x) = rte_eth_rx_burst api (d_port d) (d_queue d) DPDK_BURST_SIZE (ext w);
          d1 = d\<lparr>rx_bufs := map fst items @ drop (length items) (rx_bufs d)\<rparr>;
          w1 = w\<lparr>ext := x, mbufs := mbufs w ++ map_of items\<rparr> in
      if items = [] then Done ((d1, w1), Err Nop)
      else andthen (rx_fill prof api (ctx_pktpool ctx) (d_nic d) (rev (map fst items)) None w1) (\<lambda>(w2, r).
        case r of Err e \<Rightarrow> Done ((d1, w2), Err (MemoryError e))
        | Ok None \<Rightarrow> Undef
        | Ok (Some p) \<Rightarrow> Done ((d1, w2), Ok p)))"

definition Dpdk_stop :: "Context \<Rightarrow> dpdk \<Rightarrow> 'x world \<Rightarrow> 'x world outcome" where
  "Dpdk_stop ctx d w = Done w"

definition dpdk_ops :: "nat \<Rightarrow> profile \<Rightarrow> 'x dpdk_api \<Rightarrow> ('r, 't, 'x) port_api \<Rightarrow> (dpdk, 'x) adapter_ops" where
  "dpdk_ops fuel prof api pa = \<lparr>ad_init = Dpdk_init api pa, ad_start = Dpdk_start pa, ad_send = Dpdk_send fuel prof api,
     ad_recv = Dpdk_recv prof api, ad_flush = Dpdk_flush fuel prof api, ad_stop = Dpdk_stop\<rparr>"

section \<open>What DPDK promises of a NIC\<close>

text \<open>\<open>held x\<close> are the mbufs that belong to DPDK (free, queued for sending, waiting to be received) and
  \<open>wire x\<close> is what was accepted for sending, in order, with port and queue.  A burst takes a prefix of
  what it is offered; allocation and reception hand over mbufs that DPDK held.\<close>

type_synonym wire_item = "u16 \<times> u16 \<times> ptr \<times> mbuf"

definition nic_laws :: "'x dpdk_api \<Rightarrow> ('x \<Rightarrow> ptr set) \<Rightarrow> ('x \<Rightarrow> wire_item list) \<Rightarrow> bool" where
  "nic_laws api held wire \<longleftrightarrow>
     (\<forall>port q ps x k x'. rte_eth_tx_burst api port q ps x = (k, x') \<longrightarrow> k \<le> length ps \<and>
        wire x' = wire x @ map (\<lambda>pm. (port, q, pm)) (take k ps) \<and> held x' = held x \<union> fst ` set (take k ps)) \<and>
     (\<forall>mp n x bufs x'. rte_pktmbuf_alloc_bulk api mp n x = (Some bufs, x') \<longrightarrow> length bufs = n \<and>
        distinct (map fst bufs) \<and> fst ` set bufs \<subseteq> held x \<and> held x' = held x - fst ` set bufs \<and> wire x' = wire x) \<and>
     (\<forall>mp n x x'. rte_pktmbuf_alloc_bulk api mp n x = (None, x') \<longrightarrow> held x' = held x \<and> wire x' = wire x) \<and>
     (\<forall>port q n x items x'. rte_eth_rx_burst api port q n x = (items, x') \<longrightarrow> length items \<le> n \<and>
        distinct (map fst items) \<and> fst ` set items \<subseteq> held x \<and> held x' = held x - fst ` set items \<and> wire x' = wire x)"

text \<open>The NIC keeps accepting: a burst of at least one frame sends at least one.\<close>

definition nic_progress :: "'x dpdk_api \<Rightarrow> bool" where
  "nic_progress api \<longleftrightarrow> (\<forall>port q ps x. ps \<noteq> [] \<longrightarrow> 0 < fst (rte_eth_tx_burst api port q ps x))"

lemma tx_burst_law:
  assumes "nic_laws api held wire" and "rte_eth_tx_burst api port q ps x = (k, x')"
  shows "k \<le> length ps" and "wire x' = wire x @ map (\<lambda>pm. (port, q, pm)) (take k ps)" and "held x' = held x \<union> fst ` set (take k ps)"
  using assms(1)[unfolded nic_laws_def, THEN conjunct1, rule_format, OF assms(2)] by auto

lemma alloc_bulk_law:
  assumes "nic_laws api held wire"
  shows "rte_pktmbuf_alloc_bulk api mp n x = (Some bufs, x') \<Longrightarrow> length bufs = n \<and> distinct (map fst bufs) \<and>
      fst ` set bufs \<subseteq> held x \<and> held x' = held x - fst ` set bufs \<and> wire x' = wire x"
    and "rte_pktmbuf_alloc_bulk api mp n x = (None, x') \<Longrightarrow> held x' = held x \<and> wire x' = wire x"
  using assms unfolding nic_laws_def by blast+

lemma rx_burst_law:
  assumes "nic_laws api held wire" and "rte_eth_rx_burst api port q n x = (items, x')"
  shows "length items \<le> n \<and> distinct (map fst items) \<and> fst ` set items \<subseteq> held x \<and>
    held x' = held x - fst ` set items \<and> wire x' = wire x"
  using assms unfolding nic_laws_def by blast

section \<open>Flushing sends everything, once, in order\<close>

definition frames :: "u16 \<Rightarrow> u16 \<Rightarrow> (ptr \<rightharpoonup> mbuf) \<Rightarrow> ptr list \<Rightarrow> wire_item list" where
  "frames port queue mb ms = map (\<lambda>m. (port, queue, m, the (mb m))) ms"

lemma frames_split:
  assumes "set (take k ms) \<inter> set (drop k ms) = {}"
  shows "map (\<lambda>pm. (port, queue, pm)) (take k (map (\<lambda>m. (m, the (mb m))) ms)) @
    frames port queue (mb |` (- set (take k ms))) (drop k ms) = frames port queue mb ms"
proof -
  have "frames port queue (mb |` (- set (take k ms))) (drop k ms) = frames port queue mb (drop k ms)"
    unfolding frames_def by (rule map_cong) (use assms in \<open>auto simp: restrict_map_def\<close>)
  moreover have "map (\<lambda>pm. (port, queue, pm)) (take k (map (\<lambda>m. (m, the (mb m))) ms)) = frames port queue mb (take k ms)"
    by (simp add: frames_def take_map)
  moreover have "frames port queue mb (take k ms) @ frames port queue mb (drop k ms) = frames port queue mb ms"
    by (simp add: frames_def flip: map_append)
  ultimately show ?thesis by (simp only:)
qed

text \<open>The loop either never ends, which a NIC that keeps accepting rules out, or it hands over everything.  Each round
  takes a frame at least, so that as many rounds as frames are enough.\<close>

lemma tx_loop_sends:
  assumes laws: "nic_laws api held wire" and "distinct ms" and "set ms \<subseteq> dom (mbufs w)"
  shows "(tx_loop fuel prof api port queue ms w = Hang \<and> \<not> (nic_progress api \<and> length ms \<le> fuel)) \<or>
    (\<exists>x'. tx_loop fuel prof api port queue ms w = Done (w\<lparr>ext := x', mbufs := mbufs w |` (- set ms)\<rparr>)
      \<and> wire x' = wire (ext w) @ frames port queue (mbufs w) ms \<and> held x' = held (ext w) \<union> set ms)"
  using assms(2,3)
proof (induction fuel arbitrary: ms w)
  case 0
  show ?case
  proof (cases "ms = []")
    case True
    then show ?thesis by (intro disjI2 exI[of _ "ext w"]) (simp add: tx_loop.simps frames_def)
  qed (simp add: tx_loop.simps)
next
  case (Suc f)
  show ?case
  proof (cases "ms = []")
    case True
    then show ?thesis by (auto simp: tx_loop.simps frames_def intro!: exI[of _ "ext w"])
  next
    case False
    let ?ps = "map (\<lambda>m. (m, the (mbufs w m))) ms"
    obtain k x where b: "rte_eth_tx_burst api port queue ?ps (ext w) = (k, x)" by fastforce
    note law = tx_burst_law[OF laws b]
    let ?w = "w\<lparr>ext := x, mbufs := mbufs w |` (- set (take k ms))\<rparr>"
    have step: "tx_loop (Suc f) prof api port queue ms w = tx_loop f prof api port queue (drop k ms) ?w"
      using False b law(1) Suc.prems(2) by (subst tx_loop.simps) (auto simp: Let_def)
    have dj: "set (take k ms) \<inter> set (drop k ms) = {}" using Suc.prems(1) by (simp add: set_take_disj_set_drop_if_distinct)
    have un: "set (take k ms) \<union> set (drop k ms) = set ms" by (metis append_take_drop_id set_append)
    have "set (drop k ms) \<subseteq> dom (mbufs ?w)" "distinct (drop k ms)" using Suc.prems dj un by auto
    from Suc.IH[OF this(2,1)] show ?thesis
    proof (elim disjE conjE exE)
      assume hang: "tx_loop f prof api port queue (drop k ms) ?w = Hang"
        and no: "\<not> (nic_progress api \<and> length (drop k ms) \<le> f)"
      have "0 < k" if "nic_progress api"
      proof -
        have "?ps \<noteq> []" using False by simp
        then show ?thesis using that b unfolding nic_progress_def by (metis fst_conv)
      qed
      with no have "\<not> (nic_progress api \<and> length ms \<le> Suc f)" by auto
      with hang step show ?thesis by simp
    next
      fix x' assume r: "tx_loop f prof api port queue (drop k ms) ?w = Done (?w\<lparr>ext := x', mbufs := mbufs ?w |` (- set (drop k ms))\<rparr>)"
        and wr: "wire x' = wire (ext ?w) @ frames port queue (mbufs ?w) (drop k ms)" and hl: "held x' = held (ext ?w) \<union> set (drop k ms)"
      have "mbufs ?w |` (- set (drop k ms)) = mbufs w |` (- set ms)" unfolding un[symmetric] by (simp add: Int_commute)
      moreover have "wire x' = wire (ext w) @ frames port queue (mbufs w) ms"
        using wr law(2) frames_split[OF dj, of port queue "mbufs w"] by simp
      moreover have "held x' = held (ext w) \<union> set ms" using hl law(3) un by (auto simp: take_map image_image)
      ultimately show ?thesis using r step by auto
    qed
  qed
qed

text \<open>The invariant of one adapter, and of all adapters of a worker: the buffers for sending are distinct
  mbufs of the program's own, and the index is inside the array.\<close>

definition dpdk_wf :: "dpdk \<Rightarrow> bool" where
  "dpdk_wf d \<longleftrightarrow> length (tx_bufs d) = DPDK_BURST_SIZE \<and> tx_idx d < DPDK_BURST_SIZE"

lemma dpdk_wfD:
  "dpdk_wf d \<Longrightarrow> length (tx_bufs d) = DPDK_BURST_SIZE" "dpdk_wf d \<Longrightarrow> tx_idx d \<le> DPDK_BURST_SIZE"
  by (simp_all add: dpdk_wf_def)

definition dpdk_ok :: "('x \<Rightarrow> ptr set) \<Rightarrow> dpdk list \<Rightarrow> 'x world \<Rightarrow> bool" where
  "dpdk_ok held ds w \<longleftrightarrow> (\<forall>d\<in>set ds. dpdk_wf d) \<and> distinct (concat (map tx_bufs ds)) \<and>
     set (concat (map tx_bufs ds)) \<subseteq> dom (mbufs w) - held (ext w)"

lemma dpdk_ok_split:
  assumes "i < length ds"
  shows "\<exists>as e bs. ds = as @ e # bs \<and> ds ! i = e \<and> (\<forall>d. ds[i := d] = as @ d # bs)"
  using id_take_nth_drop[OF assms] upd_conv_take_nth_drop[OF assms] by blast

lemma dpdk_ok_one:
  assumes "dpdk_ok held ds w" and "i < length ds"
  shows "dpdk_wf (ds ! i)" and "distinct (tx_bufs (ds ! i))" and "set (tx_bufs (ds ! i)) \<subseteq> dom (mbufs w) - held (ext w)"
proof -
  have "ds ! i \<in> set ds" using assms(2) by simp
  then show "dpdk_wf (ds ! i)" "set (tx_bufs (ds ! i)) \<subseteq> dom (mbufs w) - held (ext w)"
    using assms(1) unfolding dpdk_ok_def by auto
  show "distinct (tx_bufs (ds ! i))"
    using assms(1) \<open>ds ! i \<in> set ds\<close> unfolding dpdk_ok_def by (auto simp: distinct_concat_iff)
qed

lemma map_add_map_of_other: "k \<notin> fst ` set xs \<Longrightarrow> (m ++ map_of xs) k = m k"
  by (simp add: map_add_dom_app_simps(3) dom_map_of_conv_image_fst)

text \<open>\<open>keeps held w w' ms ns\<close>: the program gave away at most the mbufs \<open>ms\<close> and got \<open>ns\<close>; its other
  mbufs are still its own.\<close>

definition keeps :: "('x \<Rightarrow> ptr set) \<Rightarrow> 'x world \<Rightarrow> 'x world \<Rightarrow> ptr set \<Rightarrow> ptr set \<Rightarrow> bool" where
  "keeps held w w' ms ns \<longleftrightarrow> ns \<subseteq> dom (mbufs w') - held (ext w') \<and>
     (\<forall>m \<in> dom (mbufs w) - held (ext w) - ms. mbufs w' m = mbufs w m \<and> m \<notin> held (ext w') \<and> m \<notin> ns)"

lemma keeps_own:
  "keeps held w w' ms ns \<Longrightarrow> S \<subseteq> dom (mbufs w) - held (ext w) \<Longrightarrow> T \<subseteq> ns \<union> (S - ms) \<Longrightarrow>
     T \<subseteq> dom (mbufs w') - held (ext w')"
  unfolding keeps_def by (auto simp: dom_def subset_iff)

lemma keeps_after:
  assumes "\<And>m. m \<notin> S \<Longrightarrow> mbufs w1 m = mbufs w m" and "ext w1 = ext w" and "S \<subseteq> dom (mbufs w1) - held (ext w1)"
    and k: "keeps held w1 w2 ms ns" and ms: "ms \<subseteq> S"
  shows "keeps held w w2 S (ns \<union> (S - ms))"
proof -
  have "ns \<union> (S - ms) \<subseteq> dom (mbufs w2) - held (ext w2)"
    using keeps_own[OF k assms(3)] k unfolding keeps_def by auto
  moreover have "mbufs w2 m = mbufs w m \<and> m \<notin> held (ext w2) \<and> m \<notin> ns \<union> (S - ms)"
    if m: "m \<in> dom (mbufs w) - held (ext w) - S" for m
  proof -
    have "m \<in> dom (mbufs w1) - held (ext w1) - ms" "mbufs w1 m = mbufs w m" using m ms assms(1,2) by (auto simp: dom_def)
    then show ?thesis using k m unfolding keeps_def by auto
  qed
  ultimately show ?thesis unfolding keeps_def by blast
qed

lemma dpdk_ok_update:
  assumes ok: "dpdk_ok held ds w" and i: "i < length ds" and wf: "dpdk_wf d" "distinct (tx_bufs d)"
    and own: "set (tx_bufs d) \<subseteq> ns \<union> (set (tx_bufs (ds ! i)) - ms)" and k: "keeps held w w' ms ns" "ms \<subseteq> set (tx_bufs (ds ! i))"
  shows "dpdk_ok held (ds[i := d]) w'"
proof -
  obtain as e bs where ds: "ds = as @ e # bs" "ds ! i = e" "\<And>d. ds[i := d] = as @ d # bs" using dpdk_ok_split[OF i] by blast
  let ?o = "set (concat (map tx_bufs as)) \<union> set (concat (map tx_bufs bs))"
  have all: "\<forall>d\<in>set as \<union> set bs. dpdk_wf d" "?o \<union> set (tx_bufs e) \<subseteq> dom (mbufs w) - held (ext w)"
    "distinct (concat (map tx_bufs as) @ tx_bufs e @ concat (map tx_bufs bs))"
    using ok[unfolded ds(1) dpdk_ok_def] by auto
  then have apart: "?o \<inter> set (tx_bufs e) = {}" by auto
  have oth: "m \<in> dom (mbufs w') - held (ext w') \<and> m \<notin> ns" if "m \<in> ?o" for m
  proof -
    have "m \<in> dom (mbufs w) - held (ext w) - ms" using that all(2) apart k(2) ds(2) by blast
    then show ?thesis using k(1) unfolding keeps_def by (auto simp: dom_def)
  qed
  have mine: "set (tx_bufs d) \<subseteq> dom (mbufs w') - held (ext w')"
    using keeps_own[OF k(1), of "set (tx_bufs e)" "set (tx_bufs d)"] own all(2) ds(2) by blast
  have "?o \<inter> set (tx_bufs d) = {}" using oth own apart ds(2) by blast
  moreover have "?o \<subseteq> dom (mbufs w') - held (ext w')" using oth by blast
  moreover have "distinct (concat (map tx_bufs as))" "distinct (concat (map tx_bufs bs))"
    "set (concat (map tx_bufs as)) \<inter> set (concat (map tx_bufs bs)) = {}" using all(3) by auto
  ultimately show ?thesis
    using all(1) wf mine unfolding dpdk_ok_def ds(3) by (simp del: set_concat) blast
qed

text \<open>The NIC has taken the first mbufs \<open>ms\<close>, and \<open>bufs\<close> were allocated in their place.\<close>

lemma keeps_refill:
  assumes hl: "held x1 = held (ext w) \<union> set ms" and b: "fst ` set bufs \<subseteq> held x1" "held x2 = held x1 - fst ` set bufs"
  shows "keeps held w (w\<lparr>ext := x2, mbufs := mbufs w |` (- set ms) ++ map_of bufs\<rparr>) (set ms) (fst ` set bufs)"
proof -
  let ?mb = "mbufs w |` (- set ms) ++ map_of bufs"
  have dm: "dom ?mb = (dom (mbufs w) - set ms) \<union> fst ` set bufs" by (auto simp: dom_map_of_conv_image_fst)
  have "?mb m = mbufs w m" if "m \<in> dom (mbufs w) - held (ext w) - set ms" for m
  proof -
    have "m \<notin> fst ` set bufs" using that b(1) hl by auto
    then show ?thesis using that by (simp add: map_add_map_of_other restrict_map_def)
  qed
  then show ?thesis unfolding keeps_def using b hl dm by auto
qed

lemma keeps_weaken: "keeps held w w' ms ns \<Longrightarrow> ms \<subseteq> ms' \<Longrightarrow> keeps held w w' ms' ns"
  unfolding keeps_def by blast

text \<open>\<open>exchanged held d w d' w'\<close>: the adapter gave away some of its mbufs, and what it has now are mbufs it kept or
  got.\<close>

definition exchanged :: "('x \<Rightarrow> ptr set) \<Rightarrow> dpdk \<Rightarrow> 'x world \<Rightarrow> dpdk \<Rightarrow> 'x world \<Rightarrow> bool" where
  "exchanged held d w d' w' \<longleftrightarrow> dpdk_wf d' \<and> distinct (tx_bufs d') \<and> (\<exists>ns ms. keeps held w w' ms ns \<and>
     ms \<subseteq> set (tx_bufs d) \<and> set (tx_bufs d') \<subseteq> ns \<union> (set (tx_bufs d) - ms))"

lemma exchangedI:
  "keeps held w w' ms ns \<Longrightarrow> ms \<subseteq> set (tx_bufs d) \<Longrightarrow> dpdk_wf d' \<Longrightarrow> distinct (tx_bufs d') \<Longrightarrow>
     set (tx_bufs d') \<subseteq> ns \<union> (set (tx_bufs d) - ms) \<Longrightarrow> exchanged held d w d' w'"
  unfolding exchanged_def by blast

lemma exchanged_owns:
  "exchanged held d w d' w' \<Longrightarrow> set (tx_bufs d) \<subseteq> dom (mbufs w) - held (ext w) \<Longrightarrow>
     dpdk_wf d' \<and> distinct (tx_bufs d') \<and> set (tx_bufs d') \<subseteq> dom (mbufs w') - held (ext w')"
  unfolding exchanged_def using keeps_own by blast

lemma exchanged_ok:
  assumes "dpdk_ok held ds w" and "i < length ds" and "exchanged held (ds ! i) w d w'"
  shows "dpdk_ok held (ds[i := d]) w'"
  using assms(3) dpdk_ok_update[OF assms(1,2)] unfolding exchanged_def by blast

lemma exchanged_after:
  assumes ex: "exchanged held d1 w1 d2 w2" and d1: "tx_bufs d1 = tx_bufs d"
    and w1: "\<And>m. m \<notin> set (tx_bufs d) \<Longrightarrow> mbufs w1 m = mbufs w m" "ext w1 = ext w"
    and own: "set (tx_bufs d1) \<subseteq> dom (mbufs w1) - held (ext w1)"
  shows "exchanged held d w d2 w2"
proof -
  from ex d1 obtain ns ms where k: "keeps held w1 w2 ms ns" "ms \<subseteq> set (tx_bufs d)" "set (tx_bufs d2) \<subseteq> ns \<union> (set (tx_bufs d) - ms)"
    unfolding exchanged_def by auto
  have "keeps held w w2 (set (tx_bufs d)) (ns \<union> (set (tx_bufs d) - ms))"
    by (rule keeps_after[OF w1 own[unfolded d1] k(1,2)])
  then show ?thesis using ex k(3) unfolding exchanged_def by blast
qed

text \<open>What a flush that returns has done.\<close>

definition flushed :: "('x \<Rightarrow> ptr set) \<Rightarrow> ('x \<Rightarrow> wire_item list) \<Rightarrow> dpdk \<Rightarrow> 'x world \<Rightarrow>
    ((dpdk \<times> 'x world) \<times> (unit, error) result) outcome \<Rightarrow> bool" where
  "flushed held wire d w res \<longleftrightarrow> (\<exists>d' x' mb' r. res = Done ((d', w\<lparr>ext := x', mbufs := mb'\<rparr>), r)
    \<and> wire x' = wire (ext w) @ frames (d_port d) (d_queue d) (mbufs w) (take (tx_idx d) (tx_bufs d))
    \<and> tx_idx d' = 0 \<and> d_port d' = d_port d \<and> d_queue d' = d_queue d
    \<and> (r = Ok () \<longrightarrow> exchanged held d w d' (w\<lparr>ext := x', mbufs := mb'\<rparr>))
    \<and> (\<forall>e. r = Err e \<longrightarrow> e = MemoryError Exhausted \<and> 0 < tx_idx d \<and> tx_bufs d' = tx_bufs d \<and> mb' = mbufs w |` (- set (take (tx_idx d) (tx_bufs d))))
    \<and> (\<exists>ns. keeps held w (w\<lparr>ext := x', mbufs := mb'\<rparr>) (set (tx_bufs d)) ns))"

lemma flush_refill:
  assumes laws: "nic_laws api held wire"
    and wf: "length (tx_bufs d) = DPDK_BURST_SIZE" "tx_idx d \<le> DPDK_BURST_SIZE" and dst: "distinct (tx_bufs d)"
    and own: "set (tx_bufs d) \<subseteq> dom (mbufs w) - held (ext w)" and False: "tx_idx d \<noteq> 0"
    and tx: "tx_loop fuel prof api (d_port d) (d_queue d) (take (tx_idx d) (tx_bufs d)) w =
      Done (w\<lparr>ext := x1, mbufs := mbufs w |` (- set (take (tx_idx d) (tx_bufs d)))\<rparr>)"
    and wr: "wire x1 = wire (ext w) @ frames (d_port d) (d_queue d) (mbufs w) (take (tx_idx d) (tx_bufs d))"
    and hl: "held x1 = held (ext w) \<union> set (take (tx_idx d) (tx_bufs d))"
  shows "flushed held wire d w (Dpdk_flush fuel prof api ctx d w)"
proof -
  let ?n = "tx_idx d" and ?ms = "take (tx_idx d) (tx_bufs d)" and ?rest = "drop (tx_idx d) (tx_bufs d)"
  have dj: "set ?ms \<inter> set ?rest = {}" "distinct ?ms" "distinct ?rest"
    using dst by (simp_all add: set_take_disj_set_drop_if_distinct)
  obtain ob x2 where al: "rte_pktmbuf_alloc_bulk api (pktmbuf_pool d) ?n x1 = (ob, x2)" by fastforce
  show ?thesis
  proof (cases ob)
    case None
    with al alloc_bulk_law(2)[OF laws] have "wire x2 = wire x1" "held x2 = held x1" by blast+
    moreover from this have "keeps held w (w\<lparr>ext := x2, mbufs := mbufs w |` (- set ?ms)\<rparr>) (set (tx_bufs d)) {}"
      using hl set_take_subset[of ?n "tx_bufs d"] by (auto simp: keeps_def restrict_map_def)
    ultimately show ?thesis using False tx al None wr unfolding flushed_def
      by (intro exI[of _ "d\<lparr>tx_idx := 0\<rparr>"] exI[of _ x2] exI[of _ "mbufs w |` (- set ?ms)"] exI[of _ "Err (MemoryError Exhausted)"])
        (simp add: Dpdk_flush_def Let_def, blast)
  next
    case (Some bufs)
    let ?d = "d\<lparr>tx_idx := 0, tx_bufs := map fst bufs @ ?rest\<rparr>" and ?mb = "mbufs w |` (- set ?ms) ++ map_of bufs"
    from alloc_bulk_law(1)[OF laws al[unfolded Some]] have b: "length bufs = ?n" "distinct (map fst bufs)" "fst ` set bufs \<subseteq> held x1"
      "held x2 = held x1 - fst ` set bufs" "wire x2 = wire x1" by auto
    have kp: "keeps held w (w\<lparr>ext := x2, mbufs := ?mb\<rparr>) (set ?ms) (fst ` set bufs)" by (rule keeps_refill[OF hl b(3,4)])
    have kp': "keeps held w (w\<lparr>ext := x2, mbufs := ?mb\<rparr>) (set (tx_bufs d)) (fst ` set bufs)"
      by (rule keeps_weaken[OF kp set_take_subset])
    have rest: "set ?rest \<inter> held x1 = {}" using own dj(1) hl set_drop_subset[of ?n "tx_bufs d"] by blast
    have ex: "exchanged held d w ?d (w\<lparr>ext := x2, mbufs := ?mb\<rparr>)"
    proof (rule exchangedI[OF kp set_take_subset])
      show "dpdk_wf ?d" using wf b(1) by (simp add: dpdk_wf_def DPDK_BURST_SIZE_def)
      show "distinct (tx_bufs ?d)" using b(2,3) dj(3) rest by auto
      show "set (tx_bufs ?d) \<subseteq> fst ` set bufs \<union> (set (tx_bufs d) - set ?ms)"
        using dj(1) set_drop_subset[of ?n "tx_bufs d"] by auto
    qed
    show ?thesis
      using False tx al Some wr b(5) ex kp' unfolding flushed_def
      by (intro exI[of _ ?d] exI[of _ x2] exI[of _ ?mb] exI[of _ "Ok ()"])
        (simp add: Dpdk_flush_def Let_def, blast)
  qed
qed

lemma flush_any:
  assumes laws: "nic_laws api held wire"
    and wf: "length (tx_bufs d) = DPDK_BURST_SIZE" "tx_idx d \<le> DPDK_BURST_SIZE" and dst: "distinct (tx_bufs d)"
    and own: "set (tx_bufs d) \<subseteq> dom (mbufs w) - held (ext w)"
  shows "(Dpdk_flush fuel prof api ctx d w = Hang \<and> \<not> (nic_progress api \<and> tx_idx d \<le> fuel)) \<or>
    flushed held wire d w (Dpdk_flush fuel prof api ctx d w)"
proof (cases "tx_idx d = 0")
  case True
  have "keeps held w (w\<lparr>ext := ext w, mbufs := mbufs w\<rparr>) {} {}"
    "keeps held w (w\<lparr>ext := ext w, mbufs := mbufs w\<rparr>) (set (tx_bufs d)) {}" by (simp_all add: keeps_def)
  moreover from this(1) have "exchanged held d w d (w\<lparr>ext := ext w, mbufs := mbufs w\<rparr>)"
    by (rule exchangedI) (use True wf dst in \<open>auto simp: dpdk_wf_def DPDK_BURST_SIZE_def\<close>)
  ultimately have "flushed held wire d w (Done ((d, w), Ok ()))" using True dst unfolding flushed_def
    by (intro exI[of _ d] exI[of _ "ext w"] exI[of _ "mbufs w"] exI[of _ "Ok ()"]) (auto simp: frames_def)
  then show ?thesis using True by (simp add: Dpdk_flush_def)
next
  case False
  let ?n = "tx_idx d" and ?ms = "take (tx_idx d) (tx_bufs d)" and ?rest = "drop (tx_idx d) (tx_bufs d)"
  have len: "length ?ms = ?n" "?n \<le> DPDK_BURST_SIZE" using wf by simp_all
  have sub: "set ?ms \<subseteq> dom (mbufs w)" using own set_take_subset[of ?n "tx_bufs d"] by blast
  have dj: "set ?ms \<inter> set ?rest = {}" "distinct ?ms" "distinct ?rest"
    using dst by (simp_all add: set_take_disj_set_drop_if_distinct)
  from tx_loop_sends[OF laws dj(2) sub, of fuel prof "d_port d" "d_queue d"] show ?thesis
  proof (elim disjE conjE exE)
    assume "tx_loop fuel prof api (d_port d) (d_queue d) ?ms w = Hang" and "\<not> (nic_progress api \<and> length ?ms \<le> fuel)"
    then show ?thesis using False len by (simp add: Dpdk_flush_def Let_def)
  next
    fix x1 assume tx: "tx_loop fuel prof api (d_port d) (d_queue d) ?ms w = Done (w\<lparr>ext := x1, mbufs := mbufs w |` (- set ?ms)\<rparr>)"
      and wr: "wire x1 = wire (ext w) @ frames (d_port d) (d_queue d) (mbufs w) ?ms" and hl: "held x1 = held (ext w) \<union> set ?ms"
    show ?thesis using flush_refill[OF laws wf dst own False tx wr hl] by blast
  qed
qed

lemma flush_spec:
  assumes laws: "nic_laws api held wire" and prog: "nic_progress api"
    and wf: "length (tx_bufs d) = DPDK_BURST_SIZE" "tx_idx d \<le> DPDK_BURST_SIZE" and dst: "distinct (tx_bufs d)"
    and own: "set (tx_bufs d) \<subseteq> dom (mbufs w) - held (ext w)" and fuel: "DPDK_BURST_SIZE \<le> fuel"
  shows "\<exists>d' x' mb' r. Dpdk_flush fuel prof api ctx d w = Done ((d', w\<lparr>ext := x', mbufs := mb'\<rparr>), r)
    \<and> wire x' = wire (ext w) @ frames (d_port d) (d_queue d) (mbufs w) (take (tx_idx d) (tx_bufs d))
    \<and> tx_idx d' = 0 \<and> d_port d' = d_port d \<and> d_queue d' = d_queue d
    \<and> (r = Ok () \<longrightarrow> exchanged held d w d' (w\<lparr>ext := x', mbufs := mb'\<rparr>))
    \<and> (\<forall>e. r = Err e \<longrightarrow> e = MemoryError Exhausted \<and> 0 < tx_idx d \<and> tx_bufs d' = tx_bufs d \<and> mb' = mbufs w |` (- set (take (tx_idx d) (tx_bufs d))))
    \<and> (\<exists>ns. keeps held w (w\<lparr>ext := x', mbufs := mb'\<rparr>) (set (tx_bufs d)) ns)"
  using flush_any[OF laws wf dst own, of fuel prof ctx] prog wf(2) fuel unfolding flushed_def by fastforce

text \<open>C8. A flush loses nothing.  On an adapter that owns 64 distinct buffers, and for every number of rounds that its loop is given (the fuel),
  either they are used up before the NIC has accepted all frames (for every number of rounds when it stops accepting), or every frame that
  was queued has been sent, each once and in the order it was queued, on the adapter's port and queue; the frames are
  described as they were in the queue, no packet or buffer byte changes, and on success the adapter again owns 64 distinct
  buffers.  On a NIC that takes at least one frame of every burst (DPDK does not promise that) it returns, after at most as many
  bursts as there are frames: that many rounds of its loop, the fuel, are enough.\<close>

theorem dpdk_flush_sends:
  assumes "nic_laws api held wire" and "dpdk_wf d" and "distinct (tx_bufs d)"
    and "set (tx_bufs d) \<subseteq> dom (mbufs w) - held (ext w)"
  shows "(nic_progress api \<and> tx_idx d \<le> fuel \<longrightarrow> Dpdk_flush fuel prof api ctx d w \<noteq> Hang) \<and>
    (Dpdk_flush fuel prof api ctx d w = Hang \<or>
     (\<exists>d' w' r. Dpdk_flush fuel prof api ctx d w = Done ((d', w'), r)
      \<and> wire (ext w') = wire (ext w) @ frames (d_port d) (d_queue d) (mbufs w) (take (tx_idx d) (tx_bufs d))
      \<and> tx_idx d' = 0 \<and> pkts w' = pkts w \<and> bytes w' = bytes w
      \<and> (r = Ok () \<longrightarrow> dpdk_wf d' \<and> distinct (tx_bufs d') \<and> set (tx_bufs d') \<subseteq> dom (mbufs w') - held (ext w'))))"
proof -
  have ended: "\<exists>d' w' r. Dpdk_flush fuel prof api ctx d w = Done ((d', w'), r)
      \<and> wire (ext w') = wire (ext w) @ frames (d_port d) (d_queue d) (mbufs w) (take (tx_idx d) (tx_bufs d))
      \<and> tx_idx d' = 0 \<and> pkts w' = pkts w \<and> bytes w' = bytes w
      \<and> (r = Ok () \<longrightarrow> dpdk_wf d' \<and> distinct (tx_bufs d') \<and> set (tx_bufs d') \<subseteq> dom (mbufs w') - held (ext w'))"
    if f: "flushed held wire d w (Dpdk_flush fuel prof api ctx d w)"
  proof -
    from f obtain d' x' mb' r where
        fl: "Dpdk_flush fuel prof api ctx d w = Done ((d', w\<lparr>ext := x', mbufs := mb'\<rparr>), r)"
      and wr: "wire x' = wire (ext w) @ frames (d_port d) (d_queue d) (mbufs w) (take (tx_idx d) (tx_bufs d))" "tx_idx d' = 0"
      and ex: "r = Ok () \<Longrightarrow> exchanged held d w d' (w\<lparr>ext := x', mbufs := mb'\<rparr>)" unfolding flushed_def by blast
    with exchanged_owns[OF ex assms(4)] show ?thesis by auto
  qed
  from flush_any[OF assms(1) dpdk_wfD[OF assms(2)] assms(3,4), of fuel prof ctx] show ?thesis
  proof
    assume "flushed held wire d w (Dpdk_flush fuel prof api ctx d w)"
    from ended[OF this] show ?thesis by auto
  qed auto
qed


section \<open>Receiving keeps the order\<close>

definition pool_ready :: "packet_pool \<Rightarrow> 'x world \<Rightarrow> bool" where
  "pool_ready pool w \<longleftrightarrow> unat (pp_thread_id pool) < MAX_THREAD_NUM \<and> (case mempools w (pp_mp pool) of None \<Rightarrow> False
     | Some mp \<Rightarrow> slots w (slot_addr (mp_cache_per_thread mp) (pp_thread_id pool)) \<noteq> None)"

lemma pool_ready_cong: "mempools w' = mempools w \<Longrightarrow> slots w' = slots w \<Longrightarrow> pool_ready pool w' = pool_ready pool w"
  by (auto simp: pool_ready_def split: option.splits)

text \<open>The packet made for a received mbuf.\<close>

definition rx_ok :: "profile \<Rightarrow> u16 \<Rightarrow> 'x world \<Rightarrow> ptr \<Rightarrow> ptr \<Rightarrow> bool" where
  "rx_ok prof nic w p mp \<longleftrightarrow> (\<exists>pkt m. pkts w p = Some pkt \<and> mbufs w mp = Some m \<and> p_buf_ty pkt = Mbuf mp \<and> p_refcnt pkt = 1
     \<and> p_nic pkt = nic \<and> p_data pkt = m_buf_addr m \<and> p_offset pkt = m_data_off m \<and> packet_len prof pkt = Done (ucast (m_pkt_len m)))"

definition rx_fits :: "profile \<Rightarrow> mbuf \<Rightarrow> bool" where
  "rx_fits prof m \<longleftrightarrow> prof = Release \<or> unat (ucast (m_pkt_len m) :: u16) + unat (m_data_off m) < 2 ^ 16"

lemma set_len_rx:
  assumes "rx_fits prof m" and "p_offset pkt = m_data_off m"
  shows "set_len prof (ucast (m_pkt_len m)) pkt = Done (pkt\<lparr>p_len := ucast (m_pkt_len m) + m_data_off m\<rparr>)"
  using assms by (cases prof) (simp_all add: rx_fits_def set_len_def add_chk_fits)

lemma packet_len_rx:
  assumes "rx_fits prof m" and "p_len pkt = ucast (m_pkt_len m) + m_data_off m" and "p_offset pkt = m_data_off m"
  shows "packet_len prof pkt = Done (ucast (m_pkt_len m))"
proof (cases prof)
  case Debug
  then have "unat (ucast (m_pkt_len m) :: u16) + unat (m_data_off m) < 2 ^ 16" using assms(1) by (simp add: rx_fits_def)
  then have "m_data_off m \<le> ucast (m_pkt_len m) + m_data_off m" by (simp add: word_le_nat_alt unat_add_fits)
  then show ?thesis using assms(2,3) by (simp add: packet_len_def sub_chk_fits)
qed (simp add: packet_len_def assms(2,3))

lemma pool_ready_cache:
  assumes "pool_ready pool w"
  shows "\<exists>c mp. get_cache (pp_mp pool) (pp_thread_id pool) w = Done c \<and> deref_pool (pp_mp pool) w = Done mp"
proof -
  from assms obtain c mp where "mempools w (pp_mp pool) = Some mp" "unat (pp_thread_id pool) < MAX_THREAD_NUM"
    "slots w (slot_addr (mp_cache_per_thread mp) (pp_thread_id pool)) = Some c"
    by (auto simp: pool_ready_def split: option.splits)
  then show ?thesis by (simp add: get_cache_def read_slot_def deref_pool_def)
qed

lemma allocate_one:
  assumes laws: "mempool_laws api avail" and ok: "free_ok avail w" and ready: "pool_ready pool w"
  shows "\<exists>w1 r. PacketPool_allocate api pool w = Done (w1, r) \<and> free_ok avail w1 \<and>
    (case r of Err e \<Rightarrow> e = Exhausted \<and> w1 = w\<lparr>ext := ext w1\<rparr>
     | Ok p \<Rightarrow> p \<in> avail (ext w) \<and> avail (ext w1) = avail (ext w) - {p} \<and> w1 = hand_out [p] (w\<lparr>ext := ext w1\<rparr>) \<and>
         (\<exists>pkt. pkts w1 p = Some pkt \<and> p_refcnt pkt = 1) \<and> (\<forall>q. q \<noteq> p \<longrightarrow> pkts w1 q = pkts w q))"
proof -
  from pool_ready_cache[OF ready] obtain c mp where c: "get_cache (pp_mp pool) (pp_thread_id pool) w = Done c"
    "deref_pool (pp_mp pool) w = Done mp"
    by blast
  then obtain w1 r where al: "MemoryPool_allocate api (pp_mp pool) 1 1 (pp_thread_id pool) w = Done (w1, r)"
    and er: "\<forall>e. r = Err e \<longrightarrow> e = Exhausted"
    by (cases "rte_mempool_generic_get api (mp_mp mp) 1 c (ext w)"; cases "fst (rte_mempool_generic_get api (mp_mp mp) 1 c (ext w))")
      (auto simp: MemoryPool_allocate_def)
  note spec = free_ok_allocate[OF laws ok al]
  show ?thesis
  proof (cases r)
    case (Err e)
    then show ?thesis using al spec er by (auto simp: PacketPool_allocate_def)
  next
    case (Ok objs)
    with spec have "length objs = 1" by simp
    then obtain p where "objs = [p]" by (cases objs) auto
    then show ?thesis using al spec Ok by (auto simp: PacketPool_allocate_def)
  qed
qed

lemma rx_ok_set_pkt: "p \<noteq> p' \<Longrightarrow> rx_ok prof nic (set_pkt p pkt w) p' mp = rx_ok prof nic w p' mp"
  by (simp add: rx_ok_def)

lemma rx_ok_cong: "pkts w' = pkts w \<Longrightarrow> mbufs w' = mbufs w \<Longrightarrow> rx_ok prof nic w' = rx_ok prof nic w"
  by (simp add: rx_ok_def fun_eq_iff)

lemma chain_on: "\<forall>p\<in>set ps. pkts w' p = pkts w p \<Longrightarrow> chain w' q ps = chain w q ps"
  by (induction ps arbitrary: q) (auto split: option.splits)

lemma chain_cong: "pkts w' = pkts w \<Longrightarrow> chain w' q ps = chain w q ps"
  by (rule chain_on) simp

lemma rx_ok_on: "pkts w' p = pkts w p \<Longrightarrow> mbufs w' = mbufs w \<Longrightarrow> rx_ok prof nic w' p mp = rx_ok prof nic w p mp"
  by (simp add: rx_ok_def)

text \<open>The chain of the packets made so far, and what filling the rest of a burst leaves.\<close>

definition rx_chain :: "profile \<Rightarrow> u16 \<Rightarrow> ('x \<Rightarrow> ptr set) \<Rightarrow> 'x world \<Rightarrow> ptr option \<Rightarrow> ptr list \<Rightarrow> ptr list \<Rightarrow> bool" where
  "rx_chain prof nic avail w q ps ms \<longleftrightarrow>
     distinct ps \<and> set ps \<inter> avail (ext w) = {} \<and> chain w q ps \<and> list_all2 (rx_ok prof nic w) ps ms"

definition rx_filled :: "profile \<Rightarrow> u16 \<Rightarrow> ('x \<Rightarrow> ptr set) \<Rightarrow> 'x world \<Rightarrow> ptr set \<Rightarrow> ptr list \<Rightarrow> 'x world
    \<Rightarrow> (ptr option, memory_error) result \<Rightarrow> bool" where
  "rx_filled prof nic avail w P ms w' r \<longleftrightarrow> free_ok avail w' \<and> w' = w\<lparr>ext := ext w', pkts := pkts w', idle := idle w'\<rparr> \<and>
     (case r of Err e \<Rightarrow> e = Exhausted
      | Ok q \<Rightarrow> \<exists>ps. rx_chain prof nic avail w' q ps ms \<and> set ps \<subseteq> P \<and> avail (ext w') \<subseteq> avail (ext w))"

lemma rx_chain_add:
  assumes chain: "rx_chain prof nic avail w q ps ms" and p: "p \<in> avail (ext w)" "avail (ext w1) = avail (ext w) - {p}" "p_refcnt pkt = 1"
    and w1: "\<forall>q. q \<noteq> p \<longrightarrow> pkts w1 q = pkts w q" "mbufs w1 = mbufs w" and m: "mbufs w mp = Some m" "rx_fits prof m"
  shows "rx_chain prof nic avail (set_pkt p (pkt\<lparr>p_nic := nic, p_offset := m_data_off m, p_len := ucast (m_pkt_len m) + m_data_off m,
      p_data := m_buf_addr m, p_next := q, p_buf_ty := Mbuf mp\<rparr>) w1) (Some p) (p # ps) (mp # ms)"
    (is "rx_chain _ _ _ (set_pkt p ?pkt _) _ _ _")
proof -
  have np: "p \<notin> set ps" using chain p(1) by (auto simp: rx_chain_def)
  have other: "rx_ok prof nic (set_pkt p ?pkt w1) q' mp' = rx_ok prof nic w q' mp'" if "q' \<in> set ps" for q' mp'
    by (rule rx_ok_on) (use that np w1 in auto)
  have "rx_ok prof nic (set_pkt p ?pkt w1) p mp"
    using p(3) m w1(2) packet_len_rx[OF m(2), of ?pkt] by (simp add: rx_ok_def)
  moreover have "list_all2 (rx_ok prof nic (set_pkt p ?pkt w1)) ps ms"
    using chain other by (auto simp: rx_chain_def list_all2_conv_all_nth)
  moreover have "chain (set_pkt p ?pkt w1) (Some p) (p # ps)"
    using chain np chain_on[of ps "set_pkt p ?pkt w1" w q] w1(1) by (auto simp: rx_chain_def)
  ultimately show ?thesis using chain np p(2) by (auto simp: rx_chain_def)
qed

lemma rx_filled_weaken:
  assumes f: "rx_filled prof nic avail (set_pkt p pkt w1) P ms w' r" and w1: "w1 = hand_out objs (w\<lparr>ext := x\<rparr>)"
    and "avail (ext w1) \<subseteq> avail (ext w)"
  shows "rx_filled prof nic avail w P ms w' r"
proof -
  have "w' = w\<lparr>ext := ext w', pkts := pkts w', idle := idle w'\<rparr>" using f unfolding rx_filled_def w1 set_pkt_def hand_out_def by simp
  moreover have "\<exists>ps. rx_chain prof nic avail w' q ps ms \<and> set ps \<subseteq> P \<and> avail (ext w') \<subseteq> avail (ext w)" if "r = Ok q" for q
  proof -
    from f that obtain ps where "rx_chain prof nic avail w' q ps ms" "set ps \<subseteq> P" "avail (ext w') \<subseteq> avail (ext w1)"
      unfolding rx_filled_def by auto
    then show ?thesis using assms(3) by blast
  qed
  ultimately show ?thesis using f unfolding rx_filled_def by (cases r) simp_all
qed

lemma rx_fill_chain:
  assumes laws: "mempool_laws api avail"
  shows "free_ok avail w \<Longrightarrow> pool_ready pool w \<Longrightarrow> \<forall>mp\<in>set mps. \<exists>m. mbufs w mp = Some m \<and> rx_fits prof m \<Longrightarrow>
    rx_chain prof nic avail w q ps ms \<Longrightarrow> set ps \<union> avail (ext w) \<subseteq> P \<Longrightarrow>
    \<exists>w' r. rx_fill prof api pool nic mps q w = Done (w', r) \<and> rx_filled prof nic avail w P (rev mps @ ms) w' r"
proof (induction mps arbitrary: w q ps ms)
  case Nil
  then show ?case by (intro exI[of _ w] exI[of _ "Ok q"]) (auto simp: rx_filled_def)
next
  case (Cons mp mps)
  from allocate_one[OF laws Cons.prems(1,2)] obtain w1 r where
      al: "PacketPool_allocate api pool w = Done (w1, r)" "free_ok avail w1"
    and cs: "case r of Err e \<Rightarrow> e = Exhausted \<and> w1 = w\<lparr>ext := ext w1\<rparr>
     | Ok p \<Rightarrow> p \<in> avail (ext w) \<and> avail (ext w1) = avail (ext w) - {p} \<and> w1 = hand_out [p] (w\<lparr>ext := ext w1\<rparr>) \<and>
         (\<exists>pkt. pkts w1 p = Some pkt \<and> p_refcnt pkt = 1) \<and> (\<forall>q. q \<noteq> p \<longrightarrow> pkts w1 q = pkts w q)"
    by blast
  show ?case
  proof (cases r)
    case (Err e)
    then have "w1 = w\<lparr>ext := ext w1, pkts := pkts w1, idle := idle w1\<rparr>" using cs by simp
    then show ?thesis using al cs Err
      by (intro exI[of _ w1] exI[of _ "Err Exhausted"]) (simp add: rx_filled_def)
  next
    case (Ok p)
    with cs have p: "p \<in> avail (ext w)" "avail (ext w1) = avail (ext w) - {p}" and ho: "w1 = hand_out [p] (w\<lparr>ext := ext w1\<rparr>)"
      and oth: "\<forall>q. q \<noteq> p \<longrightarrow> pkts w1 q = pkts w q" by simp_all
    from cs Ok obtain pkt where pk: "pkts w1 p = Some pkt" "p_refcnt pkt = 1" by auto
    have same: "mbufs w1 = mbufs w" "mempools w1 = mempools w" "slots w1 = slots w" by (subst ho, simp)+
    from Cons.prems(3) obtain m where m: "mbufs w mp = Some m" "rx_fits prof m" by auto
    let ?w = "set_pkt p (pkt\<lparr>p_nic := nic, p_offset := m_data_off m, p_len := ucast (m_pkt_len m) + m_data_off m,
      p_data := m_buf_addr m, p_next := q, p_buf_ty := Mbuf mp\<rparr>) w1"
    have step: "rx_fill prof api pool nic (mp # mps) q w = rx_fill prof api pool nic mps (Some p) ?w"
      using al pk m same(1) set_len_rx[OF m(2), of "pkt\<lparr>p_nic := nic, p_offset := m_data_off m\<rparr>"] Ok by simp
    have "free_ok avail ?w" using al(2) p(2) by (auto simp: free_ok_def)
    moreover have "pool_ready pool ?w" using Cons.prems(2) pool_ready_cong[of ?w w pool] same by simp
    moreover have "\<forall>mp\<in>set mps. \<exists>m. mbufs ?w mp = Some m \<and> rx_fits prof m" using Cons.prems(3) same(1) by simp
    moreover have "set (p # ps) \<union> avail (ext ?w) \<subseteq> P" using Cons.prems(5) p by auto
    ultimately obtain w' r' where R: "rx_fill prof api pool nic mps (Some p) ?w = Done (w', r')"
        "rx_filled prof nic avail ?w P (rev mps @ mp # ms) w' r'"
      using Cons.IH[OF _ _ _ rx_chain_add[OF Cons.prems(4) p pk(2) oth same(1) m]] by blast
    have "avail (ext w1) \<subseteq> avail (ext w)" using p(2) by blast
    from rx_filled_weaken[OF R(2) ho this] show ?thesis using R(1) unfolding step by auto
  qed
qed

text \<open>The data-path calls do not touch the packet pools, and the object pools do not touch the NIC.  (The
  free callback that DPDK runs for a sent packet is \<open>packet_free_callback\<close>, a step of its own.)\<close>

definition nic_pool_laws :: "'x dpdk_api \<Rightarrow> ('x \<Rightarrow> ptr set) \<Rightarrow> ('x \<Rightarrow> ptr set) \<Rightarrow> bool" where
  "nic_pool_laws api held avail \<longleftrightarrow>
     (\<forall>port q ps x. avail (snd (rte_eth_tx_burst api port q ps x)) = avail x) \<and>
     (\<forall>port q n x. avail (snd (rte_eth_rx_burst api port q n x)) = avail x) \<and>
     (\<forall>mp n x. avail (snd (rte_pktmbuf_alloc_bulk api mp n x)) = avail x) \<and>
     (\<forall>mp n c x. held (snd (rte_mempool_generic_get api mp n c x)) = held x) \<and>
     (\<forall>mp obj c x. held (rte_mempool_generic_put api mp obj c x) = held x) \<and>
     (\<forall>m x. held (rte_mbuf_raw_free api m x) = insert m (held x))"

lemma nic_pool_lawsD:
  assumes "nic_pool_laws api held avail"
  shows "rte_eth_tx_burst api port q ps x = (k, x') \<Longrightarrow> avail x' = avail x"
    and "rte_eth_rx_burst api port q n x = (items, x') \<Longrightarrow> avail x' = avail x"
    and "rte_pktmbuf_alloc_bulk api mp n x = (ob, x') \<Longrightarrow> avail x' = avail x"
    and "rte_mempool_generic_get api mp n c x = (oc, x') \<Longrightarrow> held x' = held x"
    and "held (rte_mempool_generic_put api mp obj c x) = held x"
    and "held (rte_mbuf_raw_free api m x) = insert m (held x)"
  using assms unfolding nic_pool_laws_def by (metis snd_conv)+

lemma MemoryPool_allocate_held:
  assumes "nic_pool_laws api held avail" and "MemoryPool_allocate api z cap n tid w = Done (w1, r)"
  shows "held (ext w1) = held (ext w)"
  using assms(2) nic_pool_lawsD(4)[OF assms(1)]
  by (auto simp: MemoryPool_allocate_def split: if_splits option.splits prod.splits)

lemma PacketPool_allocate_held:
  assumes "nic_pool_laws api held avail" and "PacketPool_allocate api pool w = Done (w1, r)"
  shows "held (ext w1) = held (ext w)"
  using assms(2)[unfolded PacketPool_allocate_def qmark_eq_Done] MemoryPool_allocate_held[OF assms(1)]
  by (elim disjE exE conjE) (auto split: list.splits)

lemma rx_fill_held:
  assumes laws: "nic_pool_laws api held avail"
  shows "rx_fill prof api pool nic mps ret w = Done (w', r) \<Longrightarrow> held (ext w') = held (ext w)"
proof (induction mps arbitrary: ret w)
  case (Cons mp mps)
  from Cons.prems show ?case
    by (auto simp: qmark_eq_Done split: option.splits dest!: Cons.IH PacketPool_allocate_held[OF laws])
qed simp

lemma tx_loop_avail:
  assumes laws: "nic_pool_laws api held avail"
  shows "tx_loop fuel prof api port queue ms w = Done w' \<Longrightarrow> avail (ext w') = avail (ext w)"
proof (induction fuel arbitrary: ms w)
  case 0
  then show ?case by (simp add: tx_loop.simps split: if_splits)
next
  case (Suc f)
  show ?case
  proof (cases "ms = []")
    case True
    then show ?thesis using Suc.prems by (simp add: tx_loop.simps)
  next
    case False
    obtain k x where b: "rte_eth_tx_burst api port queue (map (\<lambda>m. (m, the (mbufs w m))) ms) (ext w) = (k, x)" by fastforce
    have "tx_loop f prof api port queue (drop k ms) (w\<lparr>ext := x, mbufs := mbufs w |` (- set (take k ms))\<rparr>) = Done w'"
      using Suc.prems False b by (subst (asm) tx_loop.simps) (simp add: Let_def split: if_splits)
    from Suc.IH[OF this] nic_pool_lawsD(1)[OF laws b] show ?thesis by simp
  qed
qed

lemma flush_avail:
  assumes laws: "nic_pool_laws api held avail" and fl: "Dpdk_flush fuel prof api ctx d w = Done ((d', w'), r)"
  shows "avail (ext w') = avail (ext w)"
proof (cases "tx_idx d = 0")
  case True
  then show ?thesis using fl by (simp add: Dpdk_flush_def)
next
  case False
  with fl obtain w1 where tx: "tx_loop fuel prof api (d_port d) (d_queue d) (take (tx_idx d) (tx_bufs d)) w = Done w1"
    and w': "ext w' = snd (rte_pktmbuf_alloc_bulk api (pktmbuf_pool d) (tx_idx d) (ext w1))"
    unfolding Dpdk_flush_def Let_def by (simp, elim exE conjE) (auto split: prod.splits option.splits)
  show ?thesis using tx_loop_avail[OF laws tx] nic_pool_lawsD(3)[OF laws] unfolding w' by (metis prod.collapse)
qed

text \<open>Everything the adapters of a worker rely on and keep.  A received mbuf has room for the Ethernet and
  IPv4 headers behind its data offset (the pool's buffers have \<^verbatim>\<open>MBUF_SIZE\<close> bytes).  \<open>pool_known\<close> says that
  \<open>P\<close> are packets of the worker's pool: they lie in memory, one after the other, and the thread can give
  them back.\<close>

definition rx_room :: "mbuf \<Rightarrow> bool" where
  "rx_room m \<longleftrightarrow> unat (m_data_off m) + 34 \<le> unat (m_buf_len m)"

definition nic_env :: "nat \<Rightarrow> profile \<Rightarrow> 'x dpdk_api \<Rightarrow> ('x \<Rightarrow> ptr set) \<Rightarrow> ('x \<Rightarrow> wire_item list) \<Rightarrow> ('x \<Rightarrow> ptr set) \<Rightarrow> bool" where
  "nic_env fuel prof api held wire avail \<longleftrightarrow> nic_laws api held wire \<and> nic_progress api \<and> nic_pool_laws api held avail \<and>
     mempool_laws api avail \<and> DPDK_BURST_SIZE \<le> fuel \<and>
     (\<forall>port q n x. \<forall>(mp, m)\<in>set (fst (rte_eth_rx_burst api port q n x)). rx_fits prof m \<and> rx_room m)"

definition apart :: "ptr \<Rightarrow> ptr \<Rightarrow> bool" where
  "apart p q \<longleftrightarrow> p + size_Packet \<le> q \<or> q + size_Packet \<le> p"

definition pool_known :: "ptr set \<Rightarrow> u32 \<Rightarrow> 'x world \<Rightarrow> bool" where
  "pool_known P tid w \<longleftrightarrow> (\<forall>p\<in>P. \<forall>q\<in>P. p \<noteq> q \<longrightarrow> apart p q) \<and>
     (\<forall>p\<in>P. pool_obj tid p w \<and> p + size_Packet < 2 ^ 64 \<and> (\<exists>h. objhdrs w p = Some h \<and> unat (oh_iova h) + size_Packet < 2 ^ 64))"

lemma pool_known_cong:
  "objhdrs w' = objhdrs w \<Longrightarrow> privs w' = privs w \<Longrightarrow> slots w' = slots w \<Longrightarrow> pool_known P tid w' = pool_known P tid w"
  using pool_obj_cong[of w' w tid] by (simp add: pool_known_def)

definition dpdk_good :: "('x \<Rightarrow> ptr set) \<Rightarrow> ('x \<Rightarrow> ptr set) \<Rightarrow> ptr set \<Rightarrow> Context \<Rightarrow> dpdk list \<Rightarrow> 'x world \<Rightarrow> bool" where
  "dpdk_good held avail P ctx ds w \<longleftrightarrow> dpdk_ok held ds w \<and> free_ok avail w \<and> pool_ready (ctx_pktpool ctx) w \<and>
     avail (ext w) \<subseteq> P \<and> pool_known P (ctx_thread_id ctx) w"

text \<open>A burst of received packets: distinct packets of the pool, each with an mbuf of its own that no
  adapter will send.\<close>

definition received :: "profile \<Rightarrow> ('x \<Rightarrow> ptr set) \<Rightarrow> ('x \<Rightarrow> ptr set) \<Rightarrow> ptr set \<Rightarrow> dpdk list \<Rightarrow> ptr \<Rightarrow> 'x world \<Rightarrow> bool" where
  "received prof held avail P ds p w \<longleftrightarrow> (\<exists>ps ms nic. chain w (Some p) ps \<and> distinct ps \<and> length ps \<le> DPDK_BURST_SIZE \<and>
     set ps \<subseteq> P - avail (ext w) \<and> list_all2 (rx_ok prof nic w) ps ms \<and> distinct ms \<and>
     set ms \<inter> (held (ext w) \<union> set (concat (map tx_bufs ds))) = {} \<and> (\<forall>mp\<in>set ms. \<exists>m. mbufs w mp = Some m \<and> rx_room m))"

lemma rx_burst_items:
  assumes env: "nic_env fuel prof api held wire avail" and rx: "rte_eth_rx_burst api port q n (ext w) = (items, x)"
  shows "distinct (map fst items)" and "held x = held (ext w) - fst ` set items" and "avail x = avail (ext w)"
    and "keeps held w (w\<lparr>ext := x, mbufs := mbufs w ++ map_of items\<rparr>) {} {}"
    and "mp \<in> fst ` set items \<Longrightarrow> \<exists>m. (mbufs w ++ map_of items) mp = Some m \<and> rx_fits prof m"
proof -
  note laws = env[unfolded nic_env_def]
  from laws have nl: "nic_laws api held wire" by simp
  from rx_burst_law[OF nl rx] show it: "distinct (map fst items)" "held x = held (ext w) - fst ` set items" by auto
  from rx_burst_law[OF nl rx] have sub: "fst ` set items \<subseteq> held (ext w)" by auto
  show "avail x = avail (ext w)" using nic_pool_lawsD(2)[OF _ rx] laws by blast
  have "(mbufs w ++ map_of items) m = mbufs w m" if "m \<notin> held (ext w)" for m
    using that sub by (intro map_add_map_of_other) blast
  then show "keeps held w (w\<lparr>ext := x, mbufs := mbufs w ++ map_of items\<rparr>) {} {}" using it(2) by (auto simp: keeps_def)
  show "\<exists>m. (mbufs w ++ map_of items) mp = Some m \<and> rx_fits prof m" if "mp \<in> fst ` set items"
  proof -
    from that obtain m where m: "(mp, m) \<in> set items" by auto
    then have "map_of items mp = Some m" using it(1) by simp
    moreover have "rx_fits prof m" using laws m rx by (metis (mono_tags, lifting) case_prodD fst_conv)
    ultimately show ?thesis by simp
  qed
qed

lemma recv_spec:
  assumes env: "nic_env fuel prof api held wire avail" and ok: "free_ok avail w" "pool_ready (ctx_pktpool ctx) w"
    and rx: "rte_eth_rx_burst api (d_port d) (d_queue d) DPDK_BURST_SIZE (ext w) = (items, x)"
  shows "\<exists>d' w' r. Dpdk_recv prof api ctx d w = Done ((d', w'), r) \<and> tx_bufs d' = tx_bufs d \<and> tx_idx d' = tx_idx d
    \<and> free_ok avail w' \<and> pool_ready (ctx_pktpool ctx) w' \<and> keeps held w w' {} {} \<and> mbufs w' = mbufs w ++ map_of items \<and>
    (case r of
       Ok p \<Rightarrow> \<exists>ps. chain w' (Some p) ps \<and> distinct ps \<and> set ps \<inter> avail (ext w') = {}
         \<and> list_all2 (rx_ok prof (d_nic d) w') ps (map fst items) \<and> set ps \<subseteq> avail (ext w) \<and> avail (ext w') \<subseteq> avail (ext w)
     | Err e \<Rightarrow> if items = [] then e = Nop \<and> avail (ext w') = avail (ext w) else e = MemoryError Exhausted)
    \<and> objhdrs w' = objhdrs w \<and> privs w' = privs w \<and> slots w' = slots w \<and> held (ext w') = held (ext w) - fst ` set items"
proof -
  let ?d = "d\<lparr>rx_bufs := map fst items @ drop (length items) (rx_bufs d)\<rparr>"
  let ?w = "w\<lparr>ext := x, mbufs := mbufs w ++ map_of items\<rparr>"
  note it = rx_burst_items[OF env rx]
  note av = it(3) and k = it(4)
  have rd: "free_ok avail ?w" "pool_ready (ctx_pktpool ctx) ?w"
    using ok av pool_ready_cong[of ?w w] by (simp_all add: free_ok_def)
  show ?thesis
  proof (cases "items = []")
    case True
    then show ?thesis using rx k rd av it(2)
      by (intro exI[of _ ?d] exI[of _ ?w] exI[of _ "Err Nop"]) (simp add: Dpdk_recv_def Let_def)
  next
    case False
    have mb: "\<exists>m. mbufs ?w mp = Some m \<and> rx_fits prof m" if "mp \<in> set (rev (map fst items))" for mp
      using it(5)[of mp] that by auto
    have ml: "mempool_laws api avail" and pl: "nic_pool_laws api held avail" using env by (auto simp: nic_env_def)
    have c0: "rx_chain prof (d_nic d) avail ?w None [] []" by (simp add: rx_chain_def)
    from rx_fill_chain[OF ml rd _ c0, of "rev (map fst items)" "avail x"] mb obtain w' r where
        fl: "rx_fill prof api (ctx_pktpool ctx) (d_nic d) (rev (map fst items)) None ?w = Done (w', r)"
      and filled: "rx_filled prof (d_nic d) avail ?w (avail x) (map fst items) w' r"
      by auto
    have free: "free_ok avail w'" and w': "w' = ?w\<lparr>ext := ext w', pkts := pkts w', idle := idle w'\<rparr>" using filled unfolding rx_filled_def by blast+
    have same: "mempools w' = mempools w" "slots w' = slots w" "mbufs w' = mbufs ?w" "objhdrs w' = objhdrs w" "privs w' = privs w"
      by (subst w', simp)+
    have hx: "held (ext w') = held (ext w) - fst ` set items" using rx_fill_held[OF pl fl] it(2) by simp
    with k same it(2) have k': "keeps held w w' {} {}" unfolding keeps_def by simp
    have pr: "pool_ready (ctx_pktpool ctx) w'" using pool_ready_cong[OF same(1,2)] ok(2) by simp
    show ?thesis
    proof (cases r)
      case (Err e)
      then show ?thesis using False rx fl free filled k' pr
        by (intro exI[of _ ?d] exI[of _ w'] exI[of _ "Err (MemoryError e)"]) (simp add: Dpdk_recv_def Let_def same hx rx_filled_def)
    next
      case (Ok ret)
      with filled obtain ps where ps: "distinct ps" "set ps \<inter> avail (ext w') = {}" "chain w' ret ps"
        "list_all2 (rx_ok prof (d_nic d) w') ps (map fst items)" "set ps \<subseteq> avail (ext w)" "avail (ext w') \<subseteq> avail (ext w)"
        using av by (auto simp: rx_chain_def rx_filled_def)
      have "ps \<noteq> []" using ps(4) False by auto
      with ps(3) obtain p where p: "ret = Some p" by (cases ps) auto
      show ?thesis using False rx fl free k' pr Ok p ps
        by (intro exI[of _ ?d] exI[of _ w'] exI[of _ "Ok p"]) (auto simp: Dpdk_recv_def Let_def same hx)
    qed
  qed
qed

lemma recv_received:
  assumes env: "nic_env fuel prof api held wire avail" and ok: "dpdk_ok held ds w"
    and rx: "rte_eth_rx_burst api port q DPDK_BURST_SIZE (ext w) = (items, x)"
    and w': "mbufs w' = mbufs w ++ map_of items" "held (ext w') = held (ext w) - fst ` set items"
    and tb: "set (concat (map tx_bufs ds')) \<subseteq> set (concat (map tx_bufs ds))"
    and ps: "chain w' (Some p) ps" "distinct ps" "set ps \<inter> avail (ext w') = {}" "list_all2 (rx_ok prof nic w') ps (map fst items)" "set ps \<subseteq> P"
  shows "received prof held avail P ds' p w'"
proof -
  from env have "nic_laws api held wire" by (simp add: nic_env_def)
  note it = rx_burst_law[OF this rx]
  have "length ps \<le> DPDK_BURST_SIZE" using it ps(4) by (auto dest: list_all2_lengthD)
  moreover have "set (map fst items) \<inter> set (concat (map tx_bufs ds')) = {}"
  proof -
    have "set (map fst items) \<subseteq> held (ext w)" using it by simp
    moreover have "set (concat (map tx_bufs ds)) \<subseteq> dom (mbufs w) - held (ext w)" using ok unfolding dpdk_ok_def by blast
    ultimately show ?thesis using tb by blast
  qed
  moreover have "\<exists>m. mbufs w' mp = Some m \<and> rx_room m" if "mp \<in> set (map fst items)" for mp
  proof -
    from that obtain m where m: "(mp, m) \<in> set items" by auto
    then have "map_of items mp = Some m" using it by simp
    moreover have "rx_room m" using env m rx unfolding nic_env_def by (metis (mono_tags, lifting) case_prodD fst_conv)
    ultimately show ?thesis by (simp add: w'(1))
  qed
  ultimately show ?thesis using ps it w'(2) unfolding received_def
    by (intro exI[of _ ps] exI[of _ "map fst items"] exI[of _ nic]) auto
qed

text \<open>The two laws of an adapter.\<close>

lemma dpdk_flush_law:
  assumes nenv: "nic_env fuel prof api held wire avail" and good: "dpdk_good held avail P ctx ds w" and i: "i < length ds"
  shows "\<exists>d' w' r. Dpdk_flush fuel prof api ctx (ds ! i) w = Done ((d', w'), r) \<and> r \<noteq> Err Nop \<and>
    (r = Ok () \<longrightarrow> dpdk_good held avail P ctx (ds[i := d']) w')"
proof -
  have env: "nic_laws api held wire" "nic_progress api" "nic_pool_laws api held avail" "DPDK_BURST_SIZE \<le> fuel"
    and ok: "dpdk_ok held ds w" and rd: "free_ok avail w" "pool_ready (ctx_pktpool ctx) w" "avail (ext w) \<subseteq> P" "pool_known P (ctx_thread_id ctx) w"
    using nenv good by (auto simp: nic_env_def dpdk_good_def)
  note one = dpdk_ok_one[OF ok i]
  from flush_spec[OF env(1,2) dpdk_wfD[OF one(1)] one(2,3) env(4), of prof ctx] obtain d' x' mb' r where
      fl: "Dpdk_flush fuel prof api ctx (ds ! i) w = Done ((d', w\<lparr>ext := x', mbufs := mb'\<rparr>), r)"
    and er: "\<forall>e. r = Err e \<longrightarrow> e = MemoryError Exhausted"
    and ex: "r = Ok () \<Longrightarrow> exchanged held (ds ! i) w d' (w\<lparr>ext := x', mbufs := mb'\<rparr>)" by blast
  let ?w = "w\<lparr>ext := x', mbufs := mb'\<rparr>"
  have "avail x' = avail (ext w)" using flush_avail[OF env(3) fl] by simp
  moreover have "pool_ready (ctx_pktpool ctx) ?w" "pool_known P (ctx_thread_id ctx) ?w"
    using rd(2,4) pool_ready_cong[of ?w w] pool_known_cong[of ?w w] by simp_all
  ultimately have "dpdk_good held avail P ctx (ds[i := d']) ?w" if "r = Ok ()"
    using exchanged_ok[OF ok i ex[OF that]] rd(1,3) by (simp add: dpdk_good_def free_ok_def)
  then show ?thesis using fl er by auto
qed

lemma dpdk_recv_law:
  assumes env: "nic_env fuel prof api held wire avail" and good: "dpdk_good held avail P ctx ds w" and i: "i < length ds"
  shows "\<exists>d' w' r. Dpdk_recv prof api ctx (ds ! i) w = Done ((d', w'), r) \<and> (r = Err Nop \<longrightarrow> dpdk_good held avail P ctx (ds[i := d']) w') \<and>
    (\<forall>p. r = Ok p \<longrightarrow> dpdk_good held avail P ctx (ds[i := d']) w' \<and> received prof held avail P (ds[i := d']) p w')"
proof -
  have ok: "dpdk_ok held ds w" and rd: "free_ok avail w" "pool_ready (ctx_pktpool ctx) w"
    and pk: "avail (ext w) \<subseteq> P" "pool_known P (ctx_thread_id ctx) w"
    using good by (auto simp: dpdk_good_def)
  obtain items x where rx: "rte_eth_rx_burst api (d_port (ds ! i)) (d_queue (ds ! i)) DPDK_BURST_SIZE (ext w) = (items, x)" by fastforce
  from recv_spec[OF env rd rx] obtain d' w' r where rc: "Dpdk_recv prof api ctx (ds ! i) w = Done ((d', w'), r)"
    and d': "tx_bufs d' = tx_bufs (ds ! i)" "tx_idx d' = tx_idx (ds ! i)" and rd': "free_ok avail w'" "pool_ready (ctx_pktpool ctx) w'"
    and k: "keeps held w w' {} {}" and mb: "mbufs w' = mbufs w ++ map_of items" "held (ext w') = held (ext w) - fst ` set items"
    and same: "objhdrs w' = objhdrs w" "privs w' = privs w" "slots w' = slots w"
    and cs: "case r of Ok p \<Rightarrow> \<exists>ps. chain w' (Some p) ps \<and> distinct ps \<and> set ps \<inter> avail (ext w') = {}
         \<and> list_all2 (rx_ok prof (d_nic (ds ! i)) w') ps (map fst items) \<and> set ps \<subseteq> avail (ext w) \<and> avail (ext w') \<subseteq> avail (ext w)
       | Err e \<Rightarrow> if items = [] then e = Nop \<and> avail (ext w') = avail (ext w) else e = MemoryError Exhausted" by blast
  have "exchanged held (ds ! i) w d' w'"
    by (rule exchangedI[OF k]) (use dpdk_ok_one[OF ok i] d' in \<open>simp_all add: dpdk_wf_def\<close>)
  from exchanged_ok[OF ok i this] rd' pk(2) pool_known_cong[OF same]
  have good': "dpdk_good held avail P ctx (ds[i := d']) w'" if "avail (ext w') \<subseteq> P"
    using that by (simp add: dpdk_good_def)
  have tb: "set (concat (map tx_bufs (ds[i := d']))) \<subseteq> set (concat (map tx_bufs ds))"
    using set_update_subset_insert[of ds i d'] nth_mem[OF i] d'(1) by fastforce
  have "dpdk_good held avail P ctx (ds[i := d']) w' \<and> received prof held avail P (ds[i := d']) p w'" if r: "r = Ok p" for p
  proof -
    from cs r obtain ps where "chain w' (Some p) ps" "distinct ps" "set ps \<inter> avail (ext w') = {}"
      "list_all2 (rx_ok prof (d_nic (ds ! i)) w') ps (map fst items)" "set ps \<subseteq> avail (ext w)" "avail (ext w') \<subseteq> avail (ext w)" by auto
    with recv_received[OF env ok rx mb tb, of p ps "d_nic (ds ! i)" P] pk(1) good' show ?thesis by auto
  qed
  moreover have "dpdk_good held avail P ctx (ds[i := d']) w'" if "r = Err Nop"
    using cs that good' pk(1) by (auto split: if_splits)
  ultimately show ?thesis using rc by auto
qed

interpretation dpdk_io: adapter_laws "dpdk_ops fuel prof api pa" ctx
    "\<lambda>ds w. nic_env fuel prof api held wire avail \<and> dpdk_good held avail P ctx ds w" "received prof held avail P"
  for fuel prof api pa ctx held wire avail P
proof (unfold_locales, goal_cases)
  case (1 ds w i)
  then show ?case using dpdk_flush_law[of fuel prof api held wire avail P ctx ds w i] by (auto simp: dpdk_ops_def)
next
  case (2 ds w i)
  then show ?case using dpdk_recv_law[of fuel prof api held wire avail P ctx ds w i] by (auto simp: dpdk_ops_def)
qed

section \<open>The life of a sent packet\<close>

text \<open>What \<^verbatim>\<open>send\<close> reads of a packet: its length, the address DPDK translates, and the three headers inside
  its buffer, which say IPv4 and UDP.  Every other kind of frame is \<^verbatim>\<open>unimplemented!\<close>.\<close>

definition sendable :: "profile \<Rightarrow> ptr \<Rightarrow> packet \<Rightarrow> 'x world \<Rightarrow> u16 \<Rightarrow> bool" where
  "sendable prof p pkt w n \<longleftrightarrow> pkts w p = Some pkt \<and> packet_len prof pkt = Done n \<and> (\<exists>io. iova prof p w = Done io) \<and>
     (\<exists>ea ia ua. get_l2_header size_EthHeader pkt w = Done ea \<and> get_l3_header size_Ipv4Header pkt w = Done ia \<and>
        get_l4_header size_UdpHeader pkt w = Done ua \<and>
        ether_decode (eth_ether_ty (read_eth ea (bytes w))) = Some EtIpv4 \<and>
        proto_decode (ip_protocol (read_ipv4 ia (bytes w))) = Some UDP)"

lemma iova_thread_id:
  "pkts w p = Some pkt \<Longrightarrow> objhdrs w' = objhdrs w \<Longrightarrow> pkts w' p = Some (pkt\<lparr>p_thread_id := tid\<rparr>) \<Longrightarrow> iova prof p w' = iova prof p w"
  by (simp add: iova_def virt2iova_def data_ptr_def)

lemma views_thread_id:
  assumes "mbufs w' = mbufs w"
  shows "get_l2_header sz (pkt\<lparr>p_thread_id := tid\<rparr>) w' = get_l2_header sz pkt w"
    "get_l3_header sz (pkt\<lparr>p_thread_id := tid\<rparr>) w' = get_l3_header sz pkt w"
    "get_l4_header sz (pkt\<lparr>p_thread_id := tid\<rparr>) w' = get_l4_header sz pkt w"
  using assms buf_extent_cong[of "pkt\<lparr>p_thread_id := tid\<rparr>" pkt w' w] by (simp_all add: view_defs header_at_def)

text \<open>What one \<^verbatim>\<open>send\<close> leaves before it possibly flushes: the next mbuf describes the packet's data and names
  the packet to free; of the packet only the thread, of its bytes only the UDP checksum changes.\<close>

definition queued_world :: "ptr \<Rightarrow> packet \<Rightarrow> u32 \<Rightarrow> ptr \<Rightarrow> ptr \<Rightarrow> mbuf \<Rightarrow> mem \<Rightarrow> 'x world \<Rightarrow> 'x world" where
  "queued_world p pkt tid sh mp m bs w = (set_pkt p (pkt\<lparr>p_thread_id := tid\<rparr>) w)\<lparr>
     shinfos := (shinfos w)(sh \<mapsto> \<lparr>fcb_opaque = p, sh_refcnt = 1\<rparr>), mbufs := (mbufs w)(mp \<mapsto> m), bytes := bs\<rparr>"

lemma queued_world_simps [simp]:
  "pkts (queued_world p pkt tid sh mp m bs w) = (pkts w)(p \<mapsto> pkt\<lparr>p_thread_id := tid\<rparr>)"
  "shinfos (queued_world p pkt tid sh mp m bs w) = (shinfos w)(sh \<mapsto> \<lparr>fcb_opaque = p, sh_refcnt = 1\<rparr>)"
  "mbufs (queued_world p pkt tid sh mp m bs w) = (mbufs w)(mp \<mapsto> m)" "bytes (queued_world p pkt tid sh mp m bs w) = bs"
  "objhdrs (queued_world p pkt tid sh mp m bs w) = objhdrs w" "privs (queued_world p pkt tid sh mp m bs w) = privs w"
  "slots (queued_world p pkt tid sh mp m bs w) = slots w" "mempools (queued_world p pkt tid sh mp m bs w) = mempools w"
  "ext (queued_world p pkt tid sh mp m bs w) = ext w" "idle (queued_world p pkt tid sh mp m bs w) = idle w"
  by (simp_all add: queued_world_def set_pkt_def)

lemma send_spec:
  assumes sd: "sendable prof p pkt w n" and idx: "tx_idx d < length (tx_bufs d)"
    and mb: "mbufs w (tx_bufs d ! tx_idx d) = Some m"
  shows "\<exists>m' sh bs. Dpdk_send fuel prof api ctx p d w =
      (let d1 = d\<lparr>tx_idx := Suc (tx_idx d)\<rparr>; w1 = queued_world p pkt (ctx_thread_id ctx) sh (tx_bufs d ! tx_idx d) m' bs w in
       if tx_idx d1 = DPDK_BURST_SIZE then Dpdk_flush fuel prof api ctx d1 w1 else Done ((d1, w1), Ok ()))
    \<and> m_buf_addr m' = data_ptr pkt \<and> m_data_off m' = 0 \<and> m_data_len m' = n \<and> m_pkt_len m' = ucast n \<and> m_shinfo m' = Some sh
    \<and> (\<exists>ua c. get_l4_header size_UdpHeader pkt w = Done ua \<and> bs = write_udp ua ((read_udp ua (bytes w))\<lparr>udp_chksum := c\<rparr>) (bytes w))"
proof -
  from sd obtain io ea ia ua where p: "pkts w p = Some pkt" and n: "packet_len prof pkt = Done n" and io: "iova prof p w = Done io"
    and v: "get_l2_header size_EthHeader pkt w = Done ea" "get_l3_header size_Ipv4Header pkt w = Done ia"
      "get_l4_header size_UdpHeader pkt w = Done ua"
    and ty: "ether_decode (eth_ether_ty (read_eth ea (bytes w))) = Some EtIpv4" "proto_decode (ip_protocol (read_ipv4 ia (bytes w))) = Some UDP"
    unfolding sendable_def by blast
  let ?sh = "m_buf_addr m + unat (m_data_off m)" and ?pkt = "pkt\<lparr>p_thread_id := ctx_thread_id ctx\<rparr>"
  let ?w = "(set_pkt p ?pkt w)\<lparr>shinfos := (shinfos w)(?sh \<mapsto> \<lparr>fcb_opaque = p, sh_refcnt = 1\<rparr>)\<rparr>"
  have io': "iova prof p ?w = Done io" using iova_thread_id[OF p, of ?w] io by simp
  have n': "packet_len prof ?pkt = Done n" "data_ptr ?pkt = data_ptr pkt" using n by (simp_all add: packet_len_def data_ptr_def)
  note v' = views_thread_id[of ?w w]
  let ?fl = "((m_ol_flags m OR f_external api) OR (f_tx_ip_cksum api OR f_tx_ipv4 api)) OR f_tx_udp_cksum api"
  let ?m = "(fill_mbuf api ?sh ?pkt n io m)\<lparr>m_ol_flags := ?fl\<rparr>"
  let ?uh = "(read_udp ua (bytes w))\<lparr>udp_chksum := rte_ipv4_phdr_cksum api (read_ipv4 ia (bytes w)) ?fl\<rparr>"
  have "Dpdk_send fuel prof api ctx p d w =
      (let d1 = d\<lparr>tx_idx := Suc (tx_idx d)\<rparr>; w1 = queued_world p pkt (ctx_thread_id ctx) ?sh (tx_bufs d ! tx_idx d) ?m (write_udp ua ?uh (bytes w)) w in
       if tx_idx d1 = DPDK_BURST_SIZE then Dpdk_flush fuel prof api ctx d1 w1 else Done ((d1, w1), Ok ()))"
    using idx mb p n' io' v v' ty by (simp add: Dpdk_send_def Let_def fill_mbuf_def queued_world_def)
  moreover have "m_buf_addr ?m = data_ptr pkt \<and> m_data_off ?m = 0 \<and> m_data_len ?m = n \<and> m_pkt_len ?m = ucast n \<and> m_shinfo ?m = Some ?sh"
    using n' by (simp add: fill_mbuf_def)
  ultimately show ?thesis using v(3) by blast
qed

text \<open>Every \<^verbatim>\<open>send\<close> of a frame it can send returns, also the 64th, which flushes; the only error is a failed
  refill.\<close>

lemma send_total:
  assumes nic: "nic_laws api held wire" "nic_progress api" "nic_pool_laws api held avail"
    and wf: "dpdk_wf d" "distinct (tx_bufs d)" "set (tx_bufs d) \<subseteq> dom (mbufs w) - held (ext w)" "DPDK_BURST_SIZE \<le> fuel"
    and sd: "sendable prof p pkt w n" and ua: "get_l4_header size_UdpHeader pkt w = Done ua"
  shows "\<exists>d' w' r. Dpdk_send fuel prof api ctx p d w = Done ((d', w'), r)
    \<and> pkts w' = (pkts w)(p \<mapsto> pkt\<lparr>p_thread_id := ctx_thread_id ctx\<rparr>) \<and> (\<forall>x. x < ua \<or> ua + 8 \<le> x \<longrightarrow> bytes w' x = bytes w x)
    \<and> idle w' = idle w \<and> objhdrs w' = objhdrs w \<and> privs w' = privs w \<and> slots w' = slots w \<and> mempools w' = mempools w \<and> avail (ext w') = avail (ext w)
    \<and> (case r of Err e \<Rightarrow> e = MemoryError Exhausted
       | Ok _ \<Rightarrow> exchanged held d w d' w')"
proof -
  let ?mp = "tx_bufs d ! tx_idx d" and ?d = "d\<lparr>tx_idx := Suc (tx_idx d)\<rparr>"
  have idx: "tx_idx d < length (tx_bufs d)" using wf(1) by (simp add: dpdk_wf_def)
  then have mp: "?mp \<in> set (tx_bufs d)" by simp
  with wf(3) obtain m0 where m0: "mbufs w ?mp = Some m0" by blast
  from send_spec[where ctx = ctx and fuel = fuel and api = api, OF sd idx m0] ua obtain m sh c where
    snd: "Dpdk_send fuel prof api ctx p d w =
      (let w1 = queued_world p pkt (ctx_thread_id ctx) sh ?mp m (write_udp ua ((read_udp ua (bytes w))\<lparr>udp_chksum := c\<rparr>) (bytes w)) w in
       if Suc (tx_idx d) = DPDK_BURST_SIZE then Dpdk_flush fuel prof api ctx ?d w1 else Done ((?d, w1), Ok ()))"
    by (auto simp: Let_def)
  define w1 where "w1 = queued_world p pkt (ctx_thread_id ctx) sh ?mp m (write_udp ua ((read_udp ua (bytes w))\<lparr>udp_chksum := c\<rparr>) (bytes w)) w"
  have by1: "\<forall>x. x < ua \<or> ua + 8 \<le> x \<longrightarrow> bytes w1 x = bytes w x" using udp.wr_frame by (simp add: w1_def)
  have own1: "set (tx_bufs ?d) \<subseteq> dom (mbufs w1) - held (ext w1)" using wf(3) by (auto simp: w1_def)
  have k1: "keeps held w w1 {?mp} {?mp}" using mp wf(3) by (auto simp: keeps_def w1_def)
  show ?thesis
  proof (cases "Suc (tx_idx d) = DPDK_BURST_SIZE")
    case False
    have "exchanged held d w ?d w1"
      by (rule exchangedI[OF k1]) (use mp wf(1,2) False in \<open>auto simp: dpdk_wf_def\<close>)
    then show ?thesis
      using snd[folded w1_def] False by1 by (intro exI[of _ ?d] exI[of _ w1] exI[of _ "Ok ()"]) (simp add: w1_def)
  next
    case True
    have "length (tx_bufs ?d) = DPDK_BURST_SIZE" "tx_idx ?d \<le> DPDK_BURST_SIZE" "distinct (tx_bufs ?d)"
      using wf(1,2) True by (simp_all add: dpdk_wf_def)
    from flush_spec[OF nic(1,2) this own1 wf(4), of prof ctx] obtain d2 x mb r where
        fl: "Dpdk_flush fuel prof api ctx ?d w1 = Done ((d2, w1\<lparr>ext := x, mbufs := mb\<rparr>), r)"
      and er: "\<forall>e. r = Err e \<longrightarrow> e = MemoryError Exhausted"
      and ex: "r = Ok () \<Longrightarrow> exchanged held ?d w1 d2 (w1\<lparr>ext := x, mbufs := mb\<rparr>)" by blast
    let ?w2 = "w1\<lparr>ext := x, mbufs := mb\<rparr>"
    have av: "avail x = avail (ext w)" using flush_avail[OF nic(3) fl] by (simp add: w1_def)
    have "exchanged held d w d2 ?w2" if "r = Ok ()"
      by (rule exchanged_after[OF ex[OF that] _ _ _ own1]) (use mp in \<open>auto simp: w1_def\<close>)
    then show ?thesis using snd[folded w1_def] True fl av by1 er
      by (intro exI[of _ d2] exI[of _ ?w2] exI[of _ r]) (auto simp: w1_def split: result.splits)
  qed
qed

lemma send_flush_free:
  assumes nic: "nic_laws api held wire" "nic_progress api" "nic_pool_laws api held avail" and pool: "mempool_laws api avail"
    and wf: "dpdk_wf d" "distinct (tx_bufs d)" "set (tx_bufs d) \<subseteq> dom (mbufs w) - held (ext w)" "DPDK_BURST_SIZE \<le> fuel"
    and sd: "sendable prof p pkt w n" and obj: "pool_obj (ctx_thread_id ctx) p w" and one: "p_refcnt pkt = 1" "p_buf_ty pkt = Local"
  shows "\<exists>d1 w1 r1 d2 w2 r2 m sh w3. Dpdk_send fuel prof api ctx p d w = Done ((d1, w1), r1)
    \<and> r1 \<in> {Ok (), Err (MemoryError Exhausted)} \<and> (Suc (tx_idx d) < DPDK_BURST_SIZE \<longrightarrow> r1 = Ok ())
    \<and> Dpdk_flush fuel prof api ctx d1 w1 = Done ((d2, w2), r2)
    \<and> wire (ext w2) = wire (ext w) @ frames (d_port d) (d_queue d) (mbufs w) (take (tx_idx d) (tx_bufs d))
        @ [(d_port d, d_queue d, tx_bufs d ! tx_idx d, m)]
    \<and> m_buf_addr m = data_ptr pkt \<and> m_data_off m = 0 \<and> m_data_len m = n
    \<and> m_shinfo m = Some sh \<and> map_option fcb_opaque (shinfos w2 sh) = Some p
    \<and> packet_free_callback prof api p w2 = Done w3 \<and> avail (ext w3) = insert p (avail (ext w)) \<and> pkts w3 = (pkts w)(p := None)
    \<and> (\<exists>ua c. get_l4_header size_UdpHeader pkt w = Done ua \<and> bytes w2 = write_udp ua ((read_udp ua (bytes w))\<lparr>udp_chksum := c\<rparr>) (bytes w))"
proof -
  let ?mp = "tx_bufs d ! tx_idx d" and ?d = "d\<lparr>tx_idx := Suc (tx_idx d)\<rparr>"
  have idx: "tx_idx d < length (tx_bufs d)" using wf(1) by (simp add: dpdk_wf_def)
  then obtain m0 where m0: "mbufs w ?mp = Some m0" using wf(3) by (meson DiffD1 domD nth_mem subsetD)
  from send_spec[where ctx = ctx and fuel = fuel and api = api, OF sd idx m0] obtain m sh bs where
      snd0: "Dpdk_send fuel prof api ctx p d w = (let d1 = ?d; w1 = queued_world p pkt (ctx_thread_id ctx) sh ?mp m bs w in
       if tx_idx d1 = DPDK_BURST_SIZE then Dpdk_flush fuel prof api ctx d1 w1 else Done ((d1, w1), Ok ()))"
    and m: "m_buf_addr m = data_ptr pkt" "m_data_off m = 0" "m_data_len m = n" "m_shinfo m = Some sh"
    and bs: "\<exists>ua c. get_l4_header size_UdpHeader pkt w = Done ua \<and> bs = write_udp ua ((read_udp ua (bytes w))\<lparr>udp_chksum := c\<rparr>) (bytes w)"
    by blast
  define w1 where "w1 = queued_world p pkt (ctx_thread_id ctx) sh ?mp m bs w"
  have "length (tx_bufs ?d) = DPDK_BURST_SIZE" "tx_idx ?d \<le> DPDK_BURST_SIZE" "distinct (tx_bufs ?d)" "set (tx_bufs ?d) \<subseteq> dom (mbufs w1) - held (ext w1)"
    using wf by (auto simp: dpdk_wf_def w1_def)
  from flush_spec[OF nic(1,2) this wf(4), of prof ctx] obtain d2 x mb r where
      fl: "Dpdk_flush fuel prof api ctx ?d w1 = Done ((d2, w1\<lparr>ext := x, mbufs := mb\<rparr>), r)"
    and wr: "wire x = wire (ext w1) @ frames (d_port d) (d_queue d) (mbufs w1) (take (Suc (tx_idx d)) (tx_bufs d))"
    and d2: "tx_idx d2 = 0" and er: "\<forall>e. r = Err e \<longrightarrow> e = MemoryError Exhausted" by auto
  let ?w2 = "w1\<lparr>ext := x, mbufs := mb\<rparr>"
  have again: "Dpdk_flush fuel prof api ctx d2 ?w2 = Done ((d2, ?w2), Ok ())" using d2 by (simp add: Dpdk_flush_def)
  obtain d1 w1' r1 r2 where run: "Dpdk_send fuel prof api ctx p d w = Done ((d1, w1'), r1)"
      "r1 \<in> {Ok (), Err (MemoryError Exhausted)}" "Suc (tx_idx d) < DPDK_BURST_SIZE \<longrightarrow> r1 = Ok ()"
      "Dpdk_flush fuel prof api ctx d1 w1' = Done ((d2, ?w2), r2)"
  proof (cases "Suc (tx_idx d) = DPDK_BURST_SIZE")
    case True
    moreover have "r \<in> {Ok (), Err (MemoryError Exhausted)}" using er by (cases r) auto
    ultimately show ?thesis using that[OF _ _ _ again] snd0[folded w1_def] fl by simp
  next
    case False
    then show ?thesis using that[OF _ _ _ fl] snd0[folded w1_def] by simp
  qed
  have "?mp \<notin> set (take (tx_idx d) (tx_bufs d))"
    using wf(2) idx by (metis distinct_take id_take_nth_drop not_distinct_conv_prefix)
  then have fr: "frames (d_port d) (d_queue d) (mbufs w1) (take (Suc (tx_idx d)) (tx_bufs d)) =
      frames (d_port d) (d_queue d) (mbufs w) (take (tx_idx d) (tx_bufs d)) @ [(d_port d, d_queue d, ?mp, m)]"
    using idx by (auto simp: frames_def w1_def take_Suc_conv_app_nth)
  have av: "avail x = avail (ext w)" using flush_avail[OF nic(3) fl] by (simp add: w1_def)
  let ?pkt = "pkt\<lparr>p_thread_id := ctx_thread_id ctx\<rparr>"
  have "pool_obj (ctx_thread_id ctx) p ?w2" using obj pool_obj_cong[of ?w2 w] by (simp add: w1_def)
  from deallocate_last[OF pool this, of ?pkt prof] one av obtain x' where
    "PacketPool_deallocate prof api p (ctx_thread_id ctx) ?w2 = Done (given_back p ?pkt (?w2\<lparr>ext := x'\<rparr>))" "avail x' = insert p (avail (ext w))"
    by (auto simp: w1_def buf_live_def)
  moreover from this(1) have "packet_free_callback prof api p ?w2 = Done (given_back p ?pkt (?w2\<lparr>ext := x'\<rparr>))"
    by (simp add: packet_free_callback_def w1_def)
  ultimately have cb: "\<exists>w3. packet_free_callback prof api p ?w2 = Done w3 \<and> avail (ext w3) = insert p (avail (ext w)) \<and> pkts w3 = (pkts w)(p := None)"
    by (simp add: w1_def)
  have sh: "map_option fcb_opaque (shinfos ?w2 sh) = Some p" and by2: "bytes ?w2 = bs" by (simp_all add: w1_def)
  have wr2: "wire (ext ?w2) = wire (ext w) @ frames (d_port d) (d_queue d) (mbufs w) (take (tx_idx d) (tx_bufs d))
        @ [(d_port d, d_queue d, ?mp, m)]" using wr[unfolded fr] by (simp add: w1_def)
  show ?thesis using run wr2 m sh cb bs[folded by2] by blast
qed

text \<open>\<^verbatim>\<open>send\<close> never reports \<^verbatim>\<open>Dropped\<close>, the value by which the I/O node says that it has taken a packet.\<close>

lemma Dpdk_send_takes: "send_takes (dpdk_ops fuel prof api pa)"
proof -
  have fl: "Dpdk_flush fuel prof api ctx d w \<noteq> Done ((d', w'), Err Dropped)" for ctx d w d' w'
    by (auto simp: Dpdk_flush_def Let_def andthen_eq_Done split: option.splits prod.splits)
  have "Dpdk_send fuel prof api ctx p d w \<noteq> Done ((d', w'), Err Dropped)" for ctx p d w d' w'
    using fl by (auto simp: Dpdk_send_def Let_def andthen_eq_Done split: option.splits ether_type.splits ipv4_proto.splits if_splits)
  then show ?thesis by (simp add: send_takes_def dpdk_ops_def)
qed

text \<open>C33. The life of a sent packet.  A UDP packet given to \<^verbatim>\<open>send\<close>, whose bytes lie in its own buffer and
  to which there is one reference, is queued behind the frames already there; once the queue has been flushed, by \<^verbatim>\<open>send\<close> itself when the packet is the
  64th or by the next \<^verbatim>\<open>flush\<close> otherwise, the frames queued before it and then this packet have been appended to the wire, the packet as one frame
  of its length that starts at its data, and the frame's shared info names the packet.  When the NIC is done with the
  frame and runs \<^verbatim>\<open>packet_free_callback\<close> on it, the packet, and only it, is back in its pool and no longer in use.  The only error
  \<^verbatim>\<open>send\<close> can report is that of a refill without free buffers, after it has flushed.  The NIC is one that takes at least
  one frame of every burst, so that the flush ends; DPDK does not promise that.\<close>

theorem dpdk_send_lifecycle:
  assumes nic: "nic_laws api held wire" "nic_progress api" "nic_pool_laws api held avail" and pool: "mempool_laws api avail"
    and wf: "dpdk_wf d" "distinct (tx_bufs d)" "set (tx_bufs d) \<subseteq> dom (mbufs w) - held (ext w)" "DPDK_BURST_SIZE \<le> fuel"
    and sd: "sendable prof p pkt w n" and obj: "pool_obj (ctx_thread_id ctx) p w" and one: "p_refcnt pkt = 1" "p_buf_ty pkt = Local"
  shows "\<exists>d1 w1 r1 d2 w2 r2 m sh w3. Dpdk_send fuel prof api ctx p d w = Done ((d1, w1), r1)
    \<and> r1 \<in> {Ok (), Err (MemoryError Exhausted)} \<and> (Suc (tx_idx d) < DPDK_BURST_SIZE \<longrightarrow> r1 = Ok ())
    \<and> Dpdk_flush fuel prof api ctx d1 w1 = Done ((d2, w2), r2)
    \<and> wire (ext w2) = wire (ext w) @ frames (d_port d) (d_queue d) (mbufs w) (take (tx_idx d) (tx_bufs d))
        @ [(d_port d, d_queue d, tx_bufs d ! tx_idx d, m)]
    \<and> m_buf_addr m = data_ptr pkt \<and> m_data_off m = 0 \<and> m_data_len m = n
    \<and> m_shinfo m = Some sh \<and> map_option fcb_opaque (shinfos w2 sh) = Some p
    \<and> packet_free_callback prof api p w2 = Done w3 \<and> avail (ext w3) = insert p (avail (ext w)) \<and> pkts w3 = (pkts w)(p := None)"
  using send_flush_free[OF assms] by blast


text \<open>Only one port can be used.  The once-guard of \<^verbatim>\<open>init\<close> is one for the process: once an adapter's \<^verbatim>\<open>init\<close>
  has returned, with success or an error, \<^verbatim>\<open>init\<close> of an adapter for a port whose mbuf pool does not exist
  yet skips the \<^verbatim>\<open>port_init\<close> that would create it, and the lookup of the pool panics.\<close>

lemma dpdk_init_second_port:
  assumes "Dpdk_init api pa ctx nic port num_queues queue d w = Done ((d1, w1), r)"
    and "rte_mempool_lookup api (pool_name port') (ext w1) = None"
  shows "Dpdk_init api pa ctx' nic' port' num_queues' queue' d' w1 = Panic"
proof -
  have "port_ready w1" using Dpdk_init_ready[OF assms(1)] .
  then show ?thesis using assms(2) by (simp add: Dpdk_init_def)
qed

end
