(* ===== verification/Net_Modules.thy ===== *)
theory Net_Modules
  imports Packet Config
begin

text \<open>
  The protocol modules: \<^verbatim>\<open>modules/udp.rs\<close>, \<^verbatim>\<open>modules/ipv4.rs\<close>, \<^verbatim>\<open>modules/eth.rs\<close> and the user node
  \<^verbatim>\<open>user.rs\<close>.  Each \<^verbatim>\<open>process\<close> is a function from the packet's address and the world to the new world and
  the module's result.  The locale \<open>tx_layer\<close> is what a sending layer promises (it moves the packet's
  start down by its header, writes nothing outside that header and keeps everything else); the three
  senders are interpretations, and two layers in sequence are again one.  The closing section is the
  frame the whole send path builds.
\<close>

type_synonym 'x step = "('x world \<times> (unit, error) result) outcome"

section \<open>UDP\<close>

definition UdpSender_process :: "profile \<Rightarrow> ptr \<Rightarrow> 'x world \<Rightarrow> 'x step" where
  "UdpSender_process prof p w =
     andthen (deref_pkt p w) (\<lambda>pkt.
     andthen (sub_chk prof (p_offset pkt) (of_nat size_UdpHeader)) (\<lambda>off.
     let pkt1 = pkt\<lparr>p_offset := off, l4_header := \<lparr>h_length = of_nat size_UdpHeader, h_offset = off\<rparr>\<rparr> in
     andthen (get_l4_header size_UdpHeader pkt1 w) (\<lambda>a.
     andthen (packet_len prof pkt1) (\<lambda>n.
     let h = (read_udp a (bytes w))\<lparr>udp_src := bswap 80, udp_dst := bswap 81, udp_len := bswap n\<rparr>
     in Done (set_pkt p pkt1 (w\<lparr>bytes := write_udp a h (bytes w)\<rparr>), Ok ())))))"

definition UdpReceiver_process :: "profile \<Rightarrow> ptr \<Rightarrow> 'x world \<Rightarrow> 'x step" where
  "UdpReceiver_process prof p w =
     andthen (deref_pkt p w) (\<lambda>pkt.
     andthen (add_chk prof (p_offset pkt) (of_nat size_UdpHeader)) (\<lambda>off.
     Done (set_pkt p (pkt\<lparr>l4_header := \<lparr>h_length = of_nat size_UdpHeader, h_offset = p_offset pkt\<rparr>,
       p_offset := off\<rparr>) w, Ok ())))"

section \<open>Ethernet\<close>

definition EthSender_process :: "profile \<Rightarrow> ptr \<Rightarrow> 'x world \<Rightarrow> 'x step" where
  "EthSender_process prof p w =
     andthen (deref_pkt p w) (\<lambda>pkt.
     andthen (sub_chk prof (p_offset pkt) (of_nat size_EthHeader)) (\<lambda>off.
     let pkt1 = pkt\<lparr>l2_header := \<lparr>h_length = of_nat size_EthHeader, h_offset = off\<rparr>, p_offset := off\<rparr> in
     andthen (get_l2_header size_EthHeader pkt1 w) (\<lambda>a.
     let h = (read_eth a (bytes w))\<lparr>eth_dst := MacAddr_from_bytes [0x02, 0, 0, 0, 0, 0],
               eth_ether_ty := ether_code EtIpv4\<rparr>
     in Done (set_pkt p pkt1 (w\<lparr>bytes := write_eth a h (bytes w)\<rparr>), Ok ()))))"

definition EthReceiver_process :: "profile \<Rightarrow> ptr \<Rightarrow> 'x world \<Rightarrow> 'x step" where
  "EthReceiver_process prof p w =
     andthen (deref_pkt p w) (\<lambda>pkt.
     andthen (add_chk prof (p_offset pkt) (of_nat size_EthHeader)) (\<lambda>off.
     Done (set_pkt p (pkt\<lparr>l2_header := \<lparr>h_length = of_nat size_EthHeader, h_offset = p_offset pkt\<rparr>,
       p_offset := off\<rparr>) w, Ok ())))"

section \<open>IPv4\<close>

definition ROUTE_TABLE_CAP :: nat where "ROUTE_TABLE_CAP = 10"

definition Ipv4Sender_new :: "route list" where "Ipv4Sender_new = []"

text \<open>\<^verbatim>\<open>Ipv4Sender::init\<close>: the routes of the stack are appended to the bounded table.\<close>

definition Ipv4Sender_init :: "config_manager \<Rightarrow> Context \<Rightarrow> route list \<Rightarrow> (route list \<times> (unit, error) result) outcome" where
  "Ipv4Sender_init cfg ctx table =
     andthen (unwrap (get_stack_config cfg (ctx_stack_name ctx))) (\<lambda>sc.
     if length table + length (sc_routes sc) \<le> ROUTE_TABLE_CAP
     then Done (table @ sc_routes sc, Ok ()) else Panic)"

fun route_loop :: "route list \<Rightarrow> u32 \<Rightarrow> u8 \<Rightarrow> u16 option \<Rightarrow> u16 option" where
  "route_loop [] dst max_cidr dst_nic = dst_nic"
| "route_loop (r # rs) dst max_cidr dst_nic =
     (if matches r dst \<and> rt_cidr r > max_cidr then route_loop rs dst (rt_cidr r) (Some (rt_nic r))
      else route_loop rs dst max_cidr dst_nic)"

definition IP_SRC :: u32 where "IP_SRC = from_le [192, 168, 10, 1]"
definition IP_DST :: u32 where "IP_DST = from_le [192, 168, 10, 2]"

definition Ipv4Sender_process :: "profile \<Rightarrow> route list \<Rightarrow> ptr \<Rightarrow> 'x world \<Rightarrow> 'x step" where
  "Ipv4Sender_process prof table p w =
     andthen (deref_pkt p w) (\<lambda>pkt.
     let nic = (case route_loop table IP_DST 0 None of Some n \<Rightarrow> n | None \<Rightarrow> 0) in
     andthen (sub_chk prof (p_offset pkt) (of_nat size_Ipv4Header)) (\<lambda>off.
     let pkt1 = pkt\<lparr>p_nic := nic, p_offset := off,
                  l3_header := \<lparr>h_length = of_nat size_Ipv4Header, h_offset = off\<rparr>\<rparr> in
     andthen (get_l3_header size_Ipv4Header pkt1 w) (\<lambda>a.
     andthen (set_version prof 4 (read_ipv4 a (bytes w))) (\<lambda>h1.
     andthen (set_ihl prof (drop_bit 2 (of_nat size_Ipv4Header)) h1) (\<lambda>h2.
     andthen (packet_len prof pkt1) (\<lambda>n.
     let h = h2\<lparr>ip_tot_len := bswap n, ip_protocol := proto_code UDP, ip_ttl := 255, ip_src := IP_SRC,
                ip_dst := IP_DST, ip_tos := 0, ip_id := 0, ip_frag_off := 0, ip_cksum := 0\<rparr>
     in Done (set_pkt p pkt1 (w\<lparr>bytes := write_ipv4 a h (bytes w)\<rparr>), Ok ())))))))"

definition Ipv4Receiver_process :: "profile \<Rightarrow> 'x dpdk_api \<Rightarrow> Context \<Rightarrow> ptr \<Rightarrow> 'x world \<Rightarrow> 'x step" where
  "Ipv4Receiver_process prof api ctx p w =
     andthen (deref_pkt p w) (\<lambda>pkt.
     andthen (parse_at size_Ipv4Header pkt w) (\<lambda>a.
     let ipv4 = read_ipv4 a (bytes w);
         pkt1 = pkt\<lparr>l3_header := \<lparr>h_length = ucast (push_bit 2 (ihl ipv4)), h_offset = p_offset pkt\<rparr>\<rparr> in
     andthen (set_len prof (ipv4_len ipv4) pkt1) (\<lambda>pkt2.
     andthen (add_chk prof (p_offset pkt2) (h_length (l3_header pkt2))) (\<lambda>off.
     let w1 = set_pkt p (pkt2\<lparr>p_offset := off\<rparr>) w in
     if ihl ipv4 < 5 \<or> ip_ttl ipv4 = 0
     then andthen (PacketPool_deallocate prof api p (ctx_thread_id ctx) w1) (\<lambda>w2. Done (w2, Err Dropped))
     else Done (w1, Ok ())))))"

section \<open>The user node\<close>

definition USER_BURST_SIZE :: nat where "USER_BURST_SIZE = 32"

definition UserNode_new :: "ptr list" where
  "UserNode_new = replicate USER_BURST_SIZE 0"

definition UserNode_process :: "profile \<Rightarrow> 'x dpdk_api \<Rightarrow> Context \<Rightarrow> ptr \<Rightarrow> 'x world \<Rightarrow> 'x step" where
  "UserNode_process prof api ctx p w =
     andthen (PacketPool_deallocate prof api p (ctx_thread_id ctx) w) (\<lambda>w1. Done (w1, Err Dropped))"

text \<open>The loop over the fresh packets, last one first: each becomes the head of the chain.\<close>

fun user_fill :: "profile \<Rightarrow> ptr list \<Rightarrow> ptr option \<Rightarrow> 'x world \<Rightarrow> ('x world \<times> ptr option) outcome" where
  "user_fill prof [] ret w = Done (w, ret)"
| "user_fill prof (p # ps) ret w =
     andthen (deref_pkt p w) (\<lambda>pkt.
     andthen (set_len prof (64 - 28)
        (pkt\<lparr>p_data := p + packet_buf_off, p_buf_ty := Local, p_offset := ucast DEFAULT_OFFSET\<rparr>)) (\<lambda>pkt1.
     user_fill prof ps (Some p) (set_pkt p (pkt1\<lparr>p_nic := 0, p_next := ret\<rparr>) w)))"

definition UserNode_poll ::
  "profile \<Rightarrow> 'x dpdk_api \<Rightarrow> Context \<Rightarrow> ptr list \<Rightarrow> 'x world
     \<Rightarrow> ((ptr list \<times> 'x world) \<times> (ptr, error) result) outcome" where
  "UserNode_poll prof api ctx rx_queue w =
     andthen (allocate_many api (ctx_pktpool ctx) (of_nat USER_BURST_SIZE) (length rx_queue) w) (\<lambda>(w1, r).
     case r of Err e \<Rightarrow> Done ((rx_queue, w1), Err (MemoryError e))
     | Ok objs \<Rightarrow>
       let q = objs @ drop (length objs) rx_queue in
       andthen (user_fill prof (rev q) None w1) (\<lambda>(w2, ret).
       case ret of Some p \<Rightarrow> Done ((q, w2), Ok p) | None \<Rightarrow> Undef))"

section \<open>The contract of a sending layer\<close>

definition tx_frame :: "nat \<Rightarrow> packet \<Rightarrow> packet \<Rightarrow> bool" where
  "tx_frame hsize pkt pkt' \<longleftrightarrow>
     unat (p_offset pkt') = unat (p_offset pkt) - hsize \<and> p_len pkt' = p_len pkt \<and> p_data pkt' = p_data pkt \<and>
     p_buf_ty pkt' = p_buf_ty pkt \<and> p_refcnt pkt' = p_refcnt pkt \<and> p_next pkt' = p_next pkt"

definition tx_ready :: "nat \<Rightarrow> packet \<Rightarrow> 'x world \<Rightarrow> bool" where
  "tx_ready hsize pkt w \<longleftrightarrow> hsize \<le> unat (p_offset pkt) \<and> p_offset pkt \<le> p_len pkt
     \<and> unat (p_offset pkt) \<le> buf_extent w pkt"

locale tx_layer =
  fixes process :: "profile \<Rightarrow> ptr \<Rightarrow> 'x world \<Rightarrow> 'x step" and hsize :: nat
  assumes tx: "pkts w p = Some pkt \<Longrightarrow> tx_ready hsize pkt w \<Longrightarrow>
    \<exists>pkt' m. process prof p w = Done (set_pkt p pkt' (w\<lparr>bytes := m\<rparr>), Ok ()) \<and> tx_frame hsize pkt pkt' \<and>
      (\<forall>x. x < p_data pkt + unat (p_offset pkt') \<or> p_data pkt + unat (p_offset pkt) \<le> x \<longrightarrow> m x = bytes w x)"
begin

lemma tx_payload:
  assumes "pkts w p = Some pkt" and "tx_ready hsize pkt w" and "process prof p w = Done (w', r)"
  shows "r = Ok () \<and> load_bytes (data_ptr pkt) n (bytes w') = load_bytes (data_ptr pkt) n (bytes w)"
  using tx[OF assms(1,2), of prof] assms(3) by (auto simp: load_bytes_def data_ptr_def)

lemma tx_length:
  assumes "pkts w p = Some pkt" and "tx_ready hsize pkt w"
  shows "\<exists>w' pkt' n n'. process prof p w = Done (w', Ok ()) \<and> pkts w' p = Some pkt'
    \<and> packet_len prof pkt = Done n \<and> packet_len prof pkt' = Done n' \<and> unat n' = unat n + hsize"
proof -
  from tx[OF assms, of prof] obtain pkt' m where
      st: "process prof p w = Done (set_pkt p pkt' (w\<lparr>bytes := m\<rparr>), Ok ())" and fr: "tx_frame hsize pkt pkt'" by blast
  have le: "p_offset pkt \<le> p_len pkt" "p_offset pkt' \<le> p_len pkt'"
    using assms(2) fr by (auto simp: tx_ready_def tx_frame_def word_le_nat_alt)
  have "unat (p_len pkt' - p_offset pkt') = unat (p_len pkt - p_offset pkt) + hsize"
    using le fr assms(2) by (auto simp: unat_sub tx_frame_def tx_ready_def word_le_nat_alt)
  then show ?thesis using st le by (auto simp: packet_len_def sub_chk_fits)
qed

end

definition seq_process :: "(profile \<Rightarrow> ptr \<Rightarrow> 'x world \<Rightarrow> 'x step) \<Rightarrow> (profile \<Rightarrow> ptr \<Rightarrow> 'x world \<Rightarrow> 'x step)
    \<Rightarrow> profile \<Rightarrow> ptr \<Rightarrow> 'x world \<Rightarrow> 'x step" where
  "seq_process f g prof p w = qmark (f prof p w) (\<lambda>w1 _. g prof p w1)"

locale tx_layers = upper: tx_layer uproc uh + lower: tx_layer lproc lh
  for uproc :: "profile \<Rightarrow> ptr \<Rightarrow> 'x world \<Rightarrow> 'x step" and uh
    and lproc :: "profile \<Rightarrow> ptr \<Rightarrow> 'x world \<Rightarrow> 'x step" and lh
begin

lemma layers_compose:
  assumes "pkts w p = Some pkt" and "tx_ready (uh + lh) pkt w"
  shows "\<exists>pkt' m. seq_process uproc lproc prof p w = Done (set_pkt p pkt' (w\<lparr>bytes := m\<rparr>), Ok ())
    \<and> tx_frame (uh + lh) pkt pkt' \<and>
      (\<forall>x. x < p_data pkt + unat (p_offset pkt') \<or> p_data pkt + unat (p_offset pkt) \<le> x \<longrightarrow> m x = bytes w x)"
proof -
  have "tx_ready uh pkt w" using assms(2) by (simp add: tx_ready_def)
  from upper.tx[OF assms(1) this, of prof] obtain pk1 m1 where
      st1: "uproc prof p w = Done (set_pkt p pk1 (w\<lparr>bytes := m1\<rparr>), Ok ())" and fr1: "tx_frame uh pkt pk1"
    and out1: "\<And>x. x < p_data pkt + unat (p_offset pk1) \<or> p_data pkt + unat (p_offset pkt) \<le> x \<Longrightarrow> m1 x = bytes w x"
    by blast
  let ?w1 = "set_pkt p pk1 (w\<lparr>bytes := m1\<rparr>)"
  have "buf_extent ?w1 pk1 = buf_extent w pkt" using fr1 by (intro buf_extent_cong) (simp_all add: tx_frame_def)
  then have "tx_ready lh pk1 ?w1"
    using assms(2) fr1 by (auto simp: tx_ready_def tx_frame_def word_le_nat_alt)
  from lower.tx[OF _ this, of p prof] obtain pk2 m2 where
      st2: "lproc prof p ?w1 = Done (set_pkt p pk2 (?w1\<lparr>bytes := m2\<rparr>), Ok ())" and fr2: "tx_frame lh pk1 pk2"
    and out2: "\<And>x. x < p_data pk1 + unat (p_offset pk2) \<or> p_data pk1 + unat (p_offset pk1) \<le> x \<Longrightarrow> m2 x = m1 x"
    by auto
  have "seq_process uproc lproc prof p w = Done (set_pkt p pk2 (w\<lparr>bytes := m2\<rparr>), Ok ())"
    using st1 st2 by (simp add: seq_process_def set_pkt_def)
  moreover have "tx_frame (uh + lh) pkt pk2" using fr1 fr2 by (simp add: tx_frame_def)
  moreover have "m2 x = bytes w x"
    if "x < p_data pkt + unat (p_offset pk2) \<or> p_data pkt + unat (p_offset pkt) \<le> x" for x
  proof -
    have "m2 x = m1 x" "m1 x = bytes w x"
      using that fr1 fr2 assms(2) by (auto simp: tx_frame_def tx_ready_def intro!: out1 out2)
    then show ?thesis by simp
  qed
  ultimately show ?thesis by blast
qed

end

sublocale tx_layers \<subseteq> both: tx_layer "seq_process uproc lproc" "uh + lh"
  by unfold_locales (rule layers_compose)

lemma tx_ready_off:
  assumes "tx_ready h pkt w" and "h < 2 ^ 16"
  shows "sub_chk prof (p_offset pkt) (of_nat h) = Done (p_offset pkt - of_nat h)"
    and "unat (p_offset pkt - of_nat h) = unat (p_offset pkt) - h"
    and "p_offset pkt - of_nat h \<le> p_len pkt"
proof -
  have h: "unat (of_nat h :: u16) = h" using assms(2) by (intro unat_of_nat_small) simp
  then have le: "of_nat h \<le> p_offset pkt" using assms(1) by (simp add: tx_ready_def word_le_nat_alt)
  then show "sub_chk prof (p_offset pkt) (of_nat h) = Done (p_offset pkt - of_nat h)" by (rule sub_chk_fits)
  show u: "unat (p_offset pkt - of_nat h) = unat (p_offset pkt) - h" using unat_sub[OF le] h by simp
  then show "p_offset pkt - of_nat h \<le> p_len pkt" using assms(1) by (auto simp: tx_ready_def word_le_nat_alt)
qed

lemma tx_ready_view:
  assumes "tx_ready h pkt w" and "h < 2 ^ 16" and "p_buf_ty pkt1 = p_buf_ty pkt" and "p_data pkt1 = p_data pkt"
  shows "header_at h (p_offset pkt - of_nat h) pkt1 w = Done (p_data pkt + (unat (p_offset pkt) - h))"
  using assms tx_ready_off(2)[OF assms(1,2)] buf_extent_cong[OF assms(3) refl, of w]
  by (simp add: tx_ready_def)

lemma UdpSender_eq:
  assumes "pkts w p = Some pkt" and "tx_ready 8 pkt w"
  shows "UdpSender_process prof p w =
    (let off = p_offset pkt - 8; a = p_data pkt + (unat (p_offset pkt) - 8) in
     Done (set_pkt p (pkt\<lparr>p_offset := off, l4_header := \<lparr>h_length = 8, h_offset = off\<rparr>\<rparr>)
       (w\<lparr>bytes := write_udp a ((read_udp a (bytes w))\<lparr>udp_src := bswap 80, udp_dst := bswap 81,
          udp_len := bswap (p_len pkt - off)\<rparr>) (bytes w)\<rparr>), Ok ()))"
  using assms tx_ready_off[OF assms(2)] tx_ready_view[OF assms(2)]
  by (simp add: UdpSender_process_def view_defs packet_len_def sub_chk_fits Let_def)

lemma EthSender_eq:
  assumes "pkts w p = Some pkt" and "tx_ready 14 pkt w"
  shows "EthSender_process prof p w =
    (let off = p_offset pkt - 14; a = p_data pkt + (unat (p_offset pkt) - 14) in
     Done (set_pkt p (pkt\<lparr>l2_header := \<lparr>h_length = 14, h_offset = off\<rparr>, p_offset := off\<rparr>)
       (w\<lparr>bytes := write_eth a ((read_eth a (bytes w))\<lparr>eth_dst := MacAddr [2, 0, 0, 0, 0, 0],
          eth_ether_ty := ether_code EtIpv4\<rparr>) (bytes w)\<rparr>), Ok ()))"
  using assms tx_ready_off[OF assms(2)] tx_ready_view[OF assms(2)]
  by (simp add: EthSender_process_def view_defs MacAddr_from_bytes_def Let_def)

text \<open>The header byte the IPv4 sender leaves: the old byte with version and length or-ed in.\<close>

definition sent_ipv4 :: "u16 \<Rightarrow> ipv4_header \<Rightarrow> ipv4_header" where
  "sent_ipv4 n h = h\<lparr>ip_version_ihl := ip_version_ihl h OR 0x54, ip_tot_len := bswap n,
     ip_protocol := proto_code UDP, ip_ttl := 255, ip_src := IP_SRC, ip_dst := IP_DST, ip_tos := 0, ip_id := 0,
     ip_frag_off := 0, ip_cksum := 0\<rparr>"

definition route_nic :: "route list \<Rightarrow> u16" where
  "route_nic table = (case route_loop table IP_DST 0 None of Some n \<Rightarrow> n | None \<Rightarrow> 0)"

lemma Ipv4Sender_eq:
  assumes "pkts w p = Some pkt" and "tx_ready 20 pkt w"
  shows "Ipv4Sender_process prof table p w =
    (let off = p_offset pkt - 20; a = p_data pkt + (unat (p_offset pkt) - 20) in
     Done (set_pkt p (pkt\<lparr>p_nic := route_nic table, p_offset := off, l3_header := \<lparr>h_length = 20, h_offset = off\<rparr>\<rparr>)
       (w\<lparr>bytes := write_ipv4 a (sent_ipv4 (p_len pkt - off) (read_ipv4 a (bytes w))) (bytes w)\<rparr>), Ok ()))"
  using assms tx_ready_off[OF assms(2)] tx_ready_view[OF assms(2)]
  by (simp add: Ipv4Sender_process_def view_defs packet_len_def sub_chk_fits Let_def set_version_def set_ihl_def
      sent_ipv4_def route_nic_def or.assoc)

lemma wf_eth_sent [simp]:
  "wf_eth ((read_eth a m)\<lparr>eth_dst := MacAddr [2, 0, 0, 0, 0, 0], eth_ether_ty := t\<rparr>)"
  using eth.rd_ok[of a m] by (simp add: wf_eth_def)

interpretation udp_tx: tx_layer UdpSender_process size_UdpHeader
proof (unfold_locales, goal_cases)
  case (1 w p pkt prof)
  then show ?case using tx_ready_off(2)[of 8 pkt w]
    by (auto simp: UdpSender_eq Let_def tx_frame_def tx_ready_def intro!: exI udp.wr_frame)
qed

interpretation eth_tx: tx_layer EthSender_process size_EthHeader
proof (unfold_locales, goal_cases)
  case (1 w p pkt prof)
  then show ?case using tx_ready_off(2)[of 14 pkt w]
    by (auto simp: EthSender_eq Let_def tx_frame_def tx_ready_def intro!: exI eth.wr_frame)
qed

interpretation ipv4_tx: tx_layer "\<lambda>prof. Ipv4Sender_process prof table" size_Ipv4Header
  for table
proof (unfold_locales, goal_cases)
  case (1 w p pkt prof)
  then show ?case using tx_ready_off(2)[of 20 pkt w]
    by (auto simp: Ipv4Sender_eq Let_def tx_frame_def tx_ready_def intro!: exI ipv4.wr_frame)
qed

section \<open>The send path\<close>

interpretation udp_ipv4_tx: tx_layers UdpSender_process size_UdpHeader
    "\<lambda>prof. Ipv4Sender_process prof table" size_Ipv4Header
  for table
  by unfold_locales

interpretation udp_ipv4_eth_tx: tx_layers
    "seq_process UdpSender_process (\<lambda>prof. Ipv4Sender_process prof table)" "size_UdpHeader + size_Ipv4Header"
    EthSender_process size_EthHeader
  for table
  by unfold_locales

text \<open>The three senders in the order the shipped graph links them.\<close>

definition tx_path :: "route list \<Rightarrow> profile \<Rightarrow> ptr \<Rightarrow> 'x world \<Rightarrow> 'x step" where
  "tx_path table = seq_process (seq_process UdpSender_process (\<lambda>prof. Ipv4Sender_process prof table)) EthSender_process"

lemma tx_ready_after:
  assumes "tx_ready (h + k) pkt w" and "h < 2 ^ 16" and "p_offset pkt' = p_offset pkt - of_nat h"
    and "p_len pkt' = p_len pkt" and "p_buf_ty pkt' = p_buf_ty pkt" and "mbufs w' = mbufs w"
  shows "tx_ready k pkt' w'"
proof -
  have "tx_ready h pkt w" using assms(1) by (simp add: tx_ready_def)
  note off = tx_ready_off(2,3)[OF this assms(2)]
  show ?thesis using assms off buf_extent_cong[OF assms(5,6)] by (auto simp: tx_ready_def word_le_nat_alt)
qed

text \<open>The bytes and the packet the three senders leave, for a payload of \<open>n\<close> bytes at \<open>a\<close>.\<close>

definition udp_sent :: "u16 \<Rightarrow> udp_header \<Rightarrow> udp_header" where
  "udp_sent n h = h\<lparr>udp_src := bswap 80, udp_dst := bswap 81, udp_len := bswap n\<rparr>"

definition eth_sent :: "eth_header \<Rightarrow> eth_header" where
  "eth_sent h = h\<lparr>eth_dst := MacAddr [2, 0, 0, 0, 0, 0], eth_ether_ty := ether_code EtIpv4\<rparr>"

definition tx_bytes :: "u16 \<Rightarrow> nat \<Rightarrow> mem \<Rightarrow> mem" where
  "tx_bytes n a m =
     write_eth (a - 42) (eth_sent (read_eth (a - 42) m))
       (write_ipv4 (a - 28) (sent_ipv4 (n + 28) (read_ipv4 (a - 28) m))
         (write_udp (a - 8) (udp_sent (n + 8) (read_udp (a - 8) m)) m))"

definition tx_packet :: "route list \<Rightarrow> packet \<Rightarrow> packet" where
  "tx_packet table pkt = pkt\<lparr>p_offset := p_offset pkt - 42, p_nic := route_nic table,
     l2_header := \<lparr>h_length = 14, h_offset = p_offset pkt - 42\<rparr>,
     l3_header := \<lparr>h_length = 20, h_offset = p_offset pkt - 28\<rparr>,
     l4_header := \<lparr>h_length = 8, h_offset = p_offset pkt - 8\<rparr>\<rparr>"

lemma tx_path_eq:
  assumes pkt: "pkts w p = Some pkt" and ready: "tx_ready 42 pkt w"
  shows "tx_path table prof p w = Done (set_pkt p (tx_packet table pkt)
    (w\<lparr>bytes := tx_bytes (p_len pkt - p_offset pkt) (data_ptr pkt) (bytes w)\<rparr>), Ok ())"
proof -
  define n a where "n = p_len pkt - p_offset pkt" and "a = data_ptr pkt"
  have off: "42 \<le> unat (p_offset pkt)" using ready by (simp add: tx_ready_def)
  have o8: "unat (p_offset pkt - 8) = unat (p_offset pkt) - 8" and o28: "unat (p_offset pkt - 28) = unat (p_offset pkt) - 28"
    using off by (simp_all add: unat_sub word_le_nat_alt)
  have aa: "a - 8 = p_data pkt + (unat (p_offset pkt) - 8)" "a - 28 = p_data pkt + (unat (p_offset pkt) - 28)"
    "a - 42 = p_data pkt + (unat (p_offset pkt) - 42)" "42 \<le> a" using off by (simp_all add: a_def data_ptr_def)
  define hu where "hu = udp_sent (n + 8) (read_udp (a - 8) (bytes w))"
  define m1 where "m1 = write_udp (a - 8) hu (bytes w)"
  define hi where "hi = sent_ipv4 (n + 28) (read_ipv4 (a - 28) (bytes w))"
  define m2 where "m2 = write_ipv4 (a - 28) hi m1"
  define p1 where "p1 = pkt\<lparr>p_offset := p_offset pkt - 8, l4_header := \<lparr>h_length = 8, h_offset = p_offset pkt - 8\<rparr>\<rparr>"
  define p2 where "p2 = p1\<lparr>p_nic := route_nic table, p_offset := p_offset pkt - 28, l3_header := \<lparr>h_length = 20, h_offset = p_offset pkt - 28\<rparr>\<rparr>"
  note ps = p1_def p2_def
  have n8: "p_len pkt - (p_offset pkt - 8) = n + 8" and n28: "p_len pkt - (p_offset pkt - 28) = n + 28"
    by (simp_all add: n_def)
  have i1: "read_ipv4 (a - 28) m1 = read_ipv4 (a - 28) (bytes w)"
    using udp_ipv4.lower_after_upper[where h = hu and a = "a - 28" and b = "a - 8" and m = "bytes w"] aa(4)
    by (simp add: m1_def)
  have i2: "read_eth (a - 42) m2 = read_eth (a - 42) (bytes w)"
    using udp_eth.lower_after_upper[where h = hu and a = "a - 42" and b = "a - 8" and m = "bytes w"]
      ipv4_eth.lower_after_upper[where h = hi and a = "a - 42" and b = "a - 28" and m = m1] aa(4)
    by (simp add: m1_def m2_def)
  have "tx_ready 8 pkt w" using ready by (simp add: tx_ready_def)
  from UdpSender_eq[OF pkt this, of prof]
  have s1: "UdpSender_process prof p w = Done (set_pkt p p1 (w\<lparr>bytes := m1\<rparr>), Ok ())"
    by (simp add: Let_def ps m1_def hu_def udp_sent_def n8 flip: aa(1-3))
  let ?w1 = "set_pkt p p1 (w\<lparr>bytes := m1\<rparr>)"
  have "tx_ready 20 p1 ?w1" and r34: "tx_ready 34 p1 ?w1"
    using tx_ready_after[of 8 34 pkt w p1 ?w1] ready by (simp_all add: ps tx_ready_def)
  from Ipv4Sender_eq[OF _ this(1), of p prof table]
  have s2: "Ipv4Sender_process prof table p ?w1 = Done (set_pkt p p2 (?w1\<lparr>bytes := m2\<rparr>), Ok ())"
    by (simp add: Let_def m2_def hi_def i1 n28 o8 ps flip: aa(1-3))
  let ?w2 = "set_pkt p p2 (?w1\<lparr>bytes := m2\<rparr>)"
  have "tx_ready 14 p2 ?w2" using tx_ready_after[of 20 14 p1 ?w1 p2 ?w2] r34 by (simp add: ps)
  moreover have "p2\<lparr>l2_header := \<lparr>h_length = 14, h_offset = p_offset pkt - 42\<rparr>, p_offset := p_offset pkt - 42\<rparr> = tx_packet table pkt"
    by (rule packet.equality) (simp_all add: tx_packet_def ps)
  ultimately have "EthSender_process prof p ?w2 = Done (set_pkt p (tx_packet table pkt)
      (?w2\<lparr>bytes := write_eth (a - 42) (eth_sent (read_eth (a - 42) (bytes w))) m2\<rparr>), Ok ())"
    using EthSender_eq[of ?w2 p p2 prof] by (simp add: Let_def ps eth_sent_def i2 o28 flip: aa(1-3))
  then show ?thesis using s1 s2
    by (simp add: tx_path_def seq_process_def set_pkt_def tx_bytes_def m2_def m1_def hi_def hu_def flip: n_def a_def)
qed

lemma tx_bytes_read:
  assumes "42 \<le> a"
  shows "read_eth (a - 42) (tx_bytes n a m) = eth_sent (read_eth (a - 42) m)"
    and "read_ipv4 (a - 28) (tx_bytes n a m) = sent_ipv4 (n + 28) (read_ipv4 (a - 28) m)"
    and "read_udp (a - 8) (tx_bytes n a m) = udp_sent (n + 8) (read_udp (a - 8) m)"
    and "a \<le> b \<Longrightarrow> load_bytes b k (tx_bytes n a m) = load_bytes b k m"
proof -
  define he where "he = eth_sent (read_eth (a - 42) m)"
  define hi where "hi = sent_ipv4 (n + 28) (read_ipv4 (a - 28) m)"
  define hu where "hu = udp_sent (n + 8) (read_udp (a - 8) m)"
  define m1 where "m1 = write_udp (a - 8) hu m"
  define m2 where "m2 = write_ipv4 (a - 28) hi m1"
  have tx: "tx_bytes n a m = write_eth (a - 42) he m2" by (simp add: tx_bytes_def he_def hi_def hu_def m1_def m2_def)
  have wf: "wf_eth he" by (simp add: he_def eth_sent_def)
  show "read_eth (a - 42) (tx_bytes n a m) = eth_sent (read_eth (a - 42) m)"
    unfolding tx using eth.rd_wr[OF wf] by (simp add: he_def)
  show "read_ipv4 (a - 28) (tx_bytes n a m) = sent_ipv4 (n + 28) (read_ipv4 (a - 28) m)"
    using ipv4_eth.upper_after_lower[OF wf, of "a - 42" "a - 28" m2] assms
    unfolding tx by (simp add: m2_def ipv4.rd_wr hi_def)
  show "read_udp (a - 8) (tx_bytes n a m) = udp_sent (n + 8) (read_udp (a - 8) m)"
    using udp_eth.upper_after_lower[OF wf, of "a - 42" "a - 8" m2] assms
      udp_ipv4.upper_after_lower[where h = hi and b = "a - 28" and a = "a - 8" and m = m1]
    unfolding tx by (simp add: m2_def m1_def udp.rd_wr hu_def)
  show "load_bytes b k (tx_bytes n a m) = load_bytes b k m" if "a \<le> b"
  proof -
    have le: "a - 42 + 14 \<le> b" "a - 28 + 20 \<le> b" "a - 8 + 8 \<le> b" using that assms by linarith+
    show ?thesis
      using eth.wr_bytes[OF wf, of b k "a - 42" m2] le(1)
        ipv4.wr_bytes[where h = hi and a = b and n = k and b = "a - 28" and m = m1] le(2)
        udp.wr_bytes[where h = hu and a = b and n = k and b = "a - 8" and m = m] le(3)
      unfolding tx m2_def m1_def by simp
  qed
qed

text \<open>C12. The send path builds the frame.  From a packet with 42 bytes of headroom the chain
  \<^verbatim>\<open>UdpSender\<close>, \<^verbatim>\<open>Ipv4Sender\<close>, \<^verbatim>\<open>EthSender\<close> never panics and never leaves the buffer, in either profile;
  the packet ends up 42 bytes lower on the NIC the route table selects, the three headers lie one after
  the other with the lengths of what follows them, and the payload is untouched.\<close>

theorem tx_path_frame:
  assumes pkt: "pkts w p = Some pkt" and ready: "tx_ready 42 pkt w"
    and n: "n = p_len pkt - p_offset pkt" and a: "a = p_data pkt + unat (p_offset pkt)"
  shows "\<exists>w' pkt'. tx_path table prof p w = Done (w', Ok ()) \<and> pkts w' p = Some pkt'
    \<and> unat (p_offset pkt') = unat (p_offset pkt) - 42 \<and> p_len pkt' = p_len pkt \<and> p_nic pkt' = route_nic table
    \<and> l2_header pkt' = \<lparr>h_length = 14, h_offset = p_offset pkt - 42\<rparr>
    \<and> l3_header pkt' = \<lparr>h_length = 20, h_offset = p_offset pkt - 28\<rparr>
    \<and> l4_header pkt' = \<lparr>h_length = 8, h_offset = p_offset pkt - 8\<rparr>
    \<and> read_eth (a - 42) (bytes w') =
        (read_eth (a - 42) (bytes w))\<lparr>eth_dst := MacAddr [2, 0, 0, 0, 0, 0], eth_ether_ty := ether_code EtIpv4\<rparr>
    \<and> read_ipv4 (a - 28) (bytes w') = sent_ipv4 (n + 28) (read_ipv4 (a - 28) (bytes w))
    \<and> read_udp (a - 8) (bytes w') =
        (read_udp (a - 8) (bytes w))\<lparr>udp_src := bswap 80, udp_dst := bswap 81, udp_len := bswap (n + 8)\<rparr>
    \<and> load_bytes a k (bytes w') = load_bytes a k (bytes w)"
proof -
  have off: "42 \<le> unat (p_offset pkt)" using ready by (simp add: tx_ready_def)
  then have o42: "unat (p_offset pkt - 42) = unat (p_offset pkt) - 42"
    by (simp add: unat_sub word_le_nat_alt)
  show ?thesis
    using tx_path_eq[OF pkt ready, of table prof] tx_bytes_read[where a = a and n = n and m = "bytes w"] off
    by (simp add: tx_packet_def o42 eth_sent_def udp_sent_def data_ptr_def n a)
qed

end
