(* ===== verification/Net_Paths.thy ===== *)
theory Net_Paths
  imports Net_Modules
begin

text \<open>
  What the modules of \<^verbatim>\<open>Net_Modules\<close> do together: the route the IPv4 sender picks, the burst the user
  node produces and that it is fit for sending, the receive path from a frame to its payload, and the
  two ends put against each other.
\<close>

section \<open>The route table\<close>

definition best_route :: "route list \<Rightarrow> u32 \<Rightarrow> nat \<Rightarrow> bool" where
  "best_route rs dst i \<longleftrightarrow> i < length rs \<and> matches (rs ! i) dst \<and>
     (\<forall>j<length rs. matches (rs ! j) dst \<longrightarrow> rt_cidr (rs ! j) \<le> rt_cidr (rs ! i)) \<and>
     (\<forall>j<i. matches (rs ! j) dst \<longrightarrow> rt_cidr (rs ! j) < rt_cidr (rs ! i))"

lemma best_route_skip:
  assumes "best_route rs dst i" and "matches r dst \<Longrightarrow> rt_cidr r < rt_cidr (rs ! i)"
  shows "best_route (r # rs) dst (Suc i)"
  using assms by (auto simp: best_route_def All_less_Suc2 less_imp_le)

lemma best_route_head:
  assumes "matches r dst" and "\<forall>x\<in>set rs. matches x dst \<longrightarrow> rt_cidr x \<le> rt_cidr r"
  shows "best_route (r # rs) dst 0"
  using assms by (auto simp: best_route_def All_less_Suc2)

lemma route_loop_cases:
  "(route_loop rs dst mx nic = nic \<and> (\<forall>r\<in>set rs. matches r dst \<longrightarrow> rt_cidr r \<le> mx)) \<or>
   (\<exists>i. best_route rs dst i \<and> mx < rt_cidr (rs ! i) \<and> route_loop rs dst mx nic = Some (rt_nic (rs ! i)))"
proof (induction rs arbitrary: mx nic)
  case Nil
  then show ?case by simp
next
  case (Cons r rs)
  show ?case
  proof (cases "matches r dst \<and> mx < rt_cidr r")
    case True
    from Cons.IH[of "rt_cidr r" "Some (rt_nic r)"] show ?thesis
    proof (elim disjE exE conjE)
      assume "route_loop rs dst (rt_cidr r) (Some (rt_nic r)) = Some (rt_nic r)"
        and le: "\<forall>x\<in>set rs. matches x dst \<longrightarrow> rt_cidr x \<le> rt_cidr r"
      then show ?thesis using True best_route_head[of r dst rs] by (intro disjI2 exI[of _ 0]) simp
    next
      fix i assume "best_route rs dst i" "rt_cidr r < rt_cidr (rs ! i)"
        "route_loop rs dst (rt_cidr r) (Some (rt_nic r)) = Some (rt_nic (rs ! i))"
      then show ?thesis using True best_route_skip[of rs dst i r] by (intro disjI2 exI[of _ "Suc i"]) auto
    qed
  next
    case False
    from Cons.IH[of mx nic] show ?thesis
    proof (elim disjE exE conjE)
      assume "route_loop rs dst mx nic = nic" "\<forall>x\<in>set rs. matches x dst \<longrightarrow> rt_cidr x \<le> mx"
      then show ?thesis using False by (intro disjI1) auto
    next
      fix i assume "best_route rs dst i" "mx < rt_cidr (rs ! i)" "route_loop rs dst mx nic = Some (rt_nic (rs ! i))"
      then show ?thesis using False best_route_skip[of rs dst i r] by (intro disjI2 exI[of _ "Suc i"]) force
    qed
  qed
qed

text \<open>C38. The sender's route choice.  It is the NIC of the first route of greatest prefix length among
  those that match the destination; only when no route of positive prefix length matches is it NIC 0.
  So a default route (prefix length 0) is never used, whatever NIC it names.\<close>

theorem route_choice:
  "(\<exists>i. best_route table IP_DST i \<and> 0 < rt_cidr (table ! i) \<and> route_nic table = rt_nic (table ! i)) \<or>
   (route_nic table = 0 \<and> (\<forall>r\<in>set table. matches r IP_DST \<longrightarrow> rt_cidr r = 0))"
  using route_loop_cases[of table IP_DST 0 None] by (auto simp: route_nic_def)

definition demo_routes :: "route list" where
  "demo_routes = [\<lparr>rt_ip = 0, rt_cidr_mask = 0, rt_nic = 5, rt_cidr = 0\<rparr>]"

theorem route_choice_witness:
  "matches (demo_routes ! 0) IP_DST \<and> rt_nic (demo_routes ! 0) = 5 \<and> route_nic demo_routes = 0"
proof -
  have "matches (demo_routes ! 0) IP_DST \<and> rt_nic (demo_routes ! 0) = 5"
    by (simp add: demo_routes_def matches_def)
  moreover have "route_nic demo_routes = 0"
    using route_choice[of demo_routes] by (auto simp: best_route_def demo_routes_def)
  ultimately show ?thesis by blast
qed

section \<open>The user node\<close>

definition user_pkt :: "ptr \<Rightarrow> ptr option \<Rightarrow> packet \<Rightarrow> packet" where
  "user_pkt p nxt pkt = pkt\<lparr>p_data := p + 64, p_buf_ty := Local, p_offset := 64, p_len := 100, p_nic := 0, p_next := nxt\<rparr>"

lemma buf_off: "packet_buf_off = 64" "ucast DEFAULT_OFFSET = (64 :: u16)"
  by (simp_all add: packet_buf_off_def packet_fields_def align_up_def DEFAULT_OFFSET_def)

lemma user_fill_step:
  "pkts w p = Some pkt \<Longrightarrow>
   user_fill prof (p # ps) ret w = user_fill prof ps (Some p) (set_pkt p (user_pkt p ret pkt) w)"
  by (simp add: set_len_def add_chk_def user_pkt_def buf_off)

text \<open>The packets of a burst: those already in the chain are filled, the others are still as allocated.\<close>

definition filled :: "packet \<Rightarrow> ptr \<Rightarrow> bool" where
  "filled pkt p \<longleftrightarrow> p_data pkt = p + 64 \<and> p_buf_ty pkt = Local \<and> p_offset pkt = 64 \<and> p_len pkt = 100
     \<and> p_nic pkt = 0 \<and> p_refcnt pkt = 1"

lemma user_fill_chain:
  assumes "distinct (ps @ done)" and "\<forall>p\<in>set ps. \<exists>pkt. pkts w p = Some pkt \<and> p_refcnt pkt = 1"
    and "chain w ret done" and "\<forall>p\<in>set done. \<exists>pkt. pkts w p = Some pkt \<and> filled pkt p"
  shows "\<exists>w' ret'. user_fill prof ps ret w = Done (w', ret') \<and> chain w' ret' (rev ps @ done)
    \<and> (\<forall>p\<in>set (rev ps @ done). \<exists>pkt. pkts w' p = Some pkt \<and> filled pkt p)
    \<and> w' = w\<lparr>pkts := pkts w'\<rparr> \<and> (\<forall>q. q \<notin> set ps \<longrightarrow> pkts w' q = pkts w q)"
  using assms
proof (induction ps arbitrary: w ret "done")
  case Nil
  then show ?case by simp
next
  case (Cons p ps)
  then obtain pkt where p: "pkts w p = Some pkt" "p_refcnt pkt = 1" by auto
  let ?w = "set_pkt p (user_pkt p ret pkt) w"
  have "chain ?w (Some p) (p # done)" using Cons.prems(1,3) by (simp add: chain_set_pkt user_pkt_def)
  moreover have "filled (user_pkt p ret pkt) p" using p by (simp add: filled_def user_pkt_def)
  ultimately have "\<exists>w' ret'. user_fill prof ps (Some p) ?w = Done (w', ret') \<and> chain w' ret' (rev ps @ p # done)
    \<and> (\<forall>q\<in>set (rev ps @ p # done). \<exists>pkt. pkts w' q = Some pkt \<and> filled pkt q) \<and> w' = ?w\<lparr>pkts := pkts w'\<rparr>
    \<and> (\<forall>q. q \<notin> set ps \<longrightarrow> pkts w' q = pkts ?w q)"
    using Cons.prems(1,2,4) by (intro Cons.IH) auto
  then show ?case unfolding user_fill_step[OF p(1)] by (auto simp: set_pkt_def)
qed

lemma filled_ready: "filled pkt p \<Longrightarrow> tx_ready 42 pkt w \<and> packet_len prof pkt = Done 36"
  by (simp add: filled_def tx_ready_def buf_extent_def PACKET_BUF_SIZE_def MTU_def DEFAULT_OFFSET_def
      packet_len_def sub_chk_def)

lemma UserNode_poll_ok:
  assumes alloc: "allocate_many api (ctx_pktpool ctx) 32 (length q) w = Done (w1, Ok objs)" and q: "length q = 32"
    and objs: "distinct objs" "length objs = 32" "\<forall>p\<in>set objs. \<exists>pkt. pkts w1 p = Some pkt \<and> p_refcnt pkt = 1"
  shows "\<exists>w2. UserNode_poll prof api ctx q w = Done ((objs, w2), Ok (hd objs)) \<and> chain w2 (Some (hd objs)) objs
    \<and> (\<forall>p\<in>set objs. \<exists>pkt. pkts w2 p = Some pkt \<and> filled pkt p) \<and> w2 = w1\<lparr>pkts := pkts w2\<rparr>
    \<and> (\<forall>p. p \<notin> set objs \<longrightarrow> pkts w2 p = pkts w1 p)"
proof -
  have "\<exists>w2 ret. user_fill prof (rev objs) None w1 = Done (w2, ret) \<and> chain w2 ret (rev (rev objs) @ [])
    \<and> (\<forall>p\<in>set (rev (rev objs) @ []). \<exists>pkt. pkts w2 p = Some pkt \<and> filled pkt p) \<and> w2 = w1\<lparr>pkts := pkts w2\<rparr>
    \<and> (\<forall>p. p \<notin> set (rev objs) \<longrightarrow> pkts w2 p = pkts w1 p)"
    using objs by (intro user_fill_chain) auto
  then obtain w2 ret where fill: "user_fill prof (rev objs) None w1 = Done (w2, ret)" and ch: "chain w2 ret objs"
    and rest: "\<forall>p\<in>set objs. \<exists>pkt. pkts w2 p = Some pkt \<and> filled pkt p" "w2 = w1\<lparr>pkts := pkts w2\<rparr>"
      "\<forall>p. p \<notin> set objs \<longrightarrow> pkts w2 p = pkts w1 p"
    by auto
  have "ret = Some (hd objs)" using ch objs(2) by (cases objs) auto
  then show ?thesis
    using alloc fill ch rest q objs(2) by (simp add: UserNode_poll_def USER_BURST_SIZE_def)
qed

text \<open>C28. A burst of the user node.  When the pool is exhausted the poll fails with the memory error and
  touches no packet; otherwise it returns the first of 32 distinct packets, chained in allocation order
  and ended by null, none of which was in use before, each of reference count one, 36 bytes long at offset 64 of its
  own buffer, and so with the headroom the send path needs.\<close>

theorem user_poll_burst:
  assumes laws: "mempool_laws api avail" and ok: "free_ok avail w" and q: "length q = 32"
    and alloc: "allocate_many api (ctx_pktpool ctx) 32 (length q) w = Done (w1, r)"
  shows "case r of
      Err e \<Rightarrow> UserNode_poll prof api ctx q w = Done ((q, w1), Err (MemoryError e)) \<and> w1 = w\<lparr>ext := ext w1\<rparr>
    | Ok objs \<Rightarrow> \<exists>w2. UserNode_poll prof api ctx q w = Done ((objs, w2), Ok (hd objs))
        \<and> length objs = 32 \<and> distinct objs \<and> chain w2 (Some (hd objs)) objs
        \<and> (\<forall>p\<in>set objs. p \<notin> avail (ext w2) \<and> pkts w p = None \<and>
             (\<exists>pkt. pkts w2 p = Some pkt \<and> p_refcnt pkt = 1 \<and> tx_ready 42 pkt w2
             \<and> packet_len prof pkt = Done 36 \<and> p_offset pkt = 64 \<and> p_data pkt = p + packet_buf_off \<and> p_buf_ty pkt = Local))"
proof (cases r)
  case (Ok objs)
  note al = free_ok_allocate[OF laws ok alloc[unfolded allocate_many_def]]
  then have o: "distinct objs" "length objs = 32" "\<forall>p\<in>set objs. \<exists>pkt. pkts w1 p = Some pkt \<and> p_refcnt pkt = 1"
    and av: "avail (ext w1) = avail (ext w) - set objs" and new: "\<forall>p\<in>set objs. pkts w p = None"
    by (auto simp: Ok)
  from UserNode_poll_ok[OF alloc[unfolded Ok] q o, of prof] obtain w2 where
      poll: "UserNode_poll prof api ctx q w = Done ((objs, w2), Ok (hd objs))" "chain w2 (Some (hd objs)) objs"
    and fill: "\<forall>p\<in>set objs. \<exists>pkt. pkts w2 p = Some pkt \<and> filled pkt p" and w2: "w2 = w1\<lparr>pkts := pkts w2\<rparr>" by blast
  have "ext w2 = ext w1" by (subst w2) simp
  then have out: "\<forall>p\<in>set objs. p \<notin> avail (ext w2)" using av by simp
  have "p \<notin> avail (ext w2) \<and> pkts w p = None \<and> (\<exists>pkt. pkts w2 p = Some pkt \<and> p_refcnt pkt = 1 \<and> tx_ready 42 pkt w2
      \<and> packet_len prof pkt = Done 36 \<and> p_offset pkt = 64 \<and> p_data pkt = p + packet_buf_off \<and> p_buf_ty pkt = Local)"
    if p: "p \<in> set objs" for p
  proof -
    from fill p obtain pkt where f: "pkts w2 p = Some pkt" "filled pkt p" by blast
    then show ?thesis using out new p filled_ready[OF f(2), of w2 prof] by (simp add: filled_def buf_off)
  qed
  then show ?thesis unfolding Ok result.case using poll o(1,2) by (intro exI[of _ w2] conjI ballI) simp_all
next
  case (Err e)
  then show ?thesis
    using alloc free_ok_allocate[OF laws ok alloc[unfolded allocate_many_def]]
    by (simp add: UserNode_poll_def USER_BURST_SIZE_def)
qed

text \<open>A pool of 32 packets, for the witness.\<close>

definition burst_objs :: "ptr list" where
  "burst_objs = map (\<lambda>i. 1664 * i) [1..<33]"

definition burst_world :: "sim world" where
  "burst_world = (one_packet_world 1 burst_objs)\<lparr>
     pkts := Map.empty, idle := (\<lambda>p. if p \<in> set burst_objs then Some blank_packet else None)\<rparr>"

definition demo_ctx :: Context where
  "demo_ctx = \<lparr>ctx_pktpool = \<lparr>pp_mp = 64, pp_thread_id = 0\<rparr>, ctx_cpu = 0, ctx_worker_id = 0, ctx_thread_id = 0,
     ctx_graph_id = 0, ctx_stack_name = ''UdpStack''\<rparr>"

lemma burst_objs_props: "distinct burst_objs" "length burst_objs = 32"
  by (simp_all add: burst_objs_def distinct_map inj_on_def)

theorem user_poll_burst_witness:
  "\<exists>w2. UserNode_poll Debug sim_api demo_ctx UserNode_new burst_world = Done ((burst_objs, w2), Ok 1664)
    \<and> chain w2 (Some 1664) burst_objs"
proof -
  have ok: "free_ok (\<lambda>x. set (sim_free x)) burst_world"
    by (simp add: free_ok_def burst_world_def one_packet_defs blank_packet_def)
  have q: "length UserNode_new = 32" by (simp add: UserNode_new_def USER_BURST_SIZE_def)
  have "take 32 burst_objs = burst_objs" "remdups burst_objs = burst_objs"
    by (simp_all add: burst_objs_props distinct_remdups_id)
  then obtain w1 where
    al: "allocate_many sim_api (ctx_pktpool demo_ctx) 32 (length UserNode_new) burst_world = Done (w1, Ok burst_objs)"
    unfolding q allocate_many_def
    by (simp add: MemoryPool_allocate_def get_cache_def deref_pool_def read_slot_def demo_ctx_def burst_world_def
        one_packet_defs slot_addr_def sim_api_def Let_def burst_objs_props)
  have "hd burst_objs = 1664" by (simp add: burst_objs_def upt_conv_Cons)
  then show ?thesis
    using user_poll_burst[OF sim_mempool_laws ok q al, of Debug] by auto
qed

theorem tx_path_frame_witness:
  "\<exists>w'. tx_path demo_routes Debug 1024 (set_pkt 1024 (user_pkt 1024 None blank_packet) (sim_world sim_init))
      = Done (w', Ok ())
    \<and> udp_len (read_udp 1144 (bytes w')) = bswap 44
    \<and> load_bytes 1152 36 (bytes w') = load_bytes 1152 36 (\<lambda>_. 0)"
proof -
  let ?pkt = "user_pkt 1024 None blank_packet"
  let ?w = "set_pkt 1024 ?pkt (sim_world sim_init)"
  have "pkts ?w 1024 = Some ?pkt" by simp
  moreover have "tx_ready 42 ?pkt ?w" by (rule filled_ready[THEN conjunct1]) (simp add: filled_def user_pkt_def blank_packet_def)
  moreover have "36 = p_len ?pkt - p_offset ?pkt" and "1152 = p_data ?pkt + unat (p_offset ?pkt)"
    by (simp_all add: user_pkt_def)
  ultimately show ?thesis
    using tx_path_frame[of ?w 1024 ?pkt 36 1152 demo_routes Debug 36] by (auto simp: sim_world_def)
qed

section \<open>The receive path\<close>

definition rx_path :: "'x dpdk_api \<Rightarrow> Context \<Rightarrow> profile \<Rightarrow> ptr \<Rightarrow> 'x world \<Rightarrow> 'x step" where
  "rx_path api ctx = seq_process
     (seq_process EthReceiver_process (\<lambda>prof. Ipv4Receiver_process prof api ctx)) UdpReceiver_process"

lemma EthReceiver_eq:
  assumes "pkts w p = Some pkt" and "unat (p_offset pkt) + 14 < 2 ^ 16"
  shows "EthReceiver_process prof p w = Done (set_pkt p (pkt\<lparr>l2_header := \<lparr>h_length = 14, h_offset = p_offset pkt\<rparr>,
       p_offset := p_offset pkt + 14\<rparr>) w, Ok ())"
  using assms by (simp add: EthReceiver_process_def add_chk_fits)

lemma UdpReceiver_eq:
  assumes "pkts w p = Some pkt" and "unat (p_offset pkt) + 8 < 2 ^ 16"
  shows "UdpReceiver_process prof p w = Done (set_pkt p (pkt\<lparr>l4_header := \<lparr>h_length = 8, h_offset = p_offset pkt\<rparr>,
       p_offset := p_offset pkt + 8\<rparr>) w, Ok ())"
  using assms by (simp add: UdpReceiver_process_def add_chk_fits)

text \<open>The length of the IPv4 header on the wire, in bytes.\<close>

definition ip_hlen :: "ipv4_header \<Rightarrow> nat" where
  "ip_hlen h = 4 * unat (ihl h)"

lemma ihl_bound: "unat (ihl h) \<le> 15"
proof -
  have "ihl h \<le> 15" unfolding ihl_def by (rule word_and_le1)
  then show ?thesis by (simp add: word_le_nat_alt)
qed

lemma ip_hlen_bound: "ip_hlen h \<le> 60"
  using ihl_bound[of h] by (simp add: ip_hlen_def)

lemma ip_hlen_u16: "unat (ucast (push_bit 2 (ihl h)) :: u16) = ip_hlen h"
proof -
  have "unat (push_bit 2 (ihl h)) = ip_hlen h"
    using ihl_bound[of h] unfolding ip_hlen_def
    by (simp add: push_bit_eq_mult unat_word_ariths)
  then show ?thesis using ip_hlen_bound[of h]
    by (simp add: unsigned_ucast_eq take_bit_nat_eq_self)
qed

definition ipv4_taken :: "ipv4_header \<Rightarrow> packet \<Rightarrow> packet" where
  "ipv4_taken h pkt = pkt\<lparr>l3_header := \<lparr>h_length = of_nat (ip_hlen h), h_offset = p_offset pkt\<rparr>,
     p_len := ipv4_len h + p_offset pkt, p_offset := p_offset pkt + of_nat (ip_hlen h)\<rparr>"

text \<open>The sums of a debug build that the receiver computes from the header.\<close>

definition ipv4_fits :: "profile \<Rightarrow> ipv4_header \<Rightarrow> packet \<Rightarrow> bool" where
  "ipv4_fits prof h pkt \<longleftrightarrow> prof = Release \<or>
     unat (ipv4_len h) + unat (p_offset pkt) < 2 ^ 16 \<and> unat (p_offset pkt) + ip_hlen h < 2 ^ 16"

lemma Ipv4Receiver_cases:
  assumes "pkts w p = Some pkt" and "unat (p_offset pkt) + 20 \<le> buf_extent w pkt" and h: "h = read_ipv4 (data_ptr pkt) (bytes w)"
  shows "Ipv4Receiver_process prof api ctx p w =
    (if ipv4_fits prof h pkt
     then let w1 = set_pkt p (ipv4_taken h pkt) w in
       if ihl h < 5 \<or> ip_ttl h = 0
       then andthen (PacketPool_deallocate prof api p (ctx_thread_id ctx) w1) (\<lambda>w2. Done (w2, Err Dropped))
       else Done (w1, Ok ())
     else Panic)"
proof -
  have hl: "ucast (push_bit 2 (ihl h)) = (of_nat (ip_hlen h) :: u16)"
    using ip_hlen_u16[of h] ip_hlen_bound[of h]
    unfolding word_unat_eq_iff by (simp add: unat_of_nat_small)
  have ul: "unat (of_nat (ip_hlen h) :: u16) = ip_hlen h" using ip_hlen_u16[of h] hl by simp
  have "header_at 20 (p_offset pkt) pkt w = Done (data_ptr pkt)" using assms(2) by (simp add: data_ptr_def)
  then show ?thesis
    unfolding Ipv4Receiver_process_def using assms(1)
    by (cases prof) (simp_all add: parse_at_def Let_def set_len_def add_chk_def hl ul ipv4_taken_def ipv4_fits_def
        del: header_at_Done flip: h)
qed

lemma Ipv4Receiver_eq:
  assumes "pkts w p = Some pkt" and "unat (p_offset pkt) + 20 \<le> buf_extent w pkt" and "h = read_ipv4 (data_ptr pkt) (bytes w)"
    and "ipv4_fits prof h pkt"
  shows "Ipv4Receiver_process prof api ctx p w =
    (let w1 = set_pkt p (ipv4_taken h pkt) w in
     if ihl h < 5 \<or> ip_ttl h = 0
     then andthen (PacketPool_deallocate prof api p (ctx_thread_id ctx) w1) (\<lambda>w2. Done (w2, Err Dropped))
     else Done (w1, Ok ()))"
  using Ipv4Receiver_cases[OF assms(1-3), of prof api ctx] assms(4) by simp

text \<open>C11. The receive path strips a frame.  For a frame whose Ethernet header and first 20 bytes of IPv4 header lie in
  the buffer, with a header length of at least five words, headers that end before offset 65536 and a positive time to live, the three receivers succeed
  without touching a byte, unless the build is a debug build and the end of the packet that the IPv4 header announces does
  not fit in 16 bits: then they panic, because the announced length is used unchecked.  When they succeed they note where
  each header starts, advance the offset past the Ethernet header, the IPv4 header with its options and the UDP header,
  and the packet's length is what the IPv4 header announces less the IPv4 and UDP headers; when it announces less than
  these, reading the length panics in a debug build and wraps around in a release build.\<close>

theorem rx_path_strips:
  assumes pkt: "pkts w p = Some pkt" and ext: "unat (p_offset pkt) + 34 \<le> buf_extent w pkt"
    and h: "h = read_ipv4 (data_ptr pkt + 14) (bytes w)" and ok: "5 \<le> ihl h" "ip_ttl h \<noteq> 0"
    and off: "unat (p_offset pkt) + 14 + ip_hlen h + 8 < 2 ^ 16"
  shows "if prof = Debug \<and> 2 ^ 16 \<le> unat (p_offset pkt) + 14 + unat (ipv4_len h) then rx_path api ctx prof p w = Panic
    else \<exists>pkt'. rx_path api ctx prof p w = Done (set_pkt p pkt' w, Ok ())
      \<and> unat (p_offset pkt') = unat (p_offset pkt) + 14 + ip_hlen h + 8
      \<and> h_offset (l2_header pkt') = p_offset pkt \<and> h_length (l2_header pkt') = 14
      \<and> h_offset (l3_header pkt') = p_offset pkt + 14 \<and> unat (h_length (l3_header pkt')) = ip_hlen h
      \<and> unat (h_offset (l4_header pkt')) = unat (p_offset pkt) + 14 + ip_hlen h \<and> h_length (l4_header pkt') = 8
      \<and> (if ip_hlen h + 8 \<le> unat (ipv4_len h) then \<exists>n. packet_len prof pkt' = Done n \<and> unat n = unat (ipv4_len h) - ip_hlen h - 8
         else packet_len prof pkt' = (if prof = Debug then Panic else Done (ipv4_len h - of_nat (ip_hlen h + 8))))
      \<and> p_refcnt pkt' = p_refcnt pkt \<and> p_next pkt' = p_next pkt \<and> p_data pkt' = p_data pkt \<and> p_buf_ty pkt' = p_buf_ty pkt"
proof -
  define o1 where "o1 = p_offset pkt + 14"
  define o2 where "o2 = o1 + of_nat (ip_hlen h)"
  define p1 where "p1 = pkt\<lparr>l2_header := \<lparr>h_length = 14, h_offset = p_offset pkt\<rparr>, p_offset := o1\<rparr>"
  define p3 where "p3 = (ipv4_taken h p1)\<lparr>l4_header := \<lparr>h_length = 8, h_offset = o2\<rparr>, p_offset := o2 + 8\<rparr>"
  have hl: "unat (of_nat (ip_hlen h) :: u16) = ip_hlen h" using ip_hlen_bound[of h] by (intro unat_of_nat_small) simp
  have u1: "unat o1 = unat (p_offset pkt) + 14" unfolding o1_def using off by (subst unat_add_fits) simp_all
  have u2: "unat o2 = unat (p_offset pkt) + 14 + ip_hlen h" unfolding o2_def using off u1 hl by (subst unat_add_fits) simp_all
  have u3: "unat (o2 + 8) = unat (p_offset pkt) + 14 + ip_hlen h + 8" using off u2 by (subst unat_add_fits) simp_all
  have s1: "EthReceiver_process prof p w = Done (set_pkt p p1 w, Ok ())"
    using off by (simp add: EthReceiver_eq[OF pkt] p1_def o1_def)
  have hd: "h = read_ipv4 (data_ptr p1) (bytes (set_pkt p p1 w))"
    by (simp add: h data_ptr_def p1_def u1 add.assoc)
  have bx: "buf_extent (set_pkt p p1 w) p1 = buf_extent w pkt" by (rule buf_extent_cong) (simp_all add: p1_def)
  have "\<not> ihl h < 5" using ok(1) by (simp add: not_less)
  then have s2: "Ipv4Receiver_process prof api ctx p (set_pkt p p1 w) =
      (if ipv4_fits prof h p1 then Done (set_pkt p (ipv4_taken h p1) w, Ok ()) else Panic)"
    using Ipv4Receiver_cases[OF _ _ hd, of p prof api ctx] bx ext u1 ok(2)
    by (simp add: p1_def Let_def set_pkt_def)
  have s3: "UdpReceiver_process prof p (set_pkt p (ipv4_taken h p1) w) = Done (set_pkt p p3 w, Ok ())"
    using UdpReceiver_eq[of "set_pkt p (ipv4_taken h p1) w" p "ipv4_taken h p1" prof] off u2
    by (simp add: ipv4_taken_def p3_def p1_def o2_def set_pkt_def)
  have path: "rx_path api ctx prof p w = (if ipv4_fits prof h p1 then Done (set_pkt p p3 w, Ok ()) else Panic)"
    using s1 s2 s3 by (simp add: rx_path_def seq_process_def)
  have fits: "ipv4_fits prof h p1 \<longleftrightarrow> \<not> (prof = Debug \<and> 2 ^ 16 \<le> unat (p_offset pkt) + 14 + unat (ipv4_len h))"
    using off u1 by (cases prof) (auto simp: ipv4_fits_def p1_def)
  have len: "if ip_hlen h + 8 \<le> unat (ipv4_len h) then \<exists>n. packet_len prof p3 = Done n \<and> unat n = unat (ipv4_len h) - ip_hlen h - 8
      else packet_len prof p3 = (if prof = Debug then Panic else Done (ipv4_len h - of_nat (ip_hlen h + 8)))"
    if f: "ipv4_fits prof h p1"
  proof -
    have n: "ipv4_len h + o1 - (o2 + 8) = ipv4_len h - of_nat (ip_hlen h + 8)" by (simp add: o2_def)
    have h8: "unat (of_nat (ip_hlen h + 8) :: u16) = ip_hlen h + 8" using ip_hlen_bound[of h] by (intro unat_of_nat_small) simp
    have un: "unat (ipv4_len h - of_nat (ip_hlen h + 8)) = unat (ipv4_len h) - ip_hlen h - 8" if "ip_hlen h + 8 \<le> unat (ipv4_len h)"
      using that h8 by (simp add: unat_sub word_le_nat_alt del: of_nat_add)
    have chk: "packet_len prof p3 = sub_chk prof (ipv4_len h + o1) (o2 + 8)" by (simp add: packet_len_def p3_def ipv4_taken_def p1_def)
    show ?thesis
    proof (cases prof)
      case Debug
      have ul: "unat (ipv4_len h + o1) = unat (ipv4_len h) + unat o1"
        using f u1 Debug by (subst unat_add_fits) (simp_all add: ipv4_fits_def p1_def)
      have "o2 + 8 \<le> ipv4_len h + o1 \<longleftrightarrow> ip_hlen h + 8 \<le> unat (ipv4_len h)" using ul u1 u3 by (simp add: word_le_nat_alt add.commute)
      then show ?thesis using un unfolding chk by (auto simp: sub_chk_def Debug n simp del: of_nat_add)
    next
      case Release
      have "packet_len prof p3 = Done (ipv4_len h - of_nat (ip_hlen h + 8))" unfolding chk by (simp add: Release n)
      then show ?thesis using un by (simp add: Release)
    qed
  qed
  show ?thesis
  proof (cases "ipv4_fits prof h p1")
    case True
    then show ?thesis using path fits len u2 u3 hl
      by (subst if_not_P) (auto intro!: exI[of _ p3] simp: p3_def ipv4_taken_def p1_def o1_def)
  qed (use path fits in auto)
qed

definition good_ipv4 :: ipv4_header where
  "good_ipv4 = \<lparr>ip_version_ihl = 0x45, ip_tos = 0, ip_tot_len = bswap 64, ip_id = 0, ip_frag_off = 0, ip_ttl = 64,
     ip_protocol = proto_code UDP, ip_cksum = 0, ip_src = IP_SRC, ip_dst = IP_DST\<rparr>"

definition rx_world :: "ipv4_header \<Rightarrow> sim world" where
  "rx_world h = (one_packet_world 1 [])\<lparr>bytes := write_ipv4 1166 h (\<lambda>_. 0)\<rparr>"

lemmas rx_world_defs = rx_world_def one_packet_defs blank_packet_def buf_off buf_extent_def PACKET_BUF_SIZE_def
  MTU_def DEFAULT_OFFSET_def data_ptr_def

theorem rx_path_strips_witness:
  "\<exists>pkt'. rx_path sim_api demo_ctx Debug 1024 (rx_world good_ipv4) = Done (set_pkt 1024 pkt' (rx_world good_ipv4), Ok ())
    \<and> unat (p_offset pkt') = 106 \<and> packet_len Debug pkt' = Done 36"
proof -
  let ?pkt = "blank_packet\<lparr>p_refcnt := 1, p_data := 1024 + packet_buf_off\<rparr>"
  have pkt: "pkts (rx_world good_ipv4) 1024 = Some ?pkt" by (simp add: rx_world_defs)
  have ex: "unat (p_offset ?pkt) + 34 \<le> buf_extent (rx_world good_ipv4) ?pkt" by (simp add: rx_world_defs)
  have h: "good_ipv4 = read_ipv4 (data_ptr ?pkt + 14) (bytes (rx_world good_ipv4))"
    by (simp add: rx_world_defs ipv4.rd_wr)
  have i: "ihl good_ipv4 = 5" "ipv4_len good_ipv4 = 64" by (simp_all add: good_ipv4_def ihl_def ipv4_len_def)
  have ok: "5 \<le> ihl good_ipv4" "ip_ttl good_ipv4 \<noteq> 0" by (simp_all add: i) (simp add: good_ipv4_def)
  have off: "unat (p_offset ?pkt) + 14 + ip_hlen good_ipv4 + 8 < 2 ^ 16" by (simp add: i ip_hlen_def blank_packet_def)
  from rx_path_strips[OF pkt ex h ok off, of Debug sim_api demo_ctx]
  show ?thesis by (auto simp: i ip_hlen_def blank_packet_def word_unat_eq_iff)
qed

lemma buf_live_extent: "0 < buf_extent w pkt \<Longrightarrow> buf_live pkt w"
  by (auto simp: buf_extent_def buf_live_def split: option.splits)

lemma given_back_set: "given_back p pkt ((set_pkt p pkt' w)\<lparr>ext := x\<rparr>) = given_back p pkt (w\<lparr>ext := x\<rparr>)"
  by (simp add: given_back_def set_pkt_def split: pkt_buf_type.split)

lemma dealloc_after_set:
  assumes "pool_obj tid p w" and "p_refcnt pkt = 1" and "buf_live pkt w"
  shows "\<exists>mp c. PacketPool_deallocate prof api p tid (set_pkt p pkt w) =
    Done (given_back p pkt (w\<lparr>ext := rte_mempool_generic_put api mp p c (freed_ext api pkt (ext w))\<rparr>))"
proof -
  have "pool_obj tid p (set_pkt p pkt w)" using assms(1) pool_obj_cong[of "set_pkt p pkt w" w tid p] by simp
  from deallocate_last_ext[OF this, of pkt prof api] assms(2,3) show ?thesis
    by (auto simp: buf_live_def given_back_set)
qed

text \<open>C30. The IPv4 receiver drops what it must and leaks nothing: a packet in use, with 20 bytes left in its buffer, whose header is shorter than
  five words or whose time to live is zero is refused with \<^verbatim>\<open>Dropped\<close>, after giving up exactly one
  reference: the last one frees the packet's mbuf, if it has one, and returns the packet to its pool; any other one is only
  counted down and frees nothing.  Only a debug build panics, before that, when the length the header announces or the
  header's own length carries the packet past 16 bits.\<close>

theorem ipv4_receiver_drops:
  assumes pkt: "pkts w p = Some pkt" and ext: "unat (p_offset pkt) + 20 \<le> buf_extent w pkt"
    and h: "h = read_ipv4 (data_ptr pkt) (bytes w)" and bad: "ihl h < 5 \<or> ip_ttl h = 0"
    and laws: "mempool_laws api avail" and obj: "pool_obj (ctx_thread_id ctx) p w" and refs: "0 < p_refcnt pkt"
  shows "if prof = Debug \<and> (2 ^ 16 \<le> unat (ipv4_len h) + unat (p_offset pkt) \<or> 2 ^ 16 \<le> unat (p_offset pkt) + ip_hlen h)
    then Ipv4Receiver_process prof api ctx p w = Panic
    else \<exists>w'. Ipv4Receiver_process prof api ctx p w = Done (w', Err Dropped) \<and> bytes w' = bytes w \<and>
      (if p_refcnt pkt = 1
       then pkts w' = (pkts w)(p := None) \<and> avail (ext w') = insert p (avail (ext w)) \<and>
         mbufs w' = (case p_buf_ty pkt of Mbuf m \<Rightarrow> (mbufs w)(m := None) | Local \<Rightarrow> mbufs w) \<and>
         (\<exists>mp c. ext w' = rte_mempool_generic_put api mp p c
            (case p_buf_ty pkt of Mbuf m \<Rightarrow> rte_mbuf_raw_free api m (ext w) | Local \<Rightarrow> ext w))
       else ext w' = ext w \<and> mbufs w' = mbufs w \<and> (\<exists>pkt'. pkts w' = (pkts w)(p \<mapsto> pkt') \<and> p_refcnt pkt' = p_refcnt pkt - 1))"
proof (cases "ipv4_fits prof h pkt")
  case False
  then show ?thesis using Ipv4Receiver_cases[OF pkt ext h, of prof api ctx]
    by (cases prof) (auto simp: ipv4_fits_def not_less)
next
  case True
  note eq = Ipv4Receiver_eq[OF pkt ext h True, of api ctx]
  have ty: "p_buf_ty (ipv4_taken h pkt) = p_buf_ty pkt" by (simp add: ipv4_taken_def)
  have nf: "\<not> (prof = Debug \<and> (2 ^ 16 \<le> unat (ipv4_len h) + unat (p_offset pkt) \<or> 2 ^ 16 \<le> unat (p_offset pkt) + ip_hlen h))"
    using True by (auto simp: ipv4_fits_def)
  show ?thesis
  proof (cases "p_refcnt pkt = 1")
    case True
    then have "p_refcnt (ipv4_taken h pkt) = 1" by (simp add: ipv4_taken_def)
    moreover have "buf_live (ipv4_taken h pkt) w" using buf_live_extent[of w pkt] ext by (simp add: buf_live_def ty)
    ultimately obtain mp c where d: "PacketPool_deallocate prof api p (ctx_thread_id ctx) (set_pkt p (ipv4_taken h pkt) w) =
        Done (given_back p (ipv4_taken h pkt) (w\<lparr>ext := rte_mempool_generic_put api mp p c (freed_ext api (ipv4_taken h pkt) (ext w))\<rparr>))"
      using dealloc_after_set[OF obj] by blast
    have "avail (freed_ext api (ipv4_taken h pkt) (ext w)) = avail (ext w)" using laws by simp
    then show ?thesis using d bad laws True unfolding if_not_P[OF nf] eq
      by (auto simp: Let_def ty freed_ext_def split: pkt_buf_type.split)
  next
    case False
    with refs have "1 < p_refcnt (ipv4_taken h pkt)" by (simp add: ipv4_taken_def word_gt_1)
    with deallocate_shared[of "set_pkt p (ipv4_taken h pkt) w" p "ipv4_taken h pkt" prof] False bad show ?thesis
      unfolding if_not_P[OF nf] eq by (auto simp: Let_def ipv4_taken_def)
  qed
qed

theorem ipv4_receiver_drops_witness:
  "\<exists>w'. Ipv4Receiver_process Debug sim_api demo_ctx 1024 (rx_world good_ipv4) = Done (w', Err Dropped)
    \<and> set (sim_free (ext w')) = {1024}"
proof -
  let ?w = "rx_world good_ipv4" and ?pkt = "blank_packet\<lparr>p_refcnt := 1, p_data := 1024 + packet_buf_off\<rparr>"
  have pkt: "pkts ?w 1024 = Some ?pkt" by (simp add: rx_world_defs)
  have ex: "unat (p_offset ?pkt) + 20 \<le> buf_extent ?w ?pkt" by (simp add: rx_world_defs)
  let ?h = "read_ipv4 (data_ptr ?pkt) (bytes ?w)"
  have "ip_version_ihl ?h = 0" "ip_tot_len ?h = 0"
    by (simp_all add: rx_world_defs read_ipv4_def write_ipv4_def ipv4_layout mem_simps)
      (simp_all add: load8_def load16_def load_bytes_def upt_conv_Cons)
  then have h: "ihl ?h = 0" "ipv4_len ?h = 0" "ip_hlen ?h = 0"
    by (simp_all add: ihl_def ipv4_len_def ip_hlen_def bswap_def to_le_def upt_conv_Cons)
  have obj: "pool_obj (ctx_thread_id demo_ctx) 1024 ?w"
    using one_packet_pool_obj[of 1 "[]"] pool_obj_cong[of ?w "one_packet_world 1 []" 0 1024]
    by (simp add: rx_world_def demo_ctx_def)
  have "ihl ?h < 5 \<or> ip_ttl ?h = 0" "unat (ipv4_len ?h) + unat (p_offset ?pkt) < 2 ^ 16"
    "unat (p_offset ?pkt) + ip_hlen ?h < 2 ^ 16" "0 < p_refcnt ?pkt" unfolding h by (simp_all add: blank_packet_def)
  from ipv4_receiver_drops[OF pkt ex refl this(1) sim_mempool_laws obj this(4), of Debug] this(2,3)
  obtain w' where "Ipv4Receiver_process Debug sim_api demo_ctx 1024 ?w = Done (w', Err Dropped)"
    "set (sim_free (ext w')) = insert 1024 (set (sim_free (ext ?w)))"
    unfolding h by (auto simp: blank_packet_def)
  then show ?thesis by (auto simp: rx_world_defs)
qed

lemma sent_over_zero:
  assumes "m a = 0" and "h = sent_ipv4 k (read_ipv4 a m)"
  shows "version h = 5 \<and> ihl h = 4 \<and> ipv4_len h = k"
  using assms by (simp add: sent_ipv4_def read_ipv4_def ipv4_layout load8_def ipv4_len_def version_def ihl_def)

text \<open>C27. The two ends do not agree.  A frame that the send path builds in a zeroed buffer carries the
  first IPv4 byte 0x54: version 5 and a header length of four words.  The Ethernet receiver passes it
  on, and the IPv4 receiver drops it: the stack does not accept its own packets.\<close>

theorem sent_frame_is_dropped:
  assumes pkt: "pkts w p = Some pkt" and ready: "tx_ready 42 pkt w" and zero: "bytes w (data_ptr pkt - 28) = 0"
    and len: "p_len pkt \<le> 1564" and laws: "mempool_laws api avail" and obj: "pool_obj (ctx_thread_id ctx) p w"
    and one: "p_refcnt pkt = 1"
  shows "\<exists>w1 w2. tx_path table prof p w = Done (w1, Ok ())
    \<and> version (read_ipv4 (data_ptr pkt - 28) (bytes w1)) = 5 \<and> ihl (read_ipv4 (data_ptr pkt - 28) (bytes w1)) = 4
    \<and> rx_path api ctx prof p w1 = Done (w2, Err Dropped) \<and> avail (ext w2) = insert p (avail (ext w))"
proof -
  define n where "n = p_len pkt - p_offset pkt"
  define p1 where "p1 = tx_packet table pkt"
  define w1 where "w1 = set_pkt p p1 (w\<lparr>bytes := tx_bytes n (data_ptr pkt) (bytes w)\<rparr>)"
  define h where "h = read_ipv4 (data_ptr pkt - 28) (bytes w1)"
  define p2 where "p2 = p1\<lparr>l2_header := \<lparr>h_length = 14, h_offset = p_offset p1\<rparr>, p_offset := p_offset p1 + 14\<rparr>"
  have off: "42 \<le> unat (p_offset pkt)" "unat (p_offset pkt) \<le> buf_extent w pkt" "unat (p_offset pkt) \<le> unat (p_len pkt)"
    "unat (p_len pkt) \<le> 1564"
    using ready len by (simp_all add: tx_ready_def word_le_nat_alt)
  have u42: "unat (p_offset pkt - 42) = unat (p_offset pkt) - 42" and u28: "unat (p_offset pkt - 28) = unat (p_offset pkt) - 28"
    using off by (simp_all add: unat_sub word_le_nat_alt)
  have tx: "tx_path table prof p w = Done (w1, Ok ())" using tx_path_eq[OF pkt ready] by (simp add: w1_def p1_def n_def)
  have "h = sent_ipv4 (n + 28) (read_ipv4 (data_ptr pkt - 28) (bytes w))"
    unfolding h_def w1_def using off by (simp add: tx_bytes_read data_ptr_def)
  from sent_over_zero[OF zero this] have v: "version h = 5" "ihl h = 4" and hl: "ipv4_len h = n + 28" by simp_all
  have "unat n = unat (p_len pkt) - unat (p_offset pkt)" unfolding n_def using off by (simp add: unat_sub word_le_nat_alt)
  then have "unat (n + 28) = unat n + 28" using off by (subst unat_add_fits) simp_all
  then have fits: "ipv4_fits prof h p2"
    using off u28 \<open>unat n = _\<close> v hl unfolding ipv4_fits_def
    by (intro disjI2 conjI) (simp_all add: p2_def p1_def tx_packet_def ip_hlen_def)
  have s1: "EthReceiver_process prof p w1 = Done (set_pkt p p2 w1, Ok ())"
    using EthReceiver_eq[of w1 p p1 prof] off u42 by (simp add: w1_def p2_def p1_def tx_packet_def)
  have ex: "unat (p_offset p2) + 20 \<le> buf_extent (set_pkt p p2 w1) p2"
    using buf_extent_cong[of p2 pkt "set_pkt p p2 w1" w] off u28 by (simp add: p2_def p1_def tx_packet_def w1_def)
  have hr: "h = read_ipv4 (data_ptr p2) (bytes (set_pkt p p2 w1))"
    using off u28 by (simp add: h_def data_ptr_def p2_def p1_def tx_packet_def)
  have "pool_obj (ctx_thread_id ctx) p (set_pkt p p2 w1)"
    using obj pool_obj_cong[of "set_pkt p p2 w1" w "ctx_thread_id ctx" p] by (simp add: w1_def)
  moreover have live: "buf_live (ipv4_taken h p2) (set_pkt p p2 w1)"
    using buf_live_extent[of "set_pkt p p2 w1" p2] ex by (simp add: buf_live_def ipv4_taken_def)
  moreover have "p_refcnt (ipv4_taken h p2) = 1" using one by (simp add: ipv4_taken_def p2_def p1_def tx_packet_def)
  ultimately obtain w2 where "PacketPool_deallocate prof api p (ctx_thread_id ctx) (set_pkt p (ipv4_taken h p2) (set_pkt p p2 w1)) = Done w2"
    and "avail (ext w2) = insert p (avail (ext w))"
    using dealloc_after_set[of "ctx_thread_id ctx" p "set_pkt p p2 w1" "ipv4_taken h p2" prof api] live laws by (auto simp: w1_def)
  then have "rx_path api ctx prof p w1 = Done (w2, Err Dropped)" "avail (ext w2) = insert p (avail (ext w))"
    using Ipv4Receiver_eq[OF _ ex hr fits, of p api ctx] s1 v(2) by (simp_all add: rx_path_def seq_process_def Let_def)
  with tx v show ?thesis unfolding h_def by blast
qed

theorem sent_frame_is_dropped_witness:
  "\<exists>w1 w2. tx_path demo_routes Debug 1024 (set_pkt 1024 (user_pkt 1024 None blank_packet) (one_packet_world 1 [])) = Done (w1, Ok ())
    \<and> rx_path sim_api demo_ctx Debug 1024 w1 = Done (w2, Err Dropped) \<and> set (sim_free (ext w2)) = {1024}"
proof -
  let ?pkt = "user_pkt 1024 None blank_packet"
  let ?w = "set_pkt 1024 ?pkt (one_packet_world 1 [])"
  have pkt: "pkts ?w 1024 = Some ?pkt" by simp
  have ready: "tx_ready 42 ?pkt ?w" by (rule filled_ready[THEN conjunct1]) (simp add: filled_def user_pkt_def blank_packet_def)
  have zero: "bytes ?w (data_ptr ?pkt - 28) = 0" and len: "p_len ?pkt \<le> 1564" and one: "p_refcnt ?pkt = 1"
    by (simp_all add: one_packet_defs user_pkt_def blank_packet_def)
  have obj: "pool_obj (ctx_thread_id demo_ctx) 1024 ?w"
    using one_packet_pool_obj[of 1 "[]"] pool_obj_cong[of ?w "one_packet_world 1 []" 0 1024] by (simp add: demo_ctx_def)
  from sent_frame_is_dropped[OF pkt ready zero len sim_mempool_laws obj one, of demo_routes Debug]
  show ?thesis by (auto simp: one_packet_defs)
qed

end
