(* ===== verification/Datapath.thy ===== *)
theory Datapath
  imports Dpdk Net_Paths
begin

text \<open>
  The whole way of a datagram out of the machine: the three senders of \<open>Net_Modules\<close> frame the packet, the
  adapter of \<open>Dpdk\<close> queues, sends and frees it.
\<close>

lemma iova_spec:
  assumes "pkts w p = Some pkt" and "p_buf_ty pkt = Local" and "objhdrs w p = Some h" and "p \<le> data_ptr pkt"
    and "data_ptr pkt < 2 ^ 64" and "unat (oh_iova h) + (data_ptr pkt - p) < 2 ^ 64"
  shows "iova prof p w = Done (oh_iova h + of_nat (data_ptr pkt - p))"
proof -
  have u: "unat (of_nat (data_ptr pkt) :: u64) = data_ptr pkt" "unat (of_nat p :: u64) = p"
    "unat (of_nat (data_ptr pkt - p) :: u64) = data_ptr pkt - p"
    using assms(4-6) by (simp_all add: unat_of_nat_small del: of_nat_diff)
  have "sub_chk prof (of_nat (data_ptr pkt)) (of_nat p :: u64) = Done (of_nat (data_ptr pkt - p))"
    using u assms(4) by (simp add: sub_chk_fits word_le_nat_alt of_nat_diff)
  then show ?thesis using assms u by (simp add: iova_def virt2iova_def debug_assert_def add_chk_fits del: of_nat_diff)
qed

lemma tx_path_sendable:
  assumes pkt: "pkts w p = Some pkt" and ready: "tx_ready 42 pkt w" and loc: "p_buf_ty pkt = Local"
    and hdr: "objhdrs w p = Some h" and ad: "p + 42 \<le> data_ptr pkt" "data_ptr pkt < 2 ^ 64" "unat (oh_iova h) + (data_ptr pkt - p) < 2 ^ 64"
    and w1: "w1 = set_pkt p (tx_packet table pkt) (w\<lparr>bytes := tx_bytes (p_len pkt - p_offset pkt) (data_ptr pkt) (bytes w)\<rparr>)"
  shows "sendable prof p (tx_packet table pkt) w1 (p_len pkt - p_offset pkt + 42)"
    and "data_ptr (tx_packet table pkt) = data_ptr pkt - 42"
    and "get_l4_header size_UdpHeader (tx_packet table pkt) w1 = Done (data_ptr pkt - 8)"
proof -
  let ?p = "tx_packet table pkt"
  have off: "42 \<le> unat (p_offset pkt)" "unat (p_offset pkt) \<le> unat (p_len pkt)" "unat (p_offset pkt) \<le> buf_extent w pkt"
    using ready by (simp_all add: tx_ready_def word_le_nat_alt)
  have o: "unat (p_offset pkt - 42) = unat (p_offset pkt) - 42" "unat (p_offset pkt - 28) = unat (p_offset pkt) - 28"
    "unat (p_offset pkt - 8) = unat (p_offset pkt) - 8"
    using off by (simp_all add: unat_sub word_le_nat_alt)
  show d: "data_ptr ?p = data_ptr pkt - 42" using off by (simp add: data_ptr_def tx_packet_def o)
  have ex: "buf_extent w1 ?p = buf_extent w pkt" by (intro buf_extent_cong) (simp_all add: tx_packet_def w1)
  have v: "get_l2_header size_EthHeader ?p w1 = Done (data_ptr pkt - 42)" "get_l3_header size_Ipv4Header ?p w1 = Done (data_ptr pkt - 28)"
    and v4: "get_l4_header size_UdpHeader ?p w1 = Done (data_ptr pkt - 8)"
    using off ex by (simp_all add: view_defs tx_packet_def o data_ptr_def)
  show "get_l4_header size_UdpHeader ?p w1 = Done (data_ptr pkt - 8)" by (rule v4)
  have "p_offset pkt - 42 \<le> p_len pkt" using off o by (simp add: word_le_nat_alt)
  then have "packet_len prof ?p = Done (p_len pkt - p_offset pkt + 42)"
    by (simp add: packet_len_def tx_packet_def sub_chk_fits)
  moreover have "iova prof p w1 = Done (oh_iova h + of_nat (data_ptr ?p - p))"
    using iova_spec[of w1 p ?p h prof] loc hdr ad unfolding d by (simp add: w1) (simp add: tx_packet_def)
  moreover have "eth_ether_ty (read_eth (data_ptr pkt - 42) (bytes w1)) = ether_code EtIpv4"
    "ip_protocol (read_ipv4 (data_ptr pkt - 28) (bytes w1)) = proto_code UDP"
    using tx_bytes_read[of "data_ptr pkt"] ad(1) by (simp_all add: w1 eth_sent_def sent_ipv4_def)
  ultimately show "sendable prof p ?p w1 (p_len pkt - p_offset pkt + 42)"
    using v v4 ether_decode_code[of EtIpv4] proto_decode_code[of UDP] unfolding sendable_def by (simp add: w1)
qed

text \<open>C2. A datagram reaches the wire and its packet comes back.  A packet as the user node makes it, with 42
  bytes of headroom in its own buffer (whose addresses stay below \<^verbatim>\<open>2 ^ 64\<close>) and one reference to it, goes through the three
  senders and an adapter that owns 64 distinct buffers without panic.  Once the adapter's queue has been flushed, by \<^verbatim>\<open>send\<close> itself when this is its 64th
  packet or by the next \<^verbatim>\<open>flush\<close> otherwise, the NIC has been given the frames that were queued before and after them
  exactly one frame for this packet, 42 bytes longer than the payload and
  starting 42 bytes before it; the bytes the frame points to are the Ethernet and IPv4 headers the
  senders wrote followed by the unchanged payload; and the free callback returns the packet to its pool.  The NIC is one that
  takes at least one frame of every burst, so that the flush ends; DPDK does not promise that.\<close>

theorem datagram_reaches_wire:
  assumes pkt: "pkts w p = Some pkt" and ready: "tx_ready 42 pkt w" and loc: "p_buf_ty pkt = Local"
    and hdr: "objhdrs w p = Some h" and ad: "p + 42 \<le> data_ptr pkt" "data_ptr pkt < 2 ^ 64" "unat (oh_iova h) + (data_ptr pkt - p) < 2 ^ 64"
    and nic: "nic_laws api held wire" "nic_progress api" "nic_pool_laws api held avail" and pool: "mempool_laws api avail"
    and wf: "dpdk_wf d" "distinct (tx_bufs d)" "set (tx_bufs d) \<subseteq> dom (mbufs w) - held (ext w)" "DPDK_BURST_SIZE \<le> fuel"
    and obj: "pool_obj (ctx_thread_id ctx) p w" and one: "p_refcnt pkt = 1"
    and a: "a = data_ptr pkt" and n: "n = p_len pkt - p_offset pkt"
  shows "\<exists>w1 d1 w2 r1 d2 w3 r2 m w4. tx_path table prof p w = Done (w1, Ok ())
    \<and> Dpdk_send fuel prof api ctx p d w1 = Done ((d1, w2), r1) \<and> (Suc (tx_idx d) < DPDK_BURST_SIZE \<longrightarrow> r1 = Ok ())
    \<and> Dpdk_flush fuel prof api ctx d1 w2 = Done ((d2, w3), r2)
    \<and> wire (ext w3) = wire (ext w) @ frames (d_port d) (d_queue d) (mbufs w) (take (tx_idx d) (tx_bufs d))
        @ [(d_port d, d_queue d, tx_bufs d ! tx_idx d, m)]
    \<and> m_buf_addr m + unat (m_data_off m) = a - 42 \<and> m_data_len m = n + 42
    \<and> read_eth (a - 42) (bytes w3) = eth_sent (read_eth (a - 42) (bytes w))
    \<and> read_ipv4 (a - 28) (bytes w3) = sent_ipv4 (n + 28) (read_ipv4 (a - 28) (bytes w))
    \<and> load_bytes a k (bytes w3) = load_bytes a k (bytes w)
    \<and> packet_free_callback prof api p w3 = Done w4 \<and> avail (ext w4) = insert p (avail (ext w))"
proof -
  define w1 where "w1 = set_pkt p (tx_packet table pkt) (w\<lparr>bytes := tx_bytes (p_len pkt - p_offset pkt) (data_ptr pkt) (bytes w)\<rparr>)"
  note sd = tx_path_sendable[OF pkt ready loc hdr ad w1_def]
  have tx: "tx_path table prof p w = Done (w1, Ok ())" using tx_path_eq[OF pkt ready] by (simp add: w1_def)
  have same: "mbufs w1 = mbufs w" "ext w1 = ext w" "pool_obj (ctx_thread_id ctx) p w1" "p_refcnt (tx_packet table pkt) = 1"
    "p_buf_ty (tx_packet table pkt) = Local"
    using obj one loc pool_obj_cong[of w1 w] by (simp_all add: w1_def tx_packet_def)
  have own: "set (tx_bufs d) \<subseteq> dom (mbufs w1) - held (ext w1)" using wf(3) by (simp add: same)
  from send_flush_free[OF nic pool wf(1,2) own wf(4) sd(1) same(3-5), where prof = prof] obtain d1 w2 r1 d2 w3 r2 m sh w4 ua c where
    s: "Dpdk_send fuel prof api ctx p d w1 = Done ((d1, w2), r1)" "Suc (tx_idx d) < DPDK_BURST_SIZE \<longrightarrow> r1 = Ok ()"
      "Dpdk_flush fuel prof api ctx d1 w2 = Done ((d2, w3), r2)"
      "wire (ext w3) = wire (ext w) @ frames (d_port d) (d_queue d) (mbufs w) (take (tx_idx d) (tx_bufs d))
        @ [(d_port d, d_queue d, tx_bufs d ! tx_idx d, m)]"
      "m_buf_addr m = a - 42" "m_data_off m = 0" "m_data_len m = n + 42"
      "packet_free_callback prof api p w3 = Done w4" "avail (ext w4) = insert p (avail (ext w))"
    and ua: "get_l4_header size_UdpHeader (tx_packet table pkt) w1 = Done ua"
    and bs: "bytes w3 = write_udp ua ((read_udp ua (bytes w1))\<lparr>udp_chksum := c\<rparr>) (bytes w1)"
    unfolding same(1,2) sd(2) a n by - (elim exE conjE, rule that[unfolded a n], assumption+)
  have "ua = a - 8" using sd(3) ua a by simp
  have a42: "42 \<le> a" using ad(1) a by simp
  then have le: "a - 42 + 14 \<le> ua" "a - 28 + 20 \<le> ua" "ua + 8 \<le> a" using \<open>ua = a - 8\<close> by linarith+
  have "read_eth (a - 42) (bytes w3) = read_eth (a - 42) (bytes w1)" "read_ipv4 (a - 28) (bytes w3) = read_ipv4 (a - 28) (bytes w1)"
    "load_bytes a k (bytes w3) = load_bytes a k (bytes w1)"
    using le udp_eth.lower_after_upper udp_ipv4.lower_after_upper udp.wr_bytes unfolding bs by simp_all
  with tx_bytes_read[OF a42, where n = n and m = "bytes w"] s tx show ?thesis
    by (intro exI[of _ w1] exI[of _ d1] exI[of _ w2] exI[of _ r1] exI[of _ d2] exI[of _ w3] exI[of _ r2] exI[of _ m] exI[of _ w4])
      (simp add: w1_def flip: a n)
qed

end
