(* ===== verification/Service.thy ===== *)
theory Service
  imports Packet
begin

text \<open>
  \<^verbatim>\<open>omnistack-core/src/service.rs\<close>: the thread numbers, the control server and its client.  What the
  operating system and \<^verbatim>\<open>mio\<close> answer (accepted connections, results of reads, writes and
  deregistrations) is the input of an event; \<^verbatim>\<open>serde_json\<close> is a parameter.  The locale
  \<open>id_source\<close> is what the server relies on from \<^verbatim>\<open>ThreadId\<close>; \<open>server_reach\<close> are the states the server can reach
  under any interleaving of clients, with the thread numbers that are handed out.
\<close>

section \<open>Thread numbers\<close>

text \<open>\<^verbatim>\<open>NEXT_THREAD_ID\<close> and \<^verbatim>\<open>THREAD_ID_USED\<close>.\<close>

record thread_ids =
  next_thread_id :: nat
  thread_id_used :: "bool list"

definition thread_ids_init :: thread_ids where
  "thread_ids_init = \<lparr>next_thread_id = 0, thread_id_used = replicate MAX_THREAD_NUM False\<rparr>"

text \<open>The \<^verbatim>\<open>for _ in 0..MAX_THREAD_NUM\<close> loop, with the number of rounds left.\<close>

fun ThreadId_next_loop :: "nat \<Rightarrow> thread_ids \<Rightarrow> (thread_ids \<times> u32 option) outcome" where
  "ThreadId_next_loop 0 s = Done (s, None)"
| "ThreadId_next_loop (Suc n) s =
     (let i = next_thread_id s; bumped = s\<lparr>next_thread_id := (i + 1) mod MAX_THREAD_NUM\<rparr>
      in if length (thread_id_used s) \<le> i then Panic
      else if thread_id_used s ! i then ThreadId_next_loop n bumped
      else Done (bumped\<lparr>thread_id_used := (thread_id_used s)[i := True]\<rparr>, Some (of_nat i)))"

definition ThreadId_next :: "thread_ids \<Rightarrow> (thread_ids \<times> u32 option) outcome" where
  "ThreadId_next = ThreadId_next_loop MAX_THREAD_NUM"

definition ThreadId_free :: "u32 \<Rightarrow> thread_ids \<Rightarrow> thread_ids outcome" where
  "ThreadId_free tid s =
     (if unat tid < length (thread_id_used s)
      then Done (s\<lparr>thread_id_used := (thread_id_used s)[unat tid := False]\<rparr>) else Panic)"

text \<open>The thread-local cell \<^verbatim>\<open>THREAD_ID\<close>: \<^verbatim>\<open>set\<close>, \<^verbatim>\<open>get\<close> and \<^verbatim>\<open>is_valid\<close>, for the thread \<open>t\<close>.\<close>

type_synonym thread_cells = "nat \<Rightarrow> u32"

definition ThreadId_cells :: thread_cells where "ThreadId_cells = (\<lambda>_. - 1)"

definition ThreadId_set :: "nat \<Rightarrow> u32 \<Rightarrow> thread_cells \<Rightarrow> thread_cells" where
  "ThreadId_set t tid cells = cells(t := tid)"

definition ThreadId_get :: "nat \<Rightarrow> thread_cells \<Rightarrow> u32" where
  "ThreadId_get t cells = cells t"

definition ThreadId_is_valid :: "nat \<Rightarrow> thread_cells \<Rightarrow> bool" where
  "ThreadId_is_valid t cells \<longleftrightarrow> cells t \<noteq> - 1"

section \<open>Requests and the server\<close>

datatype sock_addr = SockV4 "u8 list" u16 | SockV6 "u16 list" u16 u32 u32

datatype request = ThreadEnter | ThreadExit u32 | FdCreate sock_addr | FdClose u32

datatype response_data = RespNone | RespThreadEnter u32 | RespFdCreate u32

record response =
  resp_data :: "(response_data, service_error) result"

definition handle_request :: "request option \<Rightarrow> thread_ids \<Rightarrow> (thread_ids \<times> response) outcome" where
  "handle_request req ids = (case req of
       None \<Rightarrow> Done (ids, \<lparr>resp_data = Err SvcInvalidRequest\<rparr>)
     | Some ThreadEnter \<Rightarrow> andthen (ThreadId_next ids) (\<lambda>(ids', r).
         Done (ids', \<lparr>resp_data = (case r of Some tid \<Rightarrow> Ok (RespThreadEnter tid) | None \<Rightarrow> Err SvcUnknown)\<rparr>))
     | Some (ThreadExit tid) \<Rightarrow> andthen (ThreadId_free tid ids) (\<lambda>ids'. Done (ids', \<lparr>resp_data = Ok RespNone\<rparr>))
     | Some _ \<Rightarrow> Done (ids, \<lparr>resp_data = Err SvcInvalidRequest\<rparr>))"

text \<open>An event of one poll.  On the listener: the descriptors \<^verbatim>\<open>accept\<close> yields until it fails, each with
  the result of registering it.  On a connection: what \<^verbatim>\<open>read\<close>, \<^verbatim>\<open>write_all\<close> and
  \<^verbatim>\<open>deregister\<close> answer.\<close>

datatype event =
    Listener "(nat \<times> (unit, io_kind) result) list"
  | Readable nat "(u8 list, io_kind) result" "(unit, io_kind) result" "(unit, io_kind) result"

record server =
  sv_ids :: thread_ids
  sv_open :: "nat list"
  sv_up :: bool

definition server_init :: server where
  "server_init = \<lparr>sv_ids = thread_ids_init, sv_open = [], sv_up = False\<rparr>"

definition retriable :: "io_kind \<Rightarrow> bool" where
  "retriable k \<longleftrightarrow> k = WouldBlock \<or> k = Interrupted"

fun accept_loop :: "(nat \<times> (unit, io_kind) result) list \<Rightarrow> server \<Rightarrow> server \<times> (unit, io_kind) result" where
  "accept_loop [] s = (s, Ok ())"
| "accept_loop ((fd, Ok _) # conns) s = accept_loop conns (s\<lparr>sv_open := fd # sv_open s\<rparr>)"
| "accept_loop ((fd, Err e) # conns) s = (s, Err e)"

text \<open>The match arms of the event loop.  The stream made from the descriptor is a local variable: it is
  dropped, and the descriptor closed, however the arm ends.\<close>

definition io_failed :: "io_kind \<Rightarrow> (unit, io_kind) result \<Rightarrow> (unit, io_kind) result" where
  "io_failed e dereg = (if retriable e then Ok () else dereg)"

definition handle_event ::
  "(u8 list \<Rightarrow> request option) \<Rightarrow> event \<Rightarrow> server \<Rightarrow> ((server \<times> response option) \<times> (unit, io_kind) result) outcome"
where
  "handle_event from_json ev s = (case ev of
       Listener conns \<Rightarrow> (case accept_loop conns s of (s', r) \<Rightarrow> Done ((s', None), r))
     | Readable fd rd wr dereg \<Rightarrow>
         let closed = s\<lparr>sv_open := removeAll fd (sv_open s)\<rparr> in
         (case rd of Err e \<Rightarrow> Done ((closed, None), io_failed e dereg)
          | Ok buf \<Rightarrow>
            andthen (handle_request (from_json buf) (sv_ids s)) (\<lambda>(ids, res).
            Done ((closed\<lparr>sv_ids := ids\<rparr>, Some res), (case wr of Ok _ \<Rightarrow> Ok () | Err e \<Rightarrow> io_failed e dereg)))))"

text \<open>\<^verbatim>\<open>Server::run\<close>: the setup calls that may fail, then one list of events (or the error) per poll
  until \<^verbatim>\<open>should_stop\<close>.\<close>

fun event_loop ::
  "(u8 list \<Rightarrow> request option) \<Rightarrow> event list \<Rightarrow> server \<Rightarrow> (server \<times> (unit, io_kind) result) outcome" where
  "event_loop from_json [] s = Done (s, Ok ())"
| "event_loop from_json (ev # evs) s =
     andthen (handle_event from_json ev s) (\<lambda>((s', res), r).
     case r of Ok _ \<Rightarrow> event_loop from_json evs s' | Err e \<Rightarrow> Done (s', Err e))"

fun poll_loop ::
  "(u8 list \<Rightarrow> request option) \<Rightarrow> (event list, io_kind) result list \<Rightarrow> server \<Rightarrow> (server \<times> (unit, io_kind) result) outcome"
where
  "poll_loop from_json [] s = Done (s, Ok ())"
| "poll_loop from_json (Err e # polls) s = Done (s, Err e)"
| "poll_loop from_json (Ok evs # polls) s =
     qmark (event_loop from_json evs s) (\<lambda>s' _. poll_loop from_json polls s')"

definition Server_run ::
  "(u8 list \<Rightarrow> request option) \<Rightarrow> (unit, io_kind) result \<Rightarrow> (unit, io_kind) result \<Rightarrow> (unit, io_kind) result
     \<Rightarrow> (event list, io_kind) result list \<Rightarrow> server \<Rightarrow> (server \<times> (unit, io_kind) result) outcome" where
  "Server_run from_json poll_new bind register polls s =
     qmark (Done (s, poll_new)) (\<lambda>s _.
     qmark (Done (s, bind)) (\<lambda>s _.
     qmark (Done (s, register)) (\<lambda>s _.
     poll_loop from_json polls (s\<lparr>sv_up := True\<rparr>))))"

section \<open>The client\<close>

text \<open>\<^verbatim>\<open>send_request\<close>: \<open>io i\<close> is what writing and reading answer in round \<open>i\<close>.\<close>

definition SEND_MAX_RETRIES :: nat where "SEND_MAX_RETRIES = 5"

function send_loop ::
  "(u8 list \<Rightarrow> response option) \<Rightarrow> u8 list option \<Rightarrow> (nat \<Rightarrow> (unit, io_kind) result \<times> (u8 list, io_kind) result)
     \<Rightarrow> nat \<Rightarrow> (response, error) result" where
  "send_loop from_json req io i =
     (if SEND_MAX_RETRIES \<le> i then Err (ServiceError SvcIoError)
      else case req of None \<Rightarrow> Err JsonParseError
      | Some _ \<Rightarrow>
        (case fst (io i) of
           Err k \<Rightarrow> if retriable k then send_loop from_json req io (Suc i) else Err (ServiceError SvcIoError)
         | Ok _ \<Rightarrow>
           (case snd (io i) of
              Err k \<Rightarrow> if retriable k then send_loop from_json req io (Suc i) else Err (ServiceError SvcIoError)
            | Ok buf \<Rightarrow> (case from_json buf of Some res \<Rightarrow> Ok res | None \<Rightarrow> Err JsonParseError))))"
  by pat_completeness auto
termination by (relation "measure (\<lambda>(_, _, _, i). SEND_MAX_RETRIES - i)") auto

declare send_loop.simps [simp del]

definition send_request ::
  "(request \<Rightarrow> u8 list option) \<Rightarrow> (u8 list \<Rightarrow> response option) \<Rightarrow> (unit, io_kind) result \<Rightarrow> (unit, io_kind) result
     \<Rightarrow> (unit, io_kind) result \<Rightarrow> (nat \<Rightarrow> (unit, io_kind) result \<times> (u8 list, io_kind) result) \<Rightarrow> request
     \<Rightarrow> (response, error) result" where
  "send_request to_json from_json connect read_timeout write_timeout io req =
     (case connect of Err k \<Rightarrow> Err (IoError k) | Ok _ \<Rightarrow>
     (case read_timeout of Err k \<Rightarrow> Err (IoError k) | Ok _ \<Rightarrow>
     (case write_timeout of Err k \<Rightarrow> Err (IoError k) | Ok _ \<Rightarrow>
      send_loop from_json (to_json req) io 0)))"

section \<open>The numbers handed out\<close>

definition wf_ids :: "thread_ids \<Rightarrow> bool" where
  "wf_ids s \<longleftrightarrow> length (thread_id_used s) = MAX_THREAD_NUM \<and> next_thread_id s < MAX_THREAD_NUM"

definition live_ids :: "thread_ids \<Rightarrow> u32 set" where
  "live_ids s = {tid. unat tid < length (thread_id_used s) \<and> thread_id_used s ! unat tid}"

locale id_source =
  fixes nxt :: "'s \<Rightarrow> ('s \<times> u32 option) outcome" and free :: "u32 \<Rightarrow> 's \<Rightarrow> 's outcome"
    and inv :: "'s \<Rightarrow> bool" and live :: "'s \<Rightarrow> u32 set"
  assumes nxt_law: "inv s \<Longrightarrow> \<exists>s' r. nxt s = Done (s', r) \<and> inv s' \<and>
      (case r of Some tid \<Rightarrow> tid \<notin> live s \<and> live s' = insert tid (live s) | None \<Rightarrow> live s' = live s)"
    and free_law: "inv s \<Longrightarrow> free tid s = Done s' \<Longrightarrow> inv s' \<and> live s' = live s - {tid}"
begin

lemma held_next:
  assumes "inv s" and "distinct held" and "set held = live s" and "nxt s = Done (s', r)"
  shows "inv s' \<and> distinct (case r of Some tid \<Rightarrow> tid # held | None \<Rightarrow> held)
    \<and> set (case r of Some tid \<Rightarrow> tid # held | None \<Rightarrow> held) = live s'"
  using nxt_law[OF assms(1)] assms(2-4) by (auto split: option.splits)

lemma held_free:
  assumes "inv s" and "distinct held" and "set held = live s" and "free tid s = Done s'"
  shows "inv s' \<and> distinct (removeAll tid held) \<and> set (removeAll tid held) = live s'"
  using free_law[OF assms(1,4)] assms(2,3) by (simp add: distinct_removeAll)

end

text \<open>The slot probed in round \<open>k\<close>, and that it is the first one found free.\<close>

definition probe :: "thread_ids \<Rightarrow> nat \<Rightarrow> nat" where
  "probe s k = (next_thread_id s + k) mod MAX_THREAD_NUM"

definition first_free :: "thread_ids \<Rightarrow> nat \<Rightarrow> bool" where
  "first_free s k \<longleftrightarrow> \<not> thread_id_used s ! probe s k \<and> (\<forall>j<k. thread_id_used s ! probe s j)"

definition take_id :: "thread_ids \<Rightarrow> nat \<Rightarrow> thread_ids" where
  "take_id s i = s\<lparr>next_thread_id := (i + 1) mod MAX_THREAD_NUM, thread_id_used := (thread_id_used s)[i := True]\<rparr>"

lemma next_loop_cases:
  assumes "wf_ids s"
  shows "(\<exists>s'. ThreadId_next_loop n s = Done (s', None) \<and> thread_id_used s' = thread_id_used s \<and> wf_ids s' \<and>
      (\<forall>k<n. thread_id_used s ! probe s k)) \<or>
    (\<exists>k<n. first_free s k \<and> ThreadId_next_loop n s = Done (take_id s (probe s k), Some (of_nat (probe s k))))"
  using assms
proof (induction n arbitrary: s)
  case 0
  then show ?case by auto
next
  case (Suc n)
  let ?i = "next_thread_id s" and ?s = "s\<lparr>next_thread_id := (next_thread_id s + 1) mod MAX_THREAD_NUM\<rparr>"
  have i: "?i < MAX_THREAD_NUM" "length (thread_id_used s) = MAX_THREAD_NUM" using Suc.prems by (auto simp: wf_ids_def)
  have p0: "probe s 0 = ?i" using i by (simp add: probe_def)
  have ps: "probe ?s k = probe s (Suc k)" for k by (simp add: probe_def mod_simps)
  show ?case
  proof (cases "thread_id_used s ! ?i")
    case False
    then show ?thesis using i p0
      by (intro disjI2 exI[of _ 0]) (simp add: first_free_def take_id_def Let_def)
  next
    case True
    have step: "ThreadId_next_loop (Suc n) s = ThreadId_next_loop n ?s" using True i by (simp add: Let_def)
    have "wf_ids ?s" using i by (simp add: wf_ids_def)
    from Suc.IH[OF this] show ?thesis
    proof (elim disjE exE conjE)
      fix s' assume "ThreadId_next_loop n ?s = Done (s', None)" "thread_id_used s' = thread_id_used ?s" "wf_ids s'"
        "\<forall>k<n. thread_id_used ?s ! probe ?s k"
      then show ?thesis using True p0 unfolding step ps
        by (intro disjI1 exI[of _ s']) (simp add: All_less_Suc2)
    next
      fix k assume "k < n" "first_free ?s k"
        "ThreadId_next_loop n ?s = Done (take_id ?s (probe ?s k), Some (of_nat (probe ?s k)))"
      then show ?thesis using True p0 unfolding step first_free_def ps
        by (intro disjI2 exI[of _ "Suc k"]) (simp add: All_less_Suc2 take_id_def)
    qed
  qed
qed

lemma probe_covers:
  assumes "wf_ids s" and "i < MAX_THREAD_NUM"
  shows "\<exists>k<MAX_THREAD_NUM. probe s k = i"
proof (cases "next_thread_id s \<le> i")
  case True
  then show ?thesis using assms by (intro exI[of _ "i - next_thread_id s"]) (auto simp: probe_def)
next
  case False
  then show ?thesis using assms
    by (intro exI[of _ "i + MAX_THREAD_NUM - next_thread_id s"]) (auto simp: probe_def wf_ids_def mod_if)
qed

lemma probe_less: "probe s k < MAX_THREAD_NUM"
  by (simp add: probe_def)

lemma id_word: "i < MAX_THREAD_NUM \<Longrightarrow> unat (of_nat i :: u32) = i"
  by (rule unat_of_nat_small) simp

lemma wf_take_id: "wf_ids s \<Longrightarrow> wf_ids (take_id s i)"
  by (simp add: wf_ids_def take_id_def)

lemma live_take_id:
  "wf_ids s \<Longrightarrow> i < MAX_THREAD_NUM \<Longrightarrow> live_ids (take_id s i) = insert (of_nat i) (live_ids s)"
  using id_word[of i] by (auto simp: live_ids_def take_id_def wf_ids_def nth_list_update word_unat_eq_iff split: if_splits)

interpretation tid: id_source ThreadId_next ThreadId_free wf_ids live_ids
proof (unfold_locales, goal_cases)
  case (1 s)
  from next_loop_cases[OF 1, of MAX_THREAD_NUM] show ?case
  proof (elim disjE exE conjE)
    fix s' assume "ThreadId_next_loop MAX_THREAD_NUM s = Done (s', None)" "thread_id_used s' = thread_id_used s" "wf_ids s'"
    then show ?case by (simp add: ThreadId_next_def live_ids_def)
  next
    fix k assume k: "first_free s k"
      and "ThreadId_next_loop MAX_THREAD_NUM s = Done (take_id s (probe s k), Some (of_nat (probe s k)))"
    moreover have "of_nat (probe s k) \<notin> live_ids s"
      using k id_word[OF probe_less] by (simp add: live_ids_def first_free_def)
    ultimately show ?case using wf_take_id[OF 1] live_take_id[OF 1 probe_less]
      by (auto simp: ThreadId_next_def)
  qed
next
  case (2 s tid s')
  then show ?case
    by (auto simp: ThreadId_free_def wf_ids_def live_ids_def nth_list_update word_unat_eq_iff split: if_splits)
qed

text \<open>C20. \<^verbatim>\<open>ThreadId::next\<close> never indexes out of bounds.  When every number is taken it returns \<^verbatim>\<open>None\<close> and
  takes nothing; otherwise it takes the first free number found from \<^verbatim>\<open>NEXT_THREAD_ID\<close> upwards, wrapping
  at 2048, and the search will resume behind it.\<close>

theorem thread_id_next:
  assumes "wf_ids s"
  shows "if \<forall>i<MAX_THREAD_NUM. thread_id_used s ! i
    then \<exists>s'. ThreadId_next s = Done (s', None) \<and> thread_id_used s' = thread_id_used s \<and> wf_ids s'
    else \<exists>k i s'. i = (next_thread_id s + k) mod MAX_THREAD_NUM \<and> \<not> thread_id_used s ! i
      \<and> (\<forall>j<k. thread_id_used s ! ((next_thread_id s + j) mod MAX_THREAD_NUM))
      \<and> ThreadId_next s = Done (s', Some (of_nat i)) \<and> wf_ids s'
      \<and> thread_id_used s' = (thread_id_used s)[i := True] \<and> next_thread_id s' = (i + 1) mod MAX_THREAD_NUM"
proof (cases "\<forall>i<MAX_THREAD_NUM. thread_id_used s ! i")
  case True
  then have "\<nexists>k. first_free s k" using probe_less by (auto simp: first_free_def)
  then show ?thesis using next_loop_cases[OF assms, of MAX_THREAD_NUM] True by (auto simp: ThreadId_next_def)
next
  case False
  then obtain k where "k < MAX_THREAD_NUM" "\<not> thread_id_used s ! probe s k" using probe_covers[OF assms] by metis
  with next_loop_cases[OF assms, of MAX_THREAD_NUM] obtain k where "first_free s k"
    "ThreadId_next s = Done (take_id s (probe s k), Some (of_nat (probe s k)))" by (auto simp: ThreadId_next_def)
  then show ?thesis using False wf_take_id[OF assms] unfolding if_not_P[OF False]
    by (intro exI[of _ k] exI[of _ "probe s k"] exI[of _ "take_id s (probe s k)"])
      (simp add: first_free_def probe_def take_id_def)
qed

theorem thread_id_next_witness:
  "wf_ids thread_ids_init \<and> (\<exists>s'. ThreadId_next thread_ids_init = Done (s', Some 0) \<and> wf_ids s')"
proof -
  have wf: "wf_ids thread_ids_init" by (simp add: wf_ids_def thread_ids_init_def)
  have u: "thread_id_used thread_ids_init ! i = False" if "i < MAX_THREAD_NUM" for i
    using that by (simp add: thread_ids_init_def del: pool_sizes)
  have "\<not> (\<forall>i<MAX_THREAD_NUM. thread_id_used thread_ids_init ! i)" using u[of 0] by (auto intro: exI[of _ 0])
  from thread_id_next[OF wf, unfolded if_not_P[OF this]] obtain k i s' where
    *: "i = (0 + k) mod MAX_THREAD_NUM" "\<forall>j<k. thread_id_used thread_ids_init ! ((0 + j) mod MAX_THREAD_NUM)"
    "ThreadId_next thread_ids_init = Done (s', Some (of_nat i))" "wf_ids s'"
    by (auto simp: thread_ids_init_def)
  have "k = 0" using *(2)[rule_format, of 0] u[of 0] by (cases k) auto
  with * wf show ?thesis by auto
qed

section \<open>The server under any interleaving of clients\<close>

text \<open>The numbers handed out and not given back: the answer to \<^verbatim>\<open>ThreadEnter\<close> adds one, a
  \<^verbatim>\<open>ThreadExit\<close> takes one away.\<close>

definition held_after :: "request option \<Rightarrow> response \<Rightarrow> u32 list \<Rightarrow> u32 list" where
  "held_after req res held = (case req of
       Some (ThreadExit tid) \<Rightarrow> removeAll tid held
     | _ \<Rightarrow> (case resp_data res of Ok (RespThreadEnter tid) \<Rightarrow> tid # held | _ \<Rightarrow> held))"

definition event_request :: "(u8 list \<Rightarrow> request option) \<Rightarrow> event \<Rightarrow> request option" where
  "event_request from_json ev = (case ev of Readable fd (Ok buf) wr dereg \<Rightarrow> from_json buf | _ \<Rightarrow> None)"

inductive server_reach :: "(u8 list \<Rightarrow> request option) \<Rightarrow> server \<Rightarrow> u32 list \<Rightarrow> bool"
  for from_json :: "u8 list \<Rightarrow> request option" where
  reach_init: "server_reach from_json server_init []"
| reach_step: "server_reach from_json s held \<Longrightarrow> handle_event from_json ev s = Done ((s', res), r) \<Longrightarrow>
     server_reach from_json s' (case res of None \<Rightarrow> held | Some x \<Rightarrow> held_after (event_request from_json ev) x held)"

lemma accept_loop_ids [simp]: "sv_ids (fst (accept_loop conns s)) = sv_ids s"
  by (induction conns s rule: accept_loop.induct) auto

lemma handle_event_ids:
  assumes "handle_event from_json ev s = Done ((s', res), r)"
  shows "case res of None \<Rightarrow> sv_ids s' = sv_ids s
    | Some x \<Rightarrow> handle_request (event_request from_json ev) (sv_ids s) = Done (sv_ids s', x)"
  using assms accept_loop_ids[of _ s]
  by (auto simp: handle_event_def event_request_def Let_def simp del: accept_loop_ids
      split: event.splits prod.splits result.splits) (metis fst_conv)

definition ids_held :: "thread_ids \<Rightarrow> u32 list \<Rightarrow> bool" where
  "ids_held ids held \<longleftrightarrow> wf_ids ids \<and> distinct held \<and> set held = live_ids ids"

lemma handle_request_held:
  assumes held: "ids_held ids held" and ok: "handle_request req ids = Done (ids', res)"
  shows "ids_held ids' (held_after req res held)"
proof -
  note h = held[unfolded ids_held_def]
  consider "req = Some ThreadEnter" | tid where "req = Some (ThreadExit tid)"
    | "\<forall>tid. req \<noteq> Some ThreadEnter \<and> req \<noteq> Some (ThreadExit tid)" by blast
  then show ?thesis
  proof cases
    case 1
    with ok obtain r where nxt: "ThreadId_next ids = Done (ids', r)"
      and res: "resp_data res = (case r of Some tid \<Rightarrow> Ok (RespThreadEnter tid) | None \<Rightarrow> Err SvcUnknown)"
      by (auto simp: handle_request_def)
    from res have "held_after req res held = (case r of Some tid \<Rightarrow> tid # held | None \<Rightarrow> held)"
      by (simp add: held_after_def 1 split: option.splits)
    then show ?thesis using tid.held_next[OF _ _ _ nxt, of held] h by (simp add: ids_held_def)
  next
    case (2 tid)
    with ok have "ThreadId_free tid ids = Done ids'" by (auto simp: handle_request_def)
    then show ?thesis using tid.held_free[of ids held tid ids'] h by (simp add: ids_held_def held_after_def 2)
  next
    case 3
    with ok have "ids' = ids" "resp_data res = Err SvcInvalidRequest"
      by (auto simp: handle_request_def split: option.splits request.splits)
    then show ?thesis using held 3 by (auto simp: held_after_def split: option.splits request.splits)
  qed
qed

lemma server_reach_held: "server_reach from_json s held \<Longrightarrow> ids_held (sv_ids s) held"
proof (induction rule: server_reach.induct)
  case reach_init
  have "live_ids thread_ids_init = {}" by (auto simp: live_ids_def thread_ids_init_def)
  then show ?case by (simp add: server_init_def ids_held_def wf_ids_def) (simp add: thread_ids_init_def)
next
  case (reach_step s held ev s' res r)
  from handle_event_ids[OF reach_step.hyps(2)] reach_step.IH show ?case
    by (auto split: option.splits intro: handle_request_held)
qed

lemma live_ids_card: "wf_ids s \<Longrightarrow> card (live_ids s) \<le> MAX_THREAD_NUM"
proof -
  assume wf: "wf_ids s"
  have "unat ` live_ids s \<subseteq> {..<MAX_THREAD_NUM}" using wf by (auto simp: live_ids_def wf_ids_def)
  then have "card (unat ` live_ids s) \<le> MAX_THREAD_NUM" using card_mono[of "{..<MAX_THREAD_NUM}"] by fastforce
  moreover have "inj_on unat (live_ids s)" by (simp add: inj_on_def word_unat_eq_iff)
  ultimately show ?thesis by (simp add: card_image)
qed

text \<open>C4. No thread number is ever shared.  In every state the server can reach, whatever the clients
  send and in whatever order their events arrive, the numbers handed out and not given back are
  pairwise different, are exactly the ones marked used, are all below 2048 and so fit the cache table
  of every pool.\<close>

theorem server_ids_unique:
  assumes "server_reach from_json s held"
  shows "distinct held \<and> length held \<le> MAX_THREAD_NUM
    \<and> (\<forall>tid. tid \<in> set held \<longleftrightarrow> unat tid < MAX_THREAD_NUM \<and> thread_id_used (sv_ids s) ! unat tid)"
proof -
  have h: "ids_held (sv_ids s) held" by (rule server_reach_held[OF assms])
  then have "length held = card (live_ids (sv_ids s))" by (metis ids_held_def distinct_card)
  with h live_ids_card[of "sv_ids s"] show ?thesis by (auto simp: ids_held_def live_ids_def wf_ids_def)
qed

lemma next_init: "ThreadId_next thread_ids_init = Done (take_id thread_ids_init 0, Some 0)"
proof -
  have "ThreadId_next_loop (Suc 2047) thread_ids_init = Done (take_id thread_ids_init 0, Some 0)"
    unfolding ThreadId_next_loop.simps by (simp add: thread_ids_init_def take_id_def Let_def)
  then show ?thesis by (simp add: ThreadId_next_def)
qed

theorem server_ids_unique_witness:
  "\<exists>s. server_reach (\<lambda>_. Some ThreadEnter) s [0] \<and> thread_id_used (sv_ids s) ! 0"
proof -
  let ?js = "\<lambda>_ :: u8 list. Some ThreadEnter" and ?ev = "Readable 5 (Ok []) (Ok ()) (Ok ())"
  obtain s where "handle_event ?js ?ev server_init = Done ((s, Some \<lparr>resp_data = Ok (RespThreadEnter 0)\<rparr>), Ok ())"
    by (simp add: handle_event_def handle_request_def server_init_def next_init)
  from server_reach.reach_step[OF server_reach.reach_init this]
  have "server_reach ?js s [0]" by (simp add: held_after_def event_request_def)
  moreover from server_ids_unique[OF this] have "thread_id_used (sv_ids s) ! 0" by (metis list.set_intros(1) unat_0)
  ultimately show ?thesis by blast
qed

text \<open>When the server panics: a well-formed request is answered, with one exception. Exactly a
  \<^verbatim>\<open>ThreadExit\<close> whose number is 2048 or more, which any client can send, takes the whole server down.\<close>

lemma handle_request_panics:
  assumes "wf_ids ids"
  shows "handle_request req ids = Panic \<longleftrightarrow> (\<exists>tid. req = Some (ThreadExit tid) \<and> MAX_THREAD_NUM \<le> unat tid)"
proof -
  from tid.nxt_law[OF assms] obtain ids' r where "ThreadId_next ids = Done (ids', r)" by blast
  then show ?thesis using assms
    by (auto simp: handle_request_def ThreadId_free_def wf_ids_def split: option.splits request.splits)
qed

text \<open>One request per connection.  After any event on a connection its descriptor is closed, also
  when the read only has to be retried: a second request on it, in particular the client's own retry,
  is never read.\<close>

lemma connection_is_closed:
  assumes "handle_event from_json (Readable fd rd wr dereg) s = Done ((s', res), r)"
  shows "set (sv_open s') = set (sv_open s) - {fd} \<and> (\<forall>k. rd = Err k \<longrightarrow> res = None)
    \<and> (\<forall>k. rd = Err k \<and> retriable k \<longrightarrow> r = Ok ())"
  using assms by (auto simp: handle_event_def Let_def io_failed_def split: result.splits)

section \<open>The retry loop of the client\<close>

datatype attempt = Retry | Stop "(response, error) result"

definition attempt_of :: "(u8 list \<Rightarrow> response option) \<Rightarrow> (unit, io_kind) result \<times> (u8 list, io_kind) result \<Rightarrow> attempt" where
  "attempt_of from_json io = (case io of
       (Err k, _) \<Rightarrow> if retriable k then Retry else Stop (Err (ServiceError SvcIoError))
     | (Ok _, Err k) \<Rightarrow> if retriable k then Retry else Stop (Err (ServiceError SvcIoError))
     | (Ok _, Ok buf) \<Rightarrow> Stop (case from_json buf of Some res \<Rightarrow> Ok res | None \<Rightarrow> Err JsonParseError))"

lemma send_loop_step:
  "i < SEND_MAX_RETRIES \<Longrightarrow> send_loop from_json (Some req) io i =
     (case attempt_of from_json (io i) of Retry \<Rightarrow> send_loop from_json (Some req) io (Suc i) | Stop r \<Rightarrow> r)"
  by (subst send_loop.simps) (auto simp: attempt_of_def split: result.splits prod.splits option.splits)

lemma send_loop_skip:
  "(\<forall>j<n. attempt_of from_json (io (i + j)) = Retry) \<Longrightarrow> i + n \<le> SEND_MAX_RETRIES \<Longrightarrow>
   send_loop from_json (Some req) io i = send_loop from_json (Some req) io (i + n)"
proof (induction n arbitrary: i)
  case (Suc n)
  have "send_loop from_json (Some req) io i = send_loop from_json (Some req) io (Suc i)"
    using Suc.prems by (subst send_loop_step) (auto simp: All_less_Suc2)
  also have "\<dots> = send_loop from_json (Some req) io (Suc i + n)"
    using Suc.prems by (intro Suc.IH) (auto simp: All_less_Suc2)
  finally show ?case by simp
qed simp

text \<open>C29. The retry loop of \<^verbatim>\<open>send_request\<close> always returns.  The answer is that of the first round that is
  not interrupted or timed out, if there is one among the first five; after five such rounds it is the
  I/O error, and no sixth request is written.\<close>

theorem send_request_retries:
  assumes "to_json req = Some buf"
  shows "(\<forall>n<5. (\<forall>j<n. attempt_of from_json (io j) = Retry) \<longrightarrow> (\<forall>r. attempt_of from_json (io n) = Stop r \<longrightarrow>
        send_request to_json from_json (Ok ()) (Ok ()) (Ok ()) io req = r))
    \<and> ((\<forall>j<5. attempt_of from_json (io j) = Retry) \<longrightarrow>
        send_request to_json from_json (Ok ()) (Ok ()) (Ok ()) io req = Err (ServiceError SvcIoError))"
proof -
  have req: "send_request to_json from_json (Ok ()) (Ok ()) (Ok ()) io req = send_loop from_json (Some buf) io 0"
    using assms by (simp add: send_request_def)
  have skip: "send_loop from_json (Some buf) io 0 = send_loop from_json (Some buf) io n"
    if "\<forall>j<n. attempt_of from_json (io j) = Retry" "n \<le> 5" for n
    using send_loop_skip[of n from_json io 0 buf] that by (simp add: SEND_MAX_RETRIES_def)
  have "send_loop from_json (Some buf) io 5 = Err (ServiceError SvcIoError)"
    by (subst send_loop.simps) (simp add: SEND_MAX_RETRIES_def)
  then have "send_loop from_json (Some buf) io 0 = Err (ServiceError SvcIoError)"
    if "\<forall>j<5. attempt_of from_json (io j) = Retry" using skip[of 5] that by simp
  moreover have "send_loop from_json (Some buf) io n = r" if "n < 5" "attempt_of from_json (io n) = Stop r" for n r
    using that by (simp add: send_loop_step SEND_MAX_RETRIES_def)
  then have "send_loop from_json (Some buf) io 0 = r"
    if "n < 5" "\<forall>j<n. attempt_of from_json (io j) = Retry" "attempt_of from_json (io n) = Stop r" for n r
    using that skip[of n] by simp
  ultimately show ?thesis unfolding req by blast
qed

theorem send_request_retries_witness:
  "send_request (\<lambda>_. Some [1]) (\<lambda>_. Some \<lparr>resp_data = Ok RespNone\<rparr>) (Ok ()) (Ok ()) (Ok ())
     (\<lambda>i. if i < 2 then (Ok (), Err WouldBlock) else (Ok (), Ok [])) ThreadEnter = Ok \<lparr>resp_data = Ok RespNone\<rparr>"
proof -
  let ?io = "\<lambda>i :: nat. if i < 2 then (Ok (), Err WouldBlock) else (Ok (), Ok [] :: (u8 list, io_kind) result)"
  let ?js = "\<lambda>_ :: u8 list. Some \<lparr>resp_data = Ok RespNone\<rparr>"
  show ?thesis
    by (rule send_request_retries[of "\<lambda>_. Some [1]" ThreadEnter "[1]" ?js ?io, THEN conjunct1, rule_format, of 2])
      (simp_all add: attempt_of_def retriable_def)
qed

end
