(* ===== verification/Engine.thy ===== *)
theory Engine
  imports Service Config
begin

text \<open>
  \<^verbatim>\<open>omnistack-core/src/engine.rs\<close>, with the trait of \<^verbatim>\<open>module.rs\<close>: graphs, workers and the run loop.  A
  module is a value of a type \<open>'m\<close> and the trait's methods are the record \<open>module_ops\<close>.

  The worker keeps its pending tasks in a fixed array of 2048 entries with an index, written and read
  with unchecked accesses.  \<open>drain_step\<close> is one round of the inner loop on that array, \<open>stack_step\<close> the
  same round on an unbounded stack; \<open>drain_step_refines\<close> says that they agree as long as the new tasks fit.
  The locale \<open>engine_modules\<close> is what the loop relies on from the modules and the graph; in it the
  loop is shown to end and to stay inside the array.
\<close>

section \<open>Modules, graphs and workers\<close>

definition CAPA_PROCESS :: u32 where "CAPA_PROCESS = 1"
definition CAPA_POLL :: u32 where "CAPA_POLL = 2"

definition capa_contains :: "u32 \<Rightarrow> u32 \<Rightarrow> bool" where
  "capa_contains capa f \<longleftrightarrow> capa AND f = f"

record ('m, 'x) module_ops =
  op_init :: "Context \<Rightarrow> 'm \<Rightarrow> 'x world \<Rightarrow> (('m \<times> 'x world) \<times> (unit, error) result) outcome"
  op_process :: "Context \<Rightarrow> 'm \<Rightarrow> ptr \<Rightarrow> 'x world \<Rightarrow> (('m \<times> 'x world) \<times> (unit, error) result) outcome"
  op_poll :: "Context \<Rightarrow> 'm \<Rightarrow> 'x world \<Rightarrow> (('m \<times> 'x world) \<times> (ptr, error) result) outcome"
  op_capability :: "'m \<Rightarrow> u32"
  op_destroy :: "Context \<Rightarrow> 'm \<Rightarrow> 'x world \<Rightarrow> ('m \<times> 'x world) outcome"

text \<open>The methods the trait itself provides.\<close>

definition default_init :: "Context \<Rightarrow> 'm \<Rightarrow> 'x world \<Rightarrow> (('m \<times> 'x world) \<times> (unit, error) result) outcome" where
  "default_init ctx m w = Done ((m, w), Ok ())"

definition default_poll :: "Context \<Rightarrow> 'm \<Rightarrow> 'x world \<Rightarrow> (('m \<times> 'x world) \<times> (ptr, error) result) outcome" where
  "default_poll ctx m w = Done ((m, w), Err Nop)"

definition default_capability :: "'m \<Rightarrow> u32" where
  "default_capability m = CAPA_PROCESS"

definition default_destroy :: "Context \<Rightarrow> 'm \<Rightarrow> 'x world \<Rightarrow> ('m \<times> 'x world) outcome" where
  "default_destroy ctx m w = Done (m, w)"

record task =
  t_node :: nat
  t_data :: "ptr option"

definition INVALID_NODEID :: nat where "INVALID_NODEID = 2 ^ 64 - 1"

definition task_default :: task where
  "task_default = \<lparr>t_node = INVALID_NODEID, t_data = None\<rparr>"

record 'm node =
  nd_module :: 'm
  links_to :: "nat list"

record 'm graph =
  gr_id :: u32
  gr_cpu :: u32
  gr_nodes :: "'m node list"

record 'm worker =
  wk_queue :: "task list"
  wk_nodes :: "'m node list"
  wk_poll :: "nat list"
  wk_id :: u32
  wk_graph_id :: u32
  wk_cpu :: u32
  wk_stack_name :: string

definition LINKS_CAP :: nat where "LINKS_CAP = 4"
definition NODES_CAP :: nat where "NODES_CAP = 32"
definition POLL_CAP :: nat where "POLL_CAP = 8"
definition TASK_QUEUE_SIZE :: nat where "TASK_QUEUE_SIZE = 2048"

definition Node_from_module :: "'m \<Rightarrow> 'm node" where
  "Node_from_module m = \<lparr>nd_module = m, links_to = []\<rparr>"

text \<open>The position of the first module of a name, as \<^verbatim>\<open>iter().enumerate().find(..)\<close> yields it.\<close>

fun find_index :: "string \<Rightarrow> string list \<Rightarrow> nat option" where
  "find_index m [] = None"
| "find_index m (x # xs) = (if x = m then Some 0 else map_option Suc (find_index m xs))"

definition push_link :: "nat \<Rightarrow> nat \<Rightarrow> 'm node list \<Rightarrow> 'm node list outcome" where
  "push_link src dst nodes =
     (if length nodes \<le> src then Panic
      else if length (links_to (nodes ! src)) < LINKS_CAP
      then Done (nodes[src := (nodes ! src)\<lparr>links_to := links_to (nodes ! src) @ [dst]\<rparr>]) else Panic)"

fun link_all :: "string list \<Rightarrow> (string \<times> string) list \<Rightarrow> 'm node list \<Rightarrow> 'm node list outcome" where
  "link_all modules [] nodes = Done nodes"
| "link_all modules ((src, dst) # links) nodes =
     andthen (unwrap (find_index src modules)) (\<lambda>i.
     andthen (unwrap (find_index dst modules)) (\<lambda>j.
     andthen (push_link i j nodes) (link_all modules links)))"

definition Graph_new :: "(string \<Rightarrow> 'm outcome) \<Rightarrow> u32 \<Rightarrow> graph_config \<Rightarrow> u32 \<Rightarrow> 'm graph outcome" where
  "Graph_new build_module gid config cpu =
     andthen (map_out (\<lambda>m. andthen (build_module m) (\<lambda>x. Done (Node_from_module x))) (gc_modules config)) (\<lambda>nodes.
     andthen (link_all (gc_modules config) (gc_links config) nodes) (\<lambda>nodes.
     Done \<lparr>gr_id = gid, gr_cpu = cpu, gr_nodes = nodes\<rparr>))"

definition Worker_new :: "u32 \<Rightarrow> string \<Rightarrow> u32 \<Rightarrow> 'm node list \<Rightarrow> u32 \<Rightarrow> 'm worker outcome" where
  "Worker_new wid stack_name graph_id nodes cpu =
     (if length nodes \<le> NODES_CAP
      then Done \<lparr>wk_queue = replicate TASK_QUEUE_SIZE task_default, wk_nodes = nodes, wk_poll = [], wk_id = wid,
        wk_graph_id = graph_id, wk_cpu = cpu, wk_stack_name = stack_name\<rparr>
      else Panic)"

section \<open>The run loop\<close>

record ('m, 'x) estate =
  es_nodes :: "'m node list"
  es_queue :: "task list"
  es_index :: nat
  es_world :: "'x world"

type_synonym ('m, 'x) estep = "(('m, 'x) estate \<times> (unit, error) result) outcome"

text \<open>Initialisation of the modules, in the order of the nodes; \<open>pre\<close> are the nodes already
  initialised.\<close>

fun init_nodes :: "('m, 'x) module_ops \<Rightarrow> Context \<Rightarrow> 'm node list \<Rightarrow> 'm node list \<Rightarrow> nat list \<Rightarrow> 'x world
    \<Rightarrow> (('m node list \<times> nat list \<times> 'x world) \<times> (unit, error) result) outcome" where
  "init_nodes ops ctx pre [] poll w = Done ((pre, poll, w), Ok ())"
| "init_nodes ops ctx pre (nd # nds) poll w =
     andthen (op_init ops ctx (nd_module nd) w) (\<lambda>((m, w1), r).
     let nd1 = nd\<lparr>nd_module := m\<rparr> in
     case r of Err e \<Rightarrow> Done ((pre @ nd1 # nds, poll, w1), Err e)
     | Ok _ \<Rightarrow>
       let capa = op_capability ops m in
       andthen (assert_that (capa_contains capa CAPA_PROCESS)) (\<lambda>_.
       if capa_contains capa CAPA_POLL
       then (if length poll < POLL_CAP
             then init_nodes ops ctx (pre @ [nd1]) nds (poll @ [length pre]) w1 else Panic)
       else init_nodes ops ctx (pre @ [nd1]) nds poll w1))"

text \<open>Queueing what a poll returned: the packets of the chain, for every link.  The walk over the chain
  ends or leaves the task array, so it needs no fuel.\<close>

definition write_task :: "nat \<Rightarrow> ptr \<Rightarrow> task list \<Rightarrow> nat \<Rightarrow> (task list \<times> nat) outcome" where
  "write_task n p q i =
     (if i < TASK_QUEUE_SIZE then Done (q[i := \<lparr>t_node = n, t_data = Some p\<rparr>], Suc i) else Undef)"

function push_chain :: "nat \<Rightarrow> 'x world \<Rightarrow> ptr option \<Rightarrow> task list \<times> nat \<Rightarrow> (task list \<times> nat) outcome" where
  "push_chain n w None s = Done s"
| "push_chain n w (Some p) s =
     andthen (write_task n p (fst s) (snd s)) (\<lambda>s1.
     andthen (deref_pkt p w) (\<lambda>pkt. push_chain n w (p_next pkt) s1))"
  by pat_completeness auto
termination
  by (relation "measure (\<lambda>(_, _, _, s). TASK_QUEUE_SIZE - snd s)") (auto simp: write_task_def split: if_splits)

fun push_links :: "nat list \<Rightarrow> 'x world \<Rightarrow> ptr \<Rightarrow> task list \<times> nat \<Rightarrow> (task list \<times> nat) outcome" where
  "push_links [] w p s = Done s"
| "push_links (n # ns) w p s = andthen (push_chain n w (Some p) s) (push_links ns w p)"

definition poll_node :: "('m, 'x) module_ops \<Rightarrow> Context \<Rightarrow> nat \<Rightarrow> ('m, 'x) estate \<Rightarrow> ('m, 'x) estep" where
  "poll_node ops ctx n st =
     (if length (es_nodes st) \<le> n then Undef
      else let nd = es_nodes st ! n in
       andthen (op_poll ops ctx (nd_module nd) (es_world st)) (\<lambda>((m, w), r).
       let st1 = st\<lparr>es_nodes := (es_nodes st)[n := nd\<lparr>nd_module := m\<rparr>], es_world := w\<rparr> in
       case r of
         Ok p \<Rightarrow> andthen (push_links (links_to nd) w p (es_queue st, es_index st)) (\<lambda>(q, i).
           Done (st1\<lparr>es_queue := q, es_index := i\<rparr>, Ok ()))
       | Err Nop \<Rightarrow> Done (st1, Ok ())
       | Err e \<Rightarrow> Done (st1, Err e)))"

fun poll_nodes :: "('m, 'x) module_ops \<Rightarrow> Context \<Rightarrow> nat list \<Rightarrow> ('m, 'x) estate \<Rightarrow> ('m, 'x) estep" where
  "poll_nodes ops ctx [] st = Done (st, Ok ())"
| "poll_nodes ops ctx (n # ns) st = qmark (poll_node ops ctx n st) (\<lambda>st1 _. poll_nodes ops ctx ns st1)"

text \<open>One round of the drain loop: pop a task, process its packet, and queue it for every link of the
  node with its reference count raised by the number of links less one.\<close>

definition bump_refcnt :: "profile \<Rightarrow> ptr \<Rightarrow> nat \<Rightarrow> 'x world \<Rightarrow> 'x world outcome" where
  "bump_refcnt prof p k w =
     andthen (sub_chk prof (of_nat k) 1) (\<lambda>d.
     andthen (deref_pkt p w) (\<lambda>pkt.
     andthen (add_chk prof (p_refcnt pkt) d) (\<lambda>r.
     Done (set_pkt p (pkt\<lparr>p_refcnt := r\<rparr>) w))))"

fun push_tasks :: "nat list \<Rightarrow> ptr \<Rightarrow> task list \<times> nat \<Rightarrow> (task list \<times> nat) outcome" where
  "push_tasks [] p s = Done s"
| "push_tasks (n # ns) p s = andthen (write_task n p (fst s) (snd s)) (push_tasks ns p)"

definition drain_step :: "('m, 'x) module_ops \<Rightarrow> profile \<Rightarrow> Context \<Rightarrow> ('m, 'x) estate \<Rightarrow> ('m, 'x) estep" where
  "drain_step ops prof ctx st =
     (let i = es_index st - 1; t = es_queue st ! i in
      if TASK_QUEUE_SIZE \<le> i then Undef
      else case t_data t of None \<Rightarrow> Undef
      | Some p \<Rightarrow>
        andthen (deref_pkt p (es_world st)) (\<lambda>_.
        if length (es_nodes st) \<le> t_node t then Undef
        else let nd = es_nodes st ! t_node t in
          andthen (op_process ops ctx (nd_module nd) p (es_world st)) (\<lambda>((m, w), r).
          let st1 = st\<lparr>es_nodes := (es_nodes st)[t_node t := nd\<lparr>nd_module := m\<rparr>], es_world := w, es_index := i\<rparr> in
          case r of
            Ok _ \<Rightarrow> andthen (bump_refcnt prof p (length (links_to nd)) w) (\<lambda>w1.
              andthen (push_tasks (links_to nd) p (es_queue st, i)) (\<lambda>(q, j).
              Done (st1\<lparr>es_world := w1, es_queue := q, es_index := j\<rparr>, Ok ())))
          | Err Dropped \<Rightarrow> Done (st1, Ok ())
          | Err e \<Rightarrow> Done (st1, Err e))))"

fun drain :: "nat \<Rightarrow> ('m, 'x) module_ops \<Rightarrow> profile \<Rightarrow> Context \<Rightarrow> ('m, 'x) estate \<Rightarrow> ('m, 'x) estep" where
  "drain fuel ops prof ctx st =
     (if es_index st = 0 then Done (st, Ok ())
      else case fuel of 0 \<Rightarrow> Hang
      | Suc f \<Rightarrow> qmark (drain_step ops prof ctx st) (\<lambda>st1 _. drain f ops prof ctx st1))"

declare drain.simps [simp del]

text \<open>The outer loop, for the number of rounds until \<^verbatim>\<open>should_stop\<close> is seen.\<close>

fun run_rounds :: "nat \<Rightarrow> nat \<Rightarrow> ('m, 'x) module_ops \<Rightarrow> profile \<Rightarrow> Context \<Rightarrow> nat list \<Rightarrow> ('m, 'x) estate
    \<Rightarrow> ('m, 'x) estep" where
  "run_rounds 0 fuel ops prof ctx polls st = Done (st, Ok ())"
| "run_rounds (Suc n) fuel ops prof ctx polls st =
     qmark (poll_nodes ops ctx polls st) (\<lambda>st1 _.
     qmark (drain fuel ops prof ctx st1) (\<lambda>st2 _.
     run_rounds n fuel ops prof ctx polls st2))"

fun destroy_nodes :: "('m, 'x) module_ops \<Rightarrow> Context \<Rightarrow> 'm node list \<Rightarrow> 'x world \<Rightarrow> ('m node list \<times> 'x world) outcome" where
  "destroy_nodes ops ctx [] w = Done ([], w)"
| "destroy_nodes ops ctx (nd # nds) w =
     andthen (op_destroy ops ctx (nd_module nd) w) (\<lambda>(m, w1).
     andthen (destroy_nodes ops ctx nds w1) (\<lambda>(nds1, w2). Done (nd\<lparr>nd_module := m\<rparr> # nds1, w2)))"

definition enter_thread :: "(response, error) result \<Rightarrow> (u32, error) result" where
  "enter_thread res = (case res of Err e \<Rightarrow> Err e
     | Ok r \<Rightarrow> (case resp_data r of Err e \<Rightarrow> Err (ServiceError e)
        | Ok (RespThreadEnter tid) \<Rightarrow> Ok tid
        | Ok _ \<Rightarrow> Err Unknown))"

definition Worker_run ::
  "profile \<Rightarrow> 'x dpdk_api \<Rightarrow> ('m, 'x) module_ops \<Rightarrow> (response, error) result \<Rightarrow> u32 \<Rightarrow> nat \<Rightarrow> nat \<Rightarrow> nat
     \<Rightarrow> 'm worker \<Rightarrow> thread_cells \<times> 'x world \<Rightarrow> (('m worker \<times> thread_cells \<times> 'x world) \<times> (unit, error) result) outcome"
where
  "Worker_run prof api ops entered socket_id rounds fuel t wk s =
     (case enter_thread entered of Err e \<Rightarrow> Done ((wk, s), Err e)
      | Ok tid \<Rightarrow>
        let cells = ThreadId_set t tid (fst s) in
        andthen (PacketPool_get_or_create prof api socket_id tid (snd s)) (\<lambda>(w1, pool).
        let ctx = \<lparr>ctx_pktpool = pool, ctx_cpu = wk_cpu wk, ctx_worker_id = wk_id wk, ctx_thread_id = tid,
              ctx_graph_id = wk_graph_id wk, ctx_stack_name = wk_stack_name wk\<rparr> in
        andthen (init_nodes ops ctx [] (wk_nodes wk) (wk_poll wk) w1) (\<lambda>((nds, polls, w2), r).
        let wk1 = wk\<lparr>wk_nodes := nds, wk_poll := polls\<rparr> in
        case r of Err e \<Rightarrow> Done ((wk1, cells, w2), Err e)
        | Ok _ \<Rightarrow>
          andthen (run_rounds rounds fuel ops prof ctx polls
            \<lparr>es_nodes = nds, es_queue = wk_queue wk, es_index = 0, es_world = w2\<rparr>) (\<lambda>(st, r2).
          let wk2 = wk1\<lparr>wk_nodes := es_nodes st, wk_queue := es_queue st\<rparr> in
          case r2 of Err e \<Rightarrow> Done ((wk2, cells, es_world st), Err e)
          | Ok _ \<Rightarrow> andthen (destroy_nodes ops ctx (es_nodes st) (es_world st)) (\<lambda>(nds3, w3).
              Done ((wk2\<lparr>wk_nodes := nds3\<rparr>, cells, w3), Ok ()))))))"

text \<open>\<^verbatim>\<open>worker_routine\<close>: the thread a worker is launched on must be its own, and an error of
  \<^verbatim>\<open>run\<close> is a panic.\<close>

definition worker_routine ::
  "profile \<Rightarrow> 'x dpdk_api \<Rightarrow> ('m, 'x) module_ops \<Rightarrow> (response, error) result \<Rightarrow> u32 \<Rightarrow> nat \<Rightarrow> nat \<Rightarrow> nat \<Rightarrow> u32
     \<Rightarrow> 'm worker \<Rightarrow> thread_cells \<times> 'x world \<Rightarrow> ('m worker \<times> thread_cells \<times> 'x world) outcome" where
  "worker_routine prof api ops entered socket_id rounds fuel t lcore wk s =
     andthen (assert_that (lcore = wk_cpu wk)) (\<lambda>_.
     andthen (Worker_run prof api ops entered socket_id rounds fuel t wk s) (\<lambda>(s1, r).
     case r of Ok _ \<Rightarrow> Done s1 | Err e \<Rightarrow> Panic))"

section \<open>Starting the workers\<close>

fun graphs_of :: "config_manager \<Rightarrow> (string \<Rightarrow> 'm outcome) \<Rightarrow> nat \<Rightarrow> graph_entry list \<Rightarrow> 'm graph list outcome" where
  "graphs_of cfg build_module i [] = Done []"
| "graphs_of cfg build_module i (g # gs) =
     andthen (unwrap (get_graph_config cfg (ge_name g))) (\<lambda>gc.
     andthen (map_out (Graph_new build_module (of_nat i) gc) (ge_cpus g)) (\<lambda>xs.
     andthen (graphs_of cfg build_module (Suc i) gs) (\<lambda>ys. Done (xs @ ys))))"

definition run_workers :: "'m graph list \<Rightarrow> string \<Rightarrow> 'm worker list outcome" where
  "run_workers graphs stack_name =
     map_out (\<lambda>(i, g). Worker_new (of_nat i) stack_name (gr_id g) (gr_nodes g) (gr_cpu g)) (enumerate 0 graphs)"

text \<open>\<^verbatim>\<open>sys.rs\<close>: \<open>ret\<close> is what \<^verbatim>\<open>rte_eal_init\<close> returns.\<close>

definition process_init :: "int \<Rightarrow> unit outcome" where
  "process_init ret = (if ret < 0 then Panic else Done ())"

text \<open>\<^verbatim>\<open>Engine::run\<close> up to the launch of the workers: the stack's graphs are built once per CPU, DPDK and
  the server are started (\<open>eal\<close> is what DPDK answers, \<open>handler_ok\<close> and \<open>spawn_ok\<close> say whether the signal
  handler and the thread could be set up), and one worker per graph is handed to its CPU.\<close>

definition Engine_run ::
  "config_manager \<Rightarrow> (string \<Rightarrow> 'm outcome) \<Rightarrow> int \<Rightarrow> bool \<Rightarrow> bool \<Rightarrow> string \<Rightarrow> ('m worker \<times> u32) list outcome" where
  "Engine_run cfg build_module eal handler_ok spawn_ok stack_name =
     andthen (unwrap (get_stack_config cfg stack_name)) (\<lambda>sc.
     andthen (graphs_of cfg build_module 0 (sc_graphs sc)) (\<lambda>graphs.
     andthen (process_init eal) (\<lambda>_.
     andthen (assert_that handler_ok) (\<lambda>_.
     andthen (assert_that spawn_ok) (\<lambda>_.
     andthen (run_workers graphs stack_name) (\<lambda>ws.
     Done (map (\<lambda>w. (w, wk_cpu w)) ws)))))))"

section \<open>The task array is a stack\<close>

record ('m, 'x) sstate =
  ss_nodes :: "'m node list"
  ss_stack :: "(nat \<times> ptr option) list"
  ss_world :: "'x world"

definition stack_step :: "('m, 'x) module_ops \<Rightarrow> profile \<Rightarrow> Context \<Rightarrow> ('m, 'x) sstate
    \<Rightarrow> (('m, 'x) sstate \<times> (unit, error) result) outcome" where
  "stack_step ops prof ctx ss = (case ss_stack ss of
       (n, Some p) # ts \<Rightarrow>
         andthen (deref_pkt p (ss_world ss)) (\<lambda>_.
         if length (ss_nodes ss) \<le> n then Undef
         else let nd = ss_nodes ss ! n in
           andthen (op_process ops ctx (nd_module nd) p (ss_world ss)) (\<lambda>((m, w), r).
           let nds = (ss_nodes ss)[n := nd\<lparr>nd_module := m\<rparr>] in
           case r of
             Ok _ \<Rightarrow> andthen (bump_refcnt prof p (length (links_to nd)) w) (\<lambda>w1.
               Done (\<lparr>ss_nodes = nds, ss_stack = rev (map (\<lambda>l. (l, Some p)) (links_to nd)) @ ts, ss_world = w1\<rparr>, Ok ()))
           | Err Dropped \<Rightarrow> Done (\<lparr>ss_nodes = nds, ss_stack = ts, ss_world = w\<rparr>, Ok ())
           | Err e \<Rightarrow> Done (\<lparr>ss_nodes = nds, ss_stack = ts, ss_world = w\<rparr>, Err e)))
     | _ \<Rightarrow> Undef)"

definition tasks_of :: "task list \<times> nat \<Rightarrow> (nat \<times> ptr option) list" where
  "tasks_of s = rev (map (\<lambda>t. (t_node t, t_data t)) (take (snd s) (fst s)))"

definition es_abs :: "('m, 'x) estate \<Rightarrow> ('m, 'x) sstate" where
  "es_abs st = \<lparr>ss_nodes = es_nodes st, ss_stack = tasks_of (es_queue st, es_index st), ss_world = es_world st\<rparr>"

definition wf_es :: "('m, 'x) estate \<Rightarrow> bool" where
  "wf_es st \<longleftrightarrow> length (es_queue st) = TASK_QUEUE_SIZE \<and> es_index st \<le> TASK_QUEUE_SIZE"

lemma write_task_fits:
  assumes "length q = TASK_QUEUE_SIZE" and "i < TASK_QUEUE_SIZE"
  shows "\<exists>q'. write_task n p q i = Done (q', Suc i) \<and> length q' = TASK_QUEUE_SIZE
    \<and> tasks_of (q', Suc i) = (n, Some p) # tasks_of (q, i)"
  using assms by (simp add: write_task_def tasks_of_def take_Suc_conv_app_nth)

lemma push_tasks_fits:
  assumes "length q = TASK_QUEUE_SIZE" and "i + length ns \<le> TASK_QUEUE_SIZE"
  shows "\<exists>q'. push_tasks ns p (q, i) = Done (q', i + length ns) \<and> length q' = TASK_QUEUE_SIZE
    \<and> tasks_of (q', i + length ns) = rev (map (\<lambda>l. (l, Some p)) ns) @ tasks_of (q, i)"
  using assms
proof (induction ns arbitrary: q i)
  case (Cons n ns)
  from write_task_fits[of q i n p] Cons.prems obtain q1 where q1: "write_task n p q i = Done (q1, Suc i)"
    "length q1 = TASK_QUEUE_SIZE" "tasks_of (q1, Suc i) = (n, Some p) # tasks_of (q, i)" by auto
  from Cons.IH[OF q1(2), of "Suc i"] Cons.prems(2) q1 show ?case by auto
qed simp

text \<open>\<open>room\<close>: if the module of the top task passes the packet on, the new tasks fit the array.\<close>

definition room :: "('m, 'x) module_ops \<Rightarrow> Context \<Rightarrow> ('m, 'x) estate \<Rightarrow> bool" where
  "room ops ctx st \<longleftrightarrow>
     (let t = es_queue st ! (es_index st - 1); nd = es_nodes st ! t_node t in
      \<forall>p m w. t_data t = Some p \<and> op_process ops ctx (nd_module nd) p (es_world st) = Done ((m, w), Ok ()) \<longrightarrow>
        es_index st - 1 + length (links_to nd) \<le> TASK_QUEUE_SIZE)"

lemma tasks_of_top:
  assumes "wf_es st" and "0 < es_index st"
  shows "tasks_of (es_queue st, es_index st) =
    (let t = es_queue st ! (es_index st - 1) in (t_node t, t_data t) # tasks_of (es_queue st, es_index st - 1))"
proof -
  obtain i where i: "es_index st = Suc i" using assms(2) gr0_implies_Suc by blast
  then show ?thesis using assms(1) by (simp add: tasks_of_def wf_es_def take_Suc_conv_app_nth Let_def)
qed

lemma es_abs_simps [simp]:
  "ss_nodes (es_abs st) = es_nodes st" "ss_world (es_abs st) = es_world st"
  "ss_stack (es_abs st) = tasks_of (es_queue st, es_index st)"
  by (simp_all add: es_abs_def)

lemma drain_step_ok:
  assumes wf: "wf_es st" and pos: "0 < es_index st" and fit: "room ops ctx st"
  shows "map_outcome (apfst es_abs) (drain_step ops prof ctx st) = stack_step ops prof ctx (es_abs st)
    \<and> (\<forall>st' r. drain_step ops prof ctx st = Done (st', r) \<longrightarrow> wf_es st')"
proof -
  let ?i = "es_index st - 1" and ?t = "es_queue st ! (es_index st - 1)"
  let ?nd = "es_nodes st ! t_node ?t"
  have i: "?i < TASK_QUEUE_SIZE" "length (es_queue st) = TASK_QUEUE_SIZE" using wf pos by (auto simp: wf_es_def)
  have top: "tasks_of (es_queue st, es_index st) = (t_node ?t, t_data ?t) # tasks_of (es_queue st, ?i)"
    using tasks_of_top[OF wf pos] by (simp add: Let_def)
  show ?thesis
  proof (cases "t_data ?t")
    case None
    then show ?thesis using i top by (simp add: drain_step_def stack_step_def Let_def)
  next
    case (Some p)
    show ?thesis
    proof (cases "pkts (es_world st) p = None \<or> length (es_nodes st) \<le> t_node ?t")
      case True
      then show ?thesis using i top Some
        by (auto simp: drain_step_def stack_step_def Let_def deref_pkt_def split: option.splits)
    next
      case False
      then obtain pkt where pkt: "deref_pkt p (es_world st) = Done pkt" and n: "\<not> length (es_nodes st) \<le> t_node ?t" by auto
      show ?thesis
      proof (cases "op_process ops ctx (nd_module ?nd) p (es_world st)")
        case (Done x)
        obtain m w r where x: "x = ((m, w), r)" by (metis prod.exhaust)
        show ?thesis
        proof (cases r)
          case (Ok u)
          then have "?i + length (links_to ?nd) \<le> TASK_QUEUE_SIZE" using fit Some Done x by (auto simp: room_def Let_def)
          with push_tasks_fits[OF i(2)] obtain q where
            "push_tasks (links_to ?nd) p (es_queue st, ?i) = Done (q, ?i + length (links_to ?nd))" "length q = TASK_QUEUE_SIZE"
            "tasks_of (q, ?i + length (links_to ?nd)) = rev (map (\<lambda>l. (l, Some p)) (links_to ?nd)) @ tasks_of (es_queue st, ?i)"
            "?i + length (links_to ?nd) \<le> TASK_QUEUE_SIZE" by blast
          then show ?thesis
            using i top Some pkt n Done x Ok
            by (cases "bump_refcnt prof p (length (links_to ?nd)) w")
              (auto simp: drain_step_def stack_step_def Let_def es_abs_def wf_es_def)
        next
          case (Err e)
          then show ?thesis using i top Some pkt n Done x
            by (cases e) (auto simp: drain_step_def stack_step_def Let_def es_abs_def wf_es_def)
        qed
      qed (use i top Some pkt n in \<open>auto simp: drain_step_def stack_step_def Let_def\<close>)
    qed
  qed
qed

text \<open>C3. The task array implements a stack.  While the tasks to be pushed fit the 2048 entries, one round
  of the drain loop on the array, with its unchecked reads and writes and its index, does exactly what
  the round on an unbounded stack of tasks does: same result, same packets, same modules, same pending
  tasks; and the index stays within the array.\<close>

theorem drain_step_refines:
  assumes "wf_es st" and "0 < es_index st" and "room ops ctx st"
  shows "map_outcome (apfst es_abs) (drain_step ops prof ctx st) = stack_step ops prof ctx (es_abs st)
    \<and> (\<forall>st' r. drain_step ops prof ctx st = Done (st', r) \<longrightarrow> wf_es st')"
  using assms by (rule drain_step_ok)

section \<open>The drain loop ends inside the array\<close>

text \<open>The number of rounds a task can cause, the fuel for a stack of tasks, and that the array has the room
  the tasks may need: a node of rank \<open>k\<close> can raise the stack by three entries per rank.\<close>

primrec rounds_of_rank :: "nat \<Rightarrow> nat" where
  "rounds_of_rank 0 = 1"
| "rounds_of_rank (Suc k) = 1 + 4 * rounds_of_rank k"

definition fuel_for :: "(nat \<Rightarrow> nat) \<Rightarrow> (nat \<times> ptr) list \<Rightarrow> nat" where
  "fuel_for rank ts = sum_list (map (\<lambda>(n, p). rounds_of_rank (rank n)) ts)"

fun fits :: "(nat \<Rightarrow> nat) \<Rightarrow> (nat \<times> ptr) list \<Rightarrow> bool" where
  "fits rank [] = True"
| "fits rank ((n, p) # ts) \<longleftrightarrow> length ts + 1 + 3 * rank n \<le> TASK_QUEUE_SIZE \<and> fits rank ts"

lemma rounds_mono: "j \<le> k \<Longrightarrow> rounds_of_rank j \<le> rounds_of_rank k"
  by (induction k) (auto simp: le_Suc_eq)

lemma fuel_decreases:
  assumes "\<forall>l\<in>set ls. rank l < rank n" and "length ls \<le> LINKS_CAP"
  shows "fuel_for rank (rev (map (\<lambda>l. (l, p)) ls) @ ts) < fuel_for rank ((n, p) # ts)"
proof (cases "ls = []")
  case True
  then show ?thesis by (cases "rank n") (simp_all add: fuel_for_def)
next
  case False
  then obtain l where "rank l < rank n" using assms(1) by (metis list.set_intros(1) neq_Nil_conv)
  then obtain k where k: "rank n = Suc k" by (cases "rank n") auto
  have "sum_list (map (\<lambda>l. rounds_of_rank (rank l)) ls) \<le> sum_list (map (\<lambda>_. rounds_of_rank k) ls)"
    using assms(1) k by (intro sum_list_mono) (auto intro!: rounds_mono simp: less_Suc_eq_le)
  also have "\<dots> \<le> 4 * rounds_of_rank k" using assms(2) by (simp add: sum_list_triv LINKS_CAP_def)
  finally show ?thesis by (simp add: fuel_for_def k rev_map comp_def sum_list_rev flip: rev_map)
qed

lemma fits_push:
  assumes "\<forall>l\<in>set ls. rank l < k" and "length ts + 1 + 3 * k \<le> TASK_QUEUE_SIZE" and "length ls \<le> LINKS_CAP" and "fits rank ts"
  shows "fits rank (rev (map (\<lambda>l. (l, p)) ls) @ ts)"
proof -
  have "fits rank (map (\<lambda>l. (l, p)) xs @ ts)" if "length xs \<le> LINKS_CAP" "set xs \<subseteq> set ls" for xs
    using that
  proof (induction xs)
    case (Cons x xs)
    then have "rank x < k" using assms(1) by auto
    with Cons assms(2) show ?case by (simp add: LINKS_CAP_def)
  qed (simp add: assms(4))
  from this[of "rev ls"] show ?thesis using assms(3) by (simp add: rev_map)
qed

text \<open>The tasks in the array are \<open>ts\<close>, top first, each with its packet.\<close>

definition represents :: "('m, 'x) estate \<Rightarrow> (nat \<times> ptr) list \<Rightarrow> bool" where
  "represents st ts \<longleftrightarrow> wf_es st \<and> tasks_of (es_queue st, es_index st) = map (apsnd Some) ts"

lemma represents_index: "represents st ts \<Longrightarrow> es_index st = length ts"
  unfolding represents_def wf_es_def tasks_of_def
  by (metis fst_conv snd_conv length_map length_rev length_take min.absorb2)

lemma represents_top:
  assumes "represents st ((n, p) # ts)"
  shows "es_queue st ! (es_index st - 1) = \<lparr>t_node = n, t_data = Some p\<rparr>"
  using tasks_of_top[of st] assms represents_index[OF assms]
  by (auto simp: represents_def Let_def intro: task.equality)

definition at_node :: "'m node list \<Rightarrow> nat \<Rightarrow> 'm \<Rightarrow> 'm node list" where
  "at_node nds n m = nds[n := (nds ! n)\<lparr>nd_module := m\<rparr>]"

text \<open>What the loop needs from the modules and the graph.  \<open>good\<close> is the invariant of the modules, the
  pending tasks (top first) and the memory; \<open>links\<close> is the graph; \<open>rank\<close> decreases along every
  link a packet takes.\<close>

locale engine_modules =
  fixes ops :: "('m, 'x) module_ops" and prof :: profile and ctx :: Context
    and links :: "nat \<Rightarrow> nat list" and rank :: "nat \<Rightarrow> nat"
    and good :: "'m node list \<Rightarrow> (nat \<times> ptr) list \<Rightarrow> 'x world \<Rightarrow> bool"
  assumes process_law: "good nds ((n, p) # ts) w \<Longrightarrow>
      n < length nds \<and> links_to (nds ! n) = links n \<and> pkts w p \<noteq> None \<and>
      (\<exists>m w' r. op_process ops ctx (nd_module (nds ! n)) p w = Done ((m, w'), r) \<and>
        (case r of
           Ok _ \<Rightarrow> (\<forall>l\<in>set (links n). rank l < rank n) \<and> length (links n) \<le> LINKS_CAP \<and>
             (\<exists>w''. bump_refcnt prof p (length (links n)) w' = Done w'' \<and>
               good (at_node nds n m) (rev (map (\<lambda>l. (l, p)) (links n)) @ ts) w'')
         | Err e \<Rightarrow> e = Dropped \<longrightarrow> good (at_node nds n m) ts w'))"
begin

lemma room_law:
  assumes rep: "represents st ((n, p) # ts)" and good: "good (es_nodes st) ((n, p) # ts) (es_world st)"
    and fit: "fits rank ((n, p) # ts)"
  shows "room ops ctx st"
proof -
  have "length ts + length (links n) \<le> TASK_QUEUE_SIZE"
    if "op_process ops ctx (nd_module (es_nodes st ! n)) p (es_world st) = Done ((m, w), Ok ())" for m w
  proof -
    have "(\<forall>l\<in>set (links n). rank l < rank n) \<and> length (links n) \<le> 4"
      using process_law[OF good] that by (auto simp: LINKS_CAP_def)
    then show ?thesis using fit by (cases "links n"; cases "rank n") auto
  qed
  then show ?thesis
    using represents_top[OF rep] represents_index[OF rep] process_law[OF good] by (auto simp: room_def)
qed

lemma stack_law:
  assumes good: "good nds ((n, p) # ts) w" and fit: "fits rank ((n, p) # ts)"
    and stk: "ss_nodes ss = nds" "ss_world ss = w" "ss_stack ss = map (apsnd Some) ((n, p) # ts)"
  shows "\<exists>ss' r. stack_step ops prof ctx ss = Done (ss', r) \<and> (r = Ok () \<longrightarrow>
    (\<exists>ts'. ss_stack ss' = map (apsnd Some) ts' \<and> good (ss_nodes ss') ts' (ss_world ss') \<and> fits rank ts'
       \<and> fuel_for rank ts' < fuel_for rank ((n, p) # ts)))"
proof -
  from process_law[OF good] obtain m w' r where n: "n < length nds" "links_to (nds ! n) = links n" "pkts w p \<noteq> None"
    and pr: "op_process ops ctx (nd_module (nds ! n)) p w = Done ((m, w'), r)"
    and cs: "case r of Ok _ \<Rightarrow> (\<forall>l\<in>set (links n). rank l < rank n) \<and> length (links n) \<le> LINKS_CAP \<and>
         (\<exists>w''. bump_refcnt prof p (length (links n)) w' = Done w'' \<and>
           good (at_node nds n m) (rev (map (\<lambda>l. (l, p)) (links n)) @ ts) w'')
       | Err e \<Rightarrow> e = Dropped \<longrightarrow> good (at_node nds n m) ts w'" by blast
  from n(3) obtain pkt where d: "deref_pkt p w = Done pkt" by auto
  note red = stack_step_def stk n(2) d Let_def
  show ?thesis
  proof (cases r)
    case (Ok u)
    with cs obtain w'' where lk: "\<forall>l\<in>set (links n). rank l < rank n" "length (links n) \<le> LINKS_CAP"
      and b: "bump_refcnt prof p (length (links n)) w' = Done w''"
      and g: "good (at_node nds n m) (rev (map (\<lambda>l. (l, p)) (links n)) @ ts) w''" by auto
    have "rev (map (\<lambda>l. (l, Some p)) (links n)) @ map (apsnd Some) ts = map (apsnd Some) (rev (map (\<lambda>l. (l, p)) (links n)) @ ts)"
      by (simp add: rev_map)
    then show ?thesis
      using n(1) pr Ok b g fits_push[OF lk(1) _ lk(2), of ts p] fit fuel_decreases[OF lk, of p ts]
      by (auto simp: red at_node_def simp del: map_append)
  next
    case (Err e)
    have "fuel_for rank ts < fuel_for rank ((n, p) # ts)" by (cases "rank n") (simp_all add: fuel_for_def)
    then show ?thesis using n(1) pr Err cs fit by (cases e) (auto simp: red at_node_def)
  qed
qed

lemma step_represents:
  assumes rep: "represents st ((n, p) # ts)" and good: "good (es_nodes st) ((n, p) # ts) (es_world st)"
    and fit: "fits rank ((n, p) # ts)"
  shows "\<exists>st' r. drain_step ops prof ctx st = Done (st', r) \<and> (r = Ok () \<longrightarrow>
    (\<exists>ts'. represents st' ts' \<and> good (es_nodes st') ts' (es_world st') \<and> fits rank ts'
      \<and> fuel_for rank ts' < fuel_for rank ((n, p) # ts)))"
proof -
  have wf: "wf_es st" and pos: "0 < es_index st" using rep represents_index[OF rep] by (simp_all add: represents_def)
  note ref = drain_step_ok[OF wf pos room_law[OF assms], of prof]
  have "ss_stack (es_abs st) = map (apsnd Some) ((n, p) # ts)" using rep by (simp add: represents_def)
  from stack_law[OF good fit _ _ this] obtain ss' r where st: "stack_step ops prof ctx (es_abs st) = Done (ss', r)"
    and ok: "r = Ok () \<longrightarrow> (\<exists>ts'. ss_stack ss' = map (apsnd Some) ts' \<and> good (ss_nodes ss') ts' (ss_world ss') \<and> fits rank ts'
       \<and> fuel_for rank ts' < fuel_for rank ((n, p) # ts))" by auto
  from ref st obtain st' where "drain_step ops prof ctx st = Done (st', r)" "ss' = es_abs st'" "wf_es st'"
    by (cases "drain_step ops prof ctx st") auto
  with ok show ?thesis by (auto simp: represents_def)
qed

text \<open>Enough fuel gives a result: the loop ends, never touches memory it may not touch, and leaves an
  empty stack unless a module failed.\<close>

lemma drain_total:
  assumes "represents st ts" and "good (es_nodes st) ts (es_world st)" and "fits rank ts" and "fuel_for rank ts \<le> fuel"
  shows "\<exists>st' r. drain fuel ops prof ctx st = Done (st', r) \<and>
    (r = Ok () \<longrightarrow> represents st' [] \<and> good (es_nodes st') [] (es_world st'))"
  using assms
proof (induction fuel arbitrary: st ts)
  case 0
  have "ts = []"
  proof (cases ts)
    case (Cons t ts')
    obtain n p where "t = (n, p)" by fastforce
    with Cons have "0 < fuel_for rank ts" by (cases "rank n") (simp_all add: fuel_for_def)
    then show ?thesis using 0 by simp
  qed simp
  then show ?case using 0 represents_index[of st ts] by (simp add: drain.simps)
next
  case (Suc f)
  show ?case
  proof (cases ts)
    case Nil
    then show ?thesis using Suc.prems represents_index[of st ts] by (simp add: drain.simps)
  next
    case (Cons t ts1)
    obtain n p where t: "t = (n, p)" by fastforce
    from step_represents[of st n p ts1] Suc.prems Cons t obtain st' r where
        st: "drain_step ops prof ctx st = Done (st', r)"
      and ok: "r = Ok () \<Longrightarrow> \<exists>ts'. represents st' ts' \<and> good (es_nodes st') ts' (es_world st') \<and> fits rank ts'
        \<and> fuel_for rank ts' < fuel_for rank ts" by auto
    have ix: "es_index st \<noteq> 0" using represents_index[OF Suc.prems(1)] Cons by simp
    show ?thesis
    proof (cases r)
      case (Ok u)
      with ok obtain ts' where "represents st' ts'" "good (es_nodes st') ts' (es_world st')" "fits rank ts'"
        "fuel_for rank ts' < fuel_for rank ts" by auto
      with Suc.IH[of st' ts'] Suc.prems(4) st ix Ok show ?thesis by (simp add: drain.simps[of "Suc f"])
    next
      case (Err e)
      then show ?thesis using st ix by (simp add: drain.simps[of "Suc f"])
    qed
  qed
qed

end

section \<open>Graphs and workers are what the configuration says\<close>

lemma map_out_nth:
  "map_out f xs = Done ys \<Longrightarrow> length ys = length xs \<and> (\<forall>i<length xs. f (xs ! i) = Done (ys ! i))"
proof (induction xs arbitrary: ys)
  case (Cons x xs)
  then obtain y ys' where "f x = Done y" "map_out f xs = Done ys'" "ys = y # ys'" by auto
  then show ?case using Cons.IH[of ys'] by (auto simp: nth_Cons split: nat.splits)
qed simp

lemma find_index_Some: "find_index m ms = Some i \<Longrightarrow> i < length ms \<and> ms ! i = m \<and> m \<notin> set (take i ms)"
  by (induction ms arbitrary: i) (auto split: if_splits)

text \<open>The links of node \<open>i\<close>: the targets of the configured links that start at the module of that
  position, in the order of the file.\<close>

definition node_links :: "string list \<Rightarrow> (string \<times> string) list \<Rightarrow> nat \<Rightarrow> nat list" where
  "node_links modules links i =
     map (\<lambda>(src, dst). the (find_index dst modules)) (filter (\<lambda>(src, dst). find_index src modules = Some i) links)"

lemma link_all_spec:
  assumes "link_all modules links nodes = Done nodes'" and "length nodes = length modules"
    and "\<forall>i<length nodes. length (links_to (nodes ! i)) \<le> LINKS_CAP"
  shows "length nodes' = length nodes \<and> (\<forall>i<length nodes. nd_module (nodes' ! i) = nd_module (nodes ! i) \<and>
      links_to (nodes' ! i) = links_to (nodes ! i) @ node_links modules links i \<and>
      length (links_to (nodes' ! i)) \<le> LINKS_CAP \<and> (\<forall>j\<in>set (node_links modules links i). j < length modules))"
  using assms
proof (induction modules links nodes rule: link_all.induct)
  case (1 modules nodes)
  then show ?case by (simp add: node_links_def)
next
  case (2 modules src dst links nodes)
  from "2.prems"(1) obtain i j n1 where ij: "find_index src modules = Some i" "find_index dst modules = Some j"
    and pl: "push_link i j nodes = Done n1" and rest: "link_all modules links n1 = Done nodes'" by auto
  have il: "i < length nodes" "j < length modules" using find_index_Some[OF ij(1)] find_index_Some[OF ij(2)] "2.prems"(2) by auto
  from pl il have n1: "n1 = nodes[i := (nodes ! i)\<lparr>links_to := links_to (nodes ! i) @ [j]\<rparr>]" "length (links_to (nodes ! i)) < LINKS_CAP"
    by (auto simp: push_link_def split: if_splits)
  have "length n1 = length modules" "\<forall>k<length n1. length (links_to (n1 ! k)) \<le> LINKS_CAP"
    using n1 "2.prems"(2,3) il by (auto simp: nth_list_update)
  note IH = "2.IH"[OF _ _ pl rest this, unfolded ij unwrap_simps, OF refl refl]
  have nl: "node_links modules ((src, dst) # links) k = (if k = i then [j] else []) @ node_links modules links k" for k
    using ij by (auto simp: node_links_def)
  show ?case using IH n1 il unfolding nl by (auto simp: nth_list_update)
qed

text \<open>C15. The graph is the configured one.  If \<^verbatim>\<open>Graph::new\<close> returns, there is one node per configured
  module, in order, built for that module's name; a node's links are exactly the configured links that
  start at the first module of that name, in file order; there are at most four and each leads to a
  node of the graph.\<close>

theorem graph_new_links:
  assumes "Graph_new build_module gid cfg cpu = Done g"
  shows "gr_id g = gid \<and> gr_cpu g = cpu \<and> length (gr_nodes g) = length (gc_modules cfg) \<and>
    (\<forall>i<length (gc_modules cfg). build_module (gc_modules cfg ! i) = Done (nd_module (gr_nodes g ! i)) \<and>
       links_to (gr_nodes g ! i) = node_links (gc_modules cfg) (gc_links cfg) i \<and>
       length (links_to (gr_nodes g ! i)) \<le> LINKS_CAP \<and>
       (\<forall>j\<in>set (links_to (gr_nodes g ! i)). j < length (gr_nodes g)))"
proof -
  from assms obtain nds where
      mk: "map_out (\<lambda>m. andthen (build_module m) (\<lambda>x. Done (Node_from_module x))) (gc_modules cfg) = Done nds"
    and lk: "link_all (gc_modules cfg) (gc_links cfg) nds = Done (gr_nodes g)" and g: "gr_id g = gid" "gr_cpu g = cpu"
    by (auto simp: Graph_new_def)
  have nd: "build_module m = Done (nd_module nd) \<and> links_to nd = []"
    if "andthen (build_module m) (\<lambda>x. Done (Node_from_module x)) = Done nd" for m nd
    using that by (auto simp: Node_from_module_def)
  from map_out_nth[OF mk] have n: "length nds = length (gc_modules cfg)"
    "\<forall>i<length nds. build_module (gc_modules cfg ! i) = Done (nd_module (nds ! i)) \<and> links_to (nds ! i) = []"
    using nd by metis+
  then have "\<forall>i<length nds. length (links_to (nds ! i)) \<le> LINKS_CAP" by simp
  from link_all_spec[OF lk n(1) this] n g show ?thesis by auto
qed

theorem graph_new_links_witness:
  "\<exists>g. Graph_new (\<lambda>m. Done m) 0 udp_graph 3 = Done g \<and> gr_cpu g = 3
    \<and> links_to (gr_nodes g ! 0) = node_links (gc_modules udp_graph) (gc_links udp_graph) 0"
proof -
  obtain g where g: "Graph_new (\<lambda>m. Done m) 0 udp_graph 3 = Done g"
    by (simp add: Graph_new_def udp_graph_def push_link_def LINKS_CAP_def Node_from_module_def)
  have "0 < length (gc_modules udp_graph)" by (simp add: udp_graph_def)
  with graph_new_links[OF g] g show ?thesis by blast
qed

lemma Graph_new_cpu: "Graph_new build_module i gc cpu = Done g \<Longrightarrow> gr_cpu g = cpu"
  by (auto simp: Graph_new_def)

lemma Worker_new_fields:
  "Worker_new i stack gid nds cpu = Done wk \<Longrightarrow> wk_id wk = i \<and> wk_cpu wk = cpu \<and> wk_stack_name wk = stack \<and> wk_nodes wk = nds \<and>
     wk_queue wk = replicate TASK_QUEUE_SIZE task_default \<and> length (wk_nodes wk) \<le> NODES_CAP"
  by (auto simp: Worker_new_def split: if_splits)

lemma graphs_of_length:
  "graphs_of cfg build_module i gs = Done xs \<Longrightarrow> map gr_cpu xs = concat (map ge_cpus gs)"
proof (induction gs arbitrary: i xs)
  case (Cons g gs)
  then obtain gc as bs where as: "map_out (Graph_new build_module (of_nat i) gc) (ge_cpus g) = Done as"
    and bs: "graphs_of cfg build_module (Suc i) gs = Done bs" and xs: "xs = as @ bs" by auto
  have "map gr_cpu as = ge_cpus g"
    using map_out_nth[OF as] by (intro nth_equalityI) (auto dest: Graph_new_cpu)
  then show ?case using Cons.IH[OF bs] xs by simp
qed simp

lemma graphs_of_nodes:
  "graphs_of cfg build_module i gs = Done xs \<Longrightarrow> x \<in> set xs \<Longrightarrow>
    \<exists>k<length gs. \<exists>gc. get_graph_config cfg (ge_name (gs ! k)) = Some gc \<and> gr_cpu x \<in> set (ge_cpus (gs ! k)) \<and>
      Graph_new build_module (of_nat (i + k)) gc (gr_cpu x) = Done x"
proof (induction gs arbitrary: i xs)
  case (Cons g gs)
  then obtain gc as bs where gc: "get_graph_config cfg (ge_name g) = Some gc"
    and as: "map_out (Graph_new build_module (of_nat i) gc) (ge_cpus g) = Done as"
    and bs: "graphs_of cfg build_module (Suc i) gs = Done bs" and xs: "xs = as @ bs" by auto
  show ?case
  proof (cases "x \<in> set as")
    case True
    then obtain j where "j < length as" "x = as ! j" by (metis in_set_conv_nth)
    with map_out_nth[OF as] have "j < length (ge_cpus g)" "Graph_new build_module (of_nat i) gc (ge_cpus g ! j) = Done x" by auto
    then show ?thesis using gc Graph_new_cpu by (intro exI[of _ 0]) fastforce
  next
    case False
    then have "x \<in> set bs" using Cons.prems(2) xs by simp
    from Cons.IH[OF bs this] obtain k gc' where "k < length gs" "get_graph_config cfg (ge_name (gs ! k)) = Some gc'"
      "gr_cpu x \<in> set (ge_cpus (gs ! k))" "Graph_new build_module (of_nat (Suc i + k)) gc' (gr_cpu x) = Done x" by blast
    then show ?thesis by (intro exI[of _ "Suc k"]) auto
  qed
qed simp

text \<open>What a worker is started with: the \<open>i\<close>-th one runs, on one of the CPUs of an entry of the stack, the graph
  of that entry.\<close>

definition started_as :: "config_manager \<Rightarrow> (string \<Rightarrow> 'm outcome) \<Rightarrow> stack_config \<Rightarrow> nat \<Rightarrow> 'm worker \<Rightarrow> bool" where
  "started_as cfg build_module sc i wk \<longleftrightarrow> wk_id wk = of_nat i \<and> wk_queue wk = replicate TASK_QUEUE_SIZE task_default \<and>
     length (wk_nodes wk) \<le> NODES_CAP \<and> (\<exists>k<length (sc_graphs sc). \<exists>gc g. get_graph_config cfg (ge_name (sc_graphs sc ! k)) = Some gc \<and>
       wk_cpu wk \<in> set (ge_cpus (sc_graphs sc ! k)) \<and> Graph_new build_module (of_nat k) gc (wk_cpu wk) = Done g \<and> wk_nodes wk = gr_nodes g)"

lemma engine_run_workers:
  assumes run: "Engine_run cfg build_module eal handler_ok spawn_ok stack = Done ws"
  shows "\<exists>sc. get_stack_config cfg stack = Some sc \<and> 0 \<le> eal \<and> map snd ws = concat (map ge_cpus (sc_graphs sc)) \<and>
    (\<forall>i<length ws. wk_cpu (fst (ws ! i)) = snd (ws ! i) \<and> wk_stack_name (fst (ws ! i)) = stack \<and>
       started_as cfg build_module sc i (fst (ws ! i)))"
proof -
  from run obtain sc graphs vs where sc: "get_stack_config cfg stack = Some sc"
    and gs: "graphs_of cfg build_module 0 (sc_graphs sc) = Done graphs" and eal: "0 \<le> eal"
    and vs: "run_workers graphs stack = Done vs" and ws: "ws = map (\<lambda>w. (w, wk_cpu w)) vs"
    by (auto simp: Engine_run_def process_init_def split: if_splits)
  have nth: "length vs = length graphs" "\<And>i. i < length graphs \<Longrightarrow>
      Worker_new (of_nat i) stack (gr_id (graphs ! i)) (gr_nodes (graphs ! i)) (gr_cpu (graphs ! i)) = Done (vs ! i)"
    using map_out_nth[OF vs[unfolded run_workers_def]] by (simp_all add: nth_enumerate_eq)
  note fields = Worker_new_fields[OF nth(2)]
  then have "map wk_cpu vs = map gr_cpu graphs" using nth(1) by (intro nth_equalityI) auto
  then have "map snd ws = concat (map ge_cpus (sc_graphs sc))" using graphs_of_length[OF gs] ws by (simp add: comp_def)
  moreover have "started_as cfg build_module sc i (vs ! i)" if "i < length vs" for i
  proof -
    have i: "i < length graphs" using that nth(1) by simp
    from graphs_of_nodes[OF gs nth_mem[OF i]] fields[OF i] show ?thesis unfolding started_as_def by auto
  qed
  ultimately show ?thesis using sc eal fields nth(1) by (auto simp: ws)
qed

section \<open>What a poll queues\<close>

lemma push_chain_fits:
  assumes "chain w q0 ps" and "length q = TASK_QUEUE_SIZE" and "i + length ps \<le> TASK_QUEUE_SIZE"
  shows "\<exists>q'. push_chain n w q0 (q, i) = Done (q', i + length ps) \<and> length q' = TASK_QUEUE_SIZE
    \<and> tasks_of (q', i + length ps) = rev (map (\<lambda>p. (n, Some p)) ps) @ tasks_of (q, i)"
  using assms
proof (induction ps arbitrary: q0 q i)
  case (Cons p ps)
  then obtain pkt where q0: "q0 = Some p" "pkts w p = Some pkt" "chain w (p_next pkt) ps" by (auto split: option.splits)
  from write_task_fits[of q i n p] Cons.prems obtain q1 where q1: "write_task n p q i = Done (q1, Suc i)"
    "length q1 = TASK_QUEUE_SIZE" "tasks_of (q1, Suc i) = (n, Some p) # tasks_of (q, i)" by auto
  from Cons.IH[OF q0(3) q1(2), of "Suc i"] Cons.prems(3) q0 q1 show ?case by auto
qed simp

text \<open>The tasks one poll leaves, top first: the last link on top, and of its packets the last one.\<close>

fun poll_tasks :: "nat list \<Rightarrow> ptr list \<Rightarrow> (nat \<times> ptr option) list" where
  "poll_tasks [] ps = []"
| "poll_tasks (n # ns) ps = poll_tasks ns ps @ rev (map (\<lambda>p. (n, Some p)) ps)"

lemma push_links_fits:
  assumes "chain w (Some p) ps" and "length q = TASK_QUEUE_SIZE" and "i + length ns * length ps \<le> TASK_QUEUE_SIZE"
  shows "\<exists>q'. push_links ns w p (q, i) = Done (q', i + length ns * length ps) \<and> length q' = TASK_QUEUE_SIZE
    \<and> tasks_of (q', i + length ns * length ps) = poll_tasks ns ps @ tasks_of (q, i)"
  using assms
proof (induction ns arbitrary: q i)
  case (Cons n ns)
  from push_chain_fits[OF Cons.prems(1,2), of i n] Cons.prems(3) obtain q1 where
    q1: "push_chain n w (Some p) (q, i) = Done (q1, i + length ps)" "length q1 = TASK_QUEUE_SIZE"
    "tasks_of (q1, i + length ps) = rev (map (\<lambda>p. (n, Some p)) ps) @ tasks_of (q, i)" by auto
  from Cons.IH[OF Cons.prems(1) q1(2), of "i + length ps"] Cons.prems(3) q1
  show ?case by (auto simp: add.assoc)
qed simp

lemma poll_node_ok:
  assumes "wf_es st" and "n < length (es_nodes st)"
    and "op_poll ops ctx (nd_module (es_nodes st ! n)) (es_world st) = Done ((m, w), Ok p)" and "chain w (Some p) ps"
    and "es_index st + length (links_to (es_nodes st ! n)) * length ps \<le> TASK_QUEUE_SIZE"
  shows "\<exists>st'. poll_node ops ctx n st = Done (st', Ok ()) \<and> wf_es st' \<and> es_world st' = w
    \<and> es_nodes st' = at_node (es_nodes st) n m
    \<and> tasks_of (es_queue st', es_index st') =
        poll_tasks (links_to (es_nodes st ! n)) ps @ tasks_of (es_queue st, es_index st)"
proof -
  have "length (es_queue st) = TASK_QUEUE_SIZE" using assms(1) by (simp add: wf_es_def)
  from push_links_fits[OF assms(4) this assms(5)] assms(1-3,5) show ?thesis
    by (auto simp: poll_node_def Let_def wf_es_def at_node_def)
qed

lemma poll_tasks_rev: "poll_tasks ns ps = rev (concat (map (\<lambda>l. map (\<lambda>p. (l, Some p)) ps) ns))"
  by (induction ns) simp_all

text \<open>C32. What a poll queues.  If the chain the module returns, of distinct packets, fits the task array, then above the tasks that were
  there the array holds, link by link in the order of the node's links and for each link packet by packet in the order of the chain,
  a task for this packet that names the node the link leads to; so every packet is queued exactly once for each link, with the link's
  target.  The memory is left as the module's poll returned it, and of the nodes only the polled module has changed.  So a packet is queued
  once per link while its reference count is not raised, unlike after \<^verbatim>\<open>process\<close>: with two links and
  a count of one, the second task works on a packet the first one may have freed.\<close>

theorem poll_queues_chain:
  assumes "wf_es st" and "n < length (es_nodes st)"
    and "op_poll ops ctx (nd_module (es_nodes st ! n)) (es_world st) = Done ((m, w), Ok p)" and "chain w (Some p) ps"
    and "es_index st + length (links_to (es_nodes st ! n)) * length ps \<le> TASK_QUEUE_SIZE" and "distinct ps"
  shows "\<exists>st' new. poll_node ops ctx n st = Done (st', Ok ()) \<and> wf_es st' \<and> es_world st' = w
    \<and> es_nodes st' = at_node (es_nodes st) n m
    \<and> tasks_of (es_queue st', es_index st') = rev new @ tasks_of (es_queue st, es_index st)
    \<and> new = concat (map (\<lambda>l. map (\<lambda>p. (l, Some p)) ps) (links_to (es_nodes st ! n)))
    \<and> (\<forall>p\<in>set ps. map fst (filter (\<lambda>t. snd t = Some p) new) = links_to (es_nodes st ! n))"
proof -
  have one: "filter (\<lambda>q. q = p) ps = [p]" if "p \<in> set ps" for p
    using that assms(6) by (induction ps) (auto simp: filter_empty_conv)
  have "map fst (filter (\<lambda>t. snd t = Some p) (concat (map (\<lambda>l. map (\<lambda>p. (l, Some p)) ps) ls))) = ls" if "p \<in> set ps" for p ls
    using one[OF that] by (induction ls) (simp_all add: filter_map comp_def)
  then show ?thesis using poll_node_ok[OF assms(1-5)] unfolding poll_tasks_rev by blast
qed

text \<open>A worker with one node that polls the packet at 1024, drops what it is given and has two links.\<close>

definition demo_ops :: "(unit, sim) module_ops" where
  "demo_ops = \<lparr>op_init = default_init, op_process = (\<lambda>ctx m p w. Done ((m, w), Err Dropped)),
     op_poll = (\<lambda>ctx m w. Done ((m, w), Ok 1024)), op_capability = (\<lambda>m. CAPA_PROCESS OR CAPA_POLL),
     op_destroy = default_destroy\<rparr>"

definition demo_state :: "nat \<Rightarrow> (unit, sim) estate" where
  "demo_state i = \<lparr>es_nodes = [\<lparr>nd_module = (), links_to = [0, 0]\<rparr>],
     es_queue = (replicate TASK_QUEUE_SIZE task_default)[0 := \<lparr>t_node = 0, t_data = Some 1024\<rparr>], es_index = i,
     es_world = one_packet_world 1 []\<rparr>"

definition demo_context :: Context where
  "demo_context = \<lparr>ctx_pktpool = \<lparr>pp_mp = 64, pp_thread_id = 0\<rparr>, ctx_cpu = 0, ctx_worker_id = 0, ctx_thread_id = 0,
     ctx_graph_id = 0, ctx_stack_name = ''UDP''\<rparr>"

theorem drain_step_refines_witness:
  "map_outcome (apfst es_abs) (drain_step demo_ops Debug demo_context (demo_state 1))
     = stack_step demo_ops Debug demo_context (es_abs (demo_state 1))"
proof -
  have "wf_es (demo_state 1)" "0 < es_index (demo_state 1)"
    by (simp_all add: wf_es_def demo_state_def TASK_QUEUE_SIZE_def)
  moreover have "room demo_ops demo_context (demo_state 1)" by (simp add: room_def demo_ops_def Let_def)
  ultimately show ?thesis using drain_step_refines[of "demo_state 1" demo_ops demo_context Debug] by blast
qed

theorem poll_queues_chain_witness:
  "\<exists>st'. poll_node demo_ops demo_context 0 (demo_state 0) = Done (st', Ok ())
    \<and> tasks_of (es_queue st', es_index st') = [(0, Some 1024), (0, Some 1024)] @ tasks_of (es_queue (demo_state 0), es_index (demo_state 0))
    \<and> (\<exists>pkt. pkts (es_world st') 1024 = Some pkt \<and> p_refcnt pkt = 1)"
proof -
  let ?st = "demo_state 0"
  have "wf_es ?st" "0 < length (es_nodes ?st)" "es_index ?st + length (links_to (es_nodes ?st ! 0)) * length [1024 :: ptr] \<le> TASK_QUEUE_SIZE"
    by (simp_all add: wf_es_def demo_state_def TASK_QUEUE_SIZE_def)
  moreover have "op_poll demo_ops demo_context (nd_module (es_nodes ?st ! 0)) (es_world ?st) = Done (((), es_world ?st), Ok 1024)"
    by (simp add: demo_ops_def)
  moreover have "chain (es_world ?st) (Some 1024) [1024]" by (simp add: demo_state_def one_packet_defs blank_packet_def)
  ultimately obtain st' where "poll_node demo_ops demo_context 0 ?st = Done (st', Ok ())" "es_world st' = es_world ?st"
    "tasks_of (es_queue st', es_index st') = rev (concat (map (\<lambda>l. map (\<lambda>p. (l, Some p)) [1024]) (links_to (es_nodes ?st ! 0)))) @ tasks_of (es_queue ?st, es_index ?st)"
    using poll_queues_chain[of ?st 0 demo_ops demo_context "()" "es_world ?st" 1024 "[1024]"] by auto
  then show ?thesis by (auto simp: demo_state_def one_packet_defs)
qed

end
