(* ===== verification/Stack.thy ===== *)
theory Stack
  imports Datapath Engine
begin

text \<open>
  The modules of the stack as one type, with the methods each of them overrides, and the shipped graph
  \<^verbatim>\<open>config/graph/udp.json\<close>: this is what the engine runs.  The next theories show that the run loop keeps the
  invariant of these modules.
\<close>

section \<open>The modules\<close>

datatype module_obj =
  MIo "dpdk io_node" | MEthSender | MEthReceiver | MIpv4Sender "route list" | MIpv4Receiver
| MUdpSender | MUdpReceiver | MUser "ptr list"

text \<open>What the registered constructors build (the derive macros register each module under the name of its
  type).\<close>

definition stack_modules :: "module_obj builders" where
  "stack_modules = register_modules [(''IoNode'', MIo IoNode_new), (''EthSender'', MEthSender), (''EthReceiver'', MEthReceiver),
     (''Ipv4Sender'', MIpv4Sender Ipv4Sender_new), (''Ipv4Receiver'', MIpv4Receiver), (''UdpSender'', MUdpSender),
     (''UdpReceiver'', MUdpReceiver), (''UserNode'', MUser UserNode_new)]"

definition stack_adapters :: "dpdk builders" where
  "stack_adapters = fst (adapter_register ''Dpdk'' Dpdk_new Map.empty)"

text \<open>The environment of a worker's modules: the profile, DPDK, the configuration, and the fuel for the
  transmit loop.\<close>

record ('r, 't, 'x) stack_env =
  sn_fuel :: nat
  sn_prof :: profile
  sn_api :: "'x dpdk_api"
  sn_port :: "('r, 't, 'x) port_api"
  sn_cfg :: config_manager

definition io_ops :: "('r, 't, 'x) stack_env \<Rightarrow> (dpdk, 'x) adapter_ops" where
  "io_ops sn = dpdk_ops (sn_fuel sn) (sn_prof sn) (sn_api sn) (sn_port sn)"

definition stateless :: "module_obj \<Rightarrow> ('x world \<times> (unit, error) result) outcome
    \<Rightarrow> ((module_obj \<times> 'x world) \<times> (unit, error) result) outcome" where
  "stateless m s = andthen s (\<lambda>(w, r). Done ((m, w), r))"

definition module_init :: "('r, 't, 'x) stack_env \<Rightarrow> Context \<Rightarrow> module_obj \<Rightarrow> 'x world
    \<Rightarrow> ((module_obj \<times> 'x world) \<times> (unit, error) result) outcome" where
  "module_init sn ctx m w = (case m of
       MIo io \<Rightarrow> andthen (IoNode_init (sn_cfg sn) stack_adapters (io_ops sn) ctx io w) (\<lambda>((io1, w1), r). Done ((MIo io1, w1), r))
     | MIpv4Sender table \<Rightarrow> andthen (Ipv4Sender_init (sn_cfg sn) ctx table) (\<lambda>(t, r). Done ((MIpv4Sender t, w), r))
     | _ \<Rightarrow> default_init ctx m w)"

definition module_process :: "('r, 't, 'x) stack_env \<Rightarrow> Context \<Rightarrow> module_obj \<Rightarrow> ptr \<Rightarrow> 'x world
    \<Rightarrow> ((module_obj \<times> 'x world) \<times> (unit, error) result) outcome" where
  "module_process sn ctx m p w = (case m of
       MIo io \<Rightarrow> andthen (IoNode_process (sn_prof sn) (io_ops sn) ctx p io w) (\<lambda>((io1, w1), r). Done ((MIo io1, w1), r))
     | MEthSender \<Rightarrow> stateless m (EthSender_process (sn_prof sn) p w)
     | MEthReceiver \<Rightarrow> stateless m (EthReceiver_process (sn_prof sn) p w)
     | MIpv4Sender table \<Rightarrow> stateless m (Ipv4Sender_process (sn_prof sn) table p w)
     | MIpv4Receiver \<Rightarrow> stateless m (Ipv4Receiver_process (sn_prof sn) (sn_api sn) ctx p w)
     | MUdpSender \<Rightarrow> stateless m (UdpSender_process (sn_prof sn) p w)
     | MUdpReceiver \<Rightarrow> stateless m (UdpReceiver_process (sn_prof sn) p w)
     | MUser q \<Rightarrow> stateless m (UserNode_process (sn_prof sn) (sn_api sn) ctx p w))"

definition module_poll :: "('r, 't, 'x) stack_env \<Rightarrow> Context \<Rightarrow> module_obj \<Rightarrow> 'x world
    \<Rightarrow> ((module_obj \<times> 'x world) \<times> (ptr, error) result) outcome" where
  "module_poll sn ctx m w = (case m of
       MIo io \<Rightarrow> andthen (IoNode_poll (sn_prof sn) (io_ops sn) ctx io w) (\<lambda>((io1, w1), r). Done ((MIo io1, w1), r))
     | MUser q \<Rightarrow> andthen (UserNode_poll (sn_prof sn) (sn_api sn) ctx q w) (\<lambda>((q1, w1), r). Done ((MUser q1, w1), r))
     | _ \<Rightarrow> default_poll ctx m w)"

definition module_capability :: "module_obj \<Rightarrow> u32" where
  "module_capability m = (case m of
       MIo _ \<Rightarrow> CAPA_PROCESS OR CAPA_POLL | MUser _ \<Rightarrow> CAPA_PROCESS OR CAPA_POLL | _ \<Rightarrow> default_capability m)"

definition module_destroy :: "('r, 't, 'x) stack_env \<Rightarrow> Context \<Rightarrow> module_obj \<Rightarrow> 'x world \<Rightarrow> (module_obj \<times> 'x world) outcome" where
  "module_destroy sn ctx m w = (case m of
       MIo io \<Rightarrow> andthen (IoNode_destroy (io_ops sn) ctx io w) (\<lambda>(io1, w1). Done (MIo io1, w1))
     | _ \<Rightarrow> default_destroy ctx m w)"

definition stack_ops :: "('r, 't, 'x) stack_env \<Rightarrow> (module_obj, 'x) module_ops" where
  "stack_ops sn = \<lparr>op_init = module_init sn, op_process = module_process sn, op_poll = module_poll sn,
     op_capability = module_capability, op_destroy = module_destroy sn\<rparr>"

section \<open>The shipped graph\<close>

text \<open>\<open>udp_graph\<close> of theory \<open>Config\<close> is the content of that file; its nodes and links, by position:\<close>

definition udp_links :: "nat list list" where
  "udp_links = [[2], [0], [4], [1], [6], [3], [7], [5]]"

definition udp_nodes :: "module_obj node list \<Rightarrow> dpdk io_node \<Rightarrow> route list \<Rightarrow> ptr list \<Rightarrow> bool" where
  "udp_nodes nds io table q \<longleftrightarrow> map nd_module nds = [MIo io, MEthSender, MEthReceiver, MIpv4Sender table, MIpv4Receiver, MUdpSender,
     MUdpReceiver, MUser q] \<and> map links_to nds = udp_links"

lemma udp_graph_built:
  "\<exists>nds. Graph_new (build_module stack_modules) gid udp_graph cpu = Done \<lparr>gr_id = gid, gr_cpu = cpu, gr_nodes = nds\<rparr>
    \<and> udp_nodes nds IoNode_new Ipv4Sender_new UserNode_new"
  by (simp add: Graph_new_def udp_graph_def stack_modules_def register_modules_def module_register_def build_module_def
      Node_from_module_def push_link_def LINKS_CAP_def udp_nodes_def udp_links_def)

end
