(* ===== verification/Stack_Inv.thy ===== *)
theory Stack_Inv
  imports Stack
begin

text \<open>
  The invariant of the modules under the run loop.  Every pending task is a packet of the pool with one
  reference, in the state the node that will process it needs (\<open>stage\<close>); distinct packets lie apart in
  memory, so that work on one does not disturb another.  With it the modules of the shipped graph are an
  instance of \<open>engine_modules\<close>.
\<close>

section \<open>Stages of a packet\<close>

text \<open>On the way out, \<open>k\<close> bytes of headers still to be written.\<close>

definition tx_base :: "nat \<Rightarrow> ptr \<Rightarrow> packet \<Rightarrow> bool" where
  "tx_base k p pkt \<longleftrightarrow> p_buf_ty pkt = Local \<and> p_data pkt = p + packet_buf_off \<and> k \<le> unat (p_offset pkt) \<and>
     p_offset pkt \<le> p_len pkt \<and> unat (p_offset pkt) \<le> PACKET_BUF_SIZE"

definition l4_ok :: "packet \<Rightarrow> bool" where
  "l4_ok pkt \<longleftrightarrow> unat (h_offset (l4_header pkt)) + size_UdpHeader \<le> PACKET_BUF_SIZE"

definition l3_ok :: "packet \<Rightarrow> mem \<Rightarrow> bool" where
  "l3_ok pkt bs \<longleftrightarrow> unat (h_offset (l3_header pkt)) + size_Ipv4Header \<le> PACKET_BUF_SIZE \<and>
     ip_protocol (read_ipv4 (p_data pkt + unat (h_offset (l3_header pkt))) bs) = proto_code UDP"

definition l2_ok :: "packet \<Rightarrow> mem \<Rightarrow> bool" where
  "l2_ok pkt bs \<longleftrightarrow> unat (h_offset (l2_header pkt)) + size_EthHeader \<le> unat (h_offset (l3_header pkt)) \<and>
     eth_ether_ty (read_eth (p_data pkt + unat (h_offset (l2_header pkt))) bs) = ether_code EtIpv4"

text \<open>On the way in: the mbuf is there and has room for the headers still to be looked at.\<close>

definition rx_base :: "nat \<Rightarrow> packet \<Rightarrow> 'x world \<Rightarrow> bool" where
  "rx_base k pkt w \<longleftrightarrow> (\<exists>m mb. p_buf_ty pkt = Mbuf m \<and> mbufs w m = Some mb \<and> (0 < k \<longrightarrow> unat (p_offset pkt) + k \<le> unat (m_buf_len mb)))"

text \<open>What the node \<open>n\<close> of the shipped graph needs; \<open>N\<close> is the number of adapters.  The receivers use the
  lengths of the wire unchecked, so they are only safe in a release build.\<close>

definition stage :: "profile \<Rightarrow> nat \<Rightarrow> nat \<Rightarrow> ptr \<Rightarrow> packet \<Rightarrow> 'x world \<Rightarrow> bool" where
  "stage prof N n p pkt w \<longleftrightarrow>
     (if n = 5 then tx_base 42 p pkt
      else if n = 3 then tx_base 34 p pkt \<and> l4_ok pkt
      else if n = 1 then tx_base 14 p pkt \<and> l4_ok pkt \<and> l3_ok pkt (bytes w) \<and> p_offset pkt = h_offset (l3_header pkt) \<and> unat (p_nic pkt) < N
      else if n = 0 then tx_base 0 p pkt \<and> l4_ok pkt \<and> l3_ok pkt (bytes w) \<and> l2_ok pkt (bytes w) \<and> unat (p_nic pkt) < N
      else if n = 2 then prof = Release \<and> rx_base 34 pkt w
      else if n = 4 then prof = Release \<and> rx_base 20 pkt w
      else n \<in> {6, 7} \<and> prof = Release \<and> rx_base 0 pkt w)"

definition task_ok :: "profile \<Rightarrow> nat \<Rightarrow> 'x world \<Rightarrow> nat \<times> ptr \<Rightarrow> bool" where
  "task_ok prof N w t \<longleftrightarrow> (\<exists>pkt. pkts w (snd t) = Some pkt \<and> p_refcnt pkt = 1 \<and> stage prof N (fst t) (snd t) pkt w)"

definition mbuf_of :: "'x world \<Rightarrow> ptr \<Rightarrow> ptr list" where
  "mbuf_of w p = (case pkts w p of None \<Rightarrow> [] | Some pkt \<Rightarrow> (case p_buf_ty pkt of Local \<Rightarrow> [] | Mbuf m \<Rightarrow> [m]))"

text \<open>The mbufs of the pending packets: distinct, owned by the program, and no adapter's.\<close>

definition rx_own :: "('x \<Rightarrow> ptr set) \<Rightarrow> dpdk list \<Rightarrow> ptr list \<Rightarrow> 'x world \<Rightarrow> bool" where
  "rx_own held ds ps w \<longleftrightarrow> distinct (concat (map (mbuf_of w) ps)) \<and>
     set (concat (map (mbuf_of w) ps)) \<inter> (held (ext w) \<union> set (concat (map tx_bufs ds))) = {}"

definition tasks_good :: "profile \<Rightarrow> ('x \<Rightarrow> ptr set) \<Rightarrow> ('x \<Rightarrow> ptr set) \<Rightarrow> ptr set \<Rightarrow> dpdk list \<Rightarrow> (nat \<times> ptr) list \<Rightarrow> 'x world \<Rightarrow> bool" where
  "tasks_good prof held avail P ds ts w \<longleftrightarrow> distinct (map snd ts) \<and> set (map snd ts) \<subseteq> P - avail (ext w) \<and>
     (\<forall>t\<in>set ts. task_ok prof (length ds) w t) \<and> rx_own held ds (map snd ts) w"

definition stack_good :: "('r, 't, 'x) stack_env \<Rightarrow> Context \<Rightarrow> ('x \<Rightarrow> ptr set) \<Rightarrow> ('x \<Rightarrow> wire_item list) \<Rightarrow> ('x \<Rightarrow> ptr set) \<Rightarrow> ptr set
    \<Rightarrow> module_obj node list \<Rightarrow> (nat \<times> ptr) list \<Rightarrow> 'x world \<Rightarrow> bool" where
  "stack_good sn ctx held wire avail P nds ts w \<longleftrightarrow> nic_env (sn_fuel sn) (sn_prof sn) (sn_api sn) held wire avail \<and>
     (\<exists>io table q. udp_nodes nds io table q \<and> length q = 32 \<and> io_inv io \<and> unat (route_nic table) < length (io_adapters io) \<and>
        dpdk_good held avail P ctx (io_adapters io) w \<and> tasks_good (sn_prof sn) held avail P (io_adapters io) ts w)"

definition udp_rank :: "nat \<Rightarrow> nat" where
  "udp_rank n = (if n \<in> {0, 7} then 0 else if n \<in> {1, 6} then 1 else if n \<in> {3, 4} then 2 else 3)"

section \<open>Work on one packet leaves the others alone\<close>

definition frame :: "ptr \<Rightarrow> 'x world \<Rightarrow> 'x world \<Rightarrow> bool" where
  "frame p w w' \<longleftrightarrow> (\<forall>q. q \<noteq> p \<longrightarrow> pkts w' q = pkts w q \<and> idle w' q = idle w q) \<and> (\<forall>x. x < p \<or> p + size_Packet \<le> x \<longrightarrow> bytes w' x = bytes w x) \<and>
     objhdrs w' = objhdrs w \<and> privs w' = privs w \<and> slots w' = slots w \<and> mempools w' = mempools w"

lemma pkt_sizes: "packet_buf_off = 64" "PACKET_BUF_SIZE = 1564" "size_Packet = 1664"
  by (simp_all add: buf_off PACKET_BUF_SIZE_def MTU_def DEFAULT_OFFSET_def packet_layout[THEN conjunct2, THEN conjunct2, THEN conjunct1])

lemma frame_bytes:
  assumes "frame p w w'" and "apart p q"
  shows "q \<le> a \<Longrightarrow> a + 20 \<le> q + size_Packet \<Longrightarrow> read_ipv4 a (bytes w') = read_ipv4 a (bytes w)"
    and "q \<le> a \<Longrightarrow> a + 14 \<le> q + size_Packet \<Longrightarrow> read_eth a (bytes w') = read_eth a (bytes w)"
  using assms by (auto simp: frame_def apart_def intro!: ipv4.rd_local eth.rd_local)

lemma stage_frame:
  assumes st: "stage prof N n q pkt w" and f: "frame p w w'" "apart p q"
    and pk: "pkts w q = Some pkt" and mb: "\<forall>m\<in>set (mbuf_of w q). mbufs w' m = mbufs w m"
  shows "stage prof N n q pkt w'"
proof -
  note rd = frame_bytes[OF f]
  have l3: "l3_ok pkt (bytes w') = l3_ok pkt (bytes w)" if "tx_base k q pkt" for k
    using that rd(1)[of "p_data pkt + unat (h_offset (l3_header pkt))"] by (auto simp: l3_ok_def tx_base_def pkt_sizes)
  have l2: "l2_ok pkt (bytes w') = l2_ok pkt (bytes w)" if "tx_base k q pkt" "l3_ok pkt (bytes w)" for k
    using that rd(2)[of "p_data pkt + unat (h_offset (l2_header pkt))"] by (auto simp: l2_ok_def l3_ok_def tx_base_def pkt_sizes)
  have rx: "rx_base k pkt w' = rx_base k pkt w" for k
    using pk mb by (auto simp: rx_base_def mbuf_of_def)
  show ?thesis using st l3 l2 rx unfolding stage_def by (auto split: if_splits)
qed

lemma task_ok_frame:
  assumes "task_ok prof N w t" and "frame p w w'" and "apart p (snd t)" and "snd t \<noteq> p"
    and "\<forall>m\<in>set (mbuf_of w (snd t)). mbufs w' m = mbufs w m"
  shows "task_ok prof N w' t"
  using assms stage_frame[OF _ assms(2,3) _ assms(5)] unfolding task_ok_def by (auto simp: frame_def)

lemma mbuf_of_frame: "frame p w w' \<Longrightarrow> q \<noteq> p \<Longrightarrow> mbuf_of w' q = mbuf_of w q"
  by (simp add: frame_def mbuf_of_def)

lemma mbufs_of_frame: "frame p w w' \<Longrightarrow> p \<notin> set ps \<Longrightarrow> map (mbuf_of w') ps = map (mbuf_of w) ps"
  using mbuf_of_frame by (metis map_cong)

text \<open>The other tasks after a step on \<open>p\<close>: whatever happens to \<open>p\<close>, they stay good if their mbufs are left
  alone.\<close>

lemma tasks_good_others:
  assumes good: "tasks_good prof held avail P ds ((n, p) # ts) w" and f: "frame p w w'"
    and known: "pool_known P tid w" and len: "length ds' = length ds"
    and mb: "\<forall>m\<in>set (concat (map (mbuf_of w) (map snd ts))). mbufs w' m = mbufs w m \<and> m \<notin> held (ext w') \<and> m \<notin> set (concat (map tx_bufs ds'))"
    and av: "avail (ext w') \<subseteq> insert p (avail (ext w))"
  shows "tasks_good prof held avail P ds' ts w'"
proof -
  have p: "p \<notin> set (map snd ts)" "p \<in> P" and d: "distinct (map snd ts)" "set (map snd ts) \<subseteq> P - avail (ext w)"
    and ok: "\<forall>t\<in>set ts. task_ok prof (length ds) w t" and own: "rx_own held ds (map snd ts) w"
    using good by (auto simp: tasks_good_def rx_own_def)
  have "task_ok prof (length ds') w' t" if t: "t \<in> set ts" for t
  proof -
    have q: "snd t \<in> P" "snd t \<noteq> p" using t p d by (auto simp: rev_image_eqI)
    then have "apart p (snd t)" using known p(2) unfolding pool_known_def by metis
    moreover have "\<forall>m\<in>set (mbuf_of w (snd t)). mbufs w' m = mbufs w m" using mb t by auto
    ultimately show ?thesis using task_ok_frame[OF _ f] ok t q len by auto
  qed
  moreover have "rx_own held ds' (map snd ts) w'"
    using own mb unfolding rx_own_def mbufs_of_frame[OF f p(1)] by auto
  moreover have "set (map snd ts) \<subseteq> P - avail (ext w')" using d(2) av p(1) by auto
  ultimately show ?thesis using d(1) unfolding tasks_good_def by blast
qed

lemma tasks_good_cons:
  assumes "tasks_good prof held avail P ds ts w" and "p \<in> P - avail (ext w)" and "p \<notin> set (map snd ts)"
    and "task_ok prof (length ds) w (n, p)"
    and "set (mbuf_of w p) \<inter> (held (ext w) \<union> set (concat (map tx_bufs ds)) \<union> set (concat (map (mbuf_of w) (map snd ts)))) = {}"
  shows "tasks_good prof held avail P ds ((n, p) # ts) w"
proof -
  have "distinct (mbuf_of w p)" by (simp add: mbuf_of_def split: option.splits pkt_buf_type.splits)
  then show ?thesis using assms unfolding tasks_good_def rx_own_def by auto
qed

section \<open>The senders and receivers\<close>

definition fwd :: "profile \<Rightarrow> nat \<Rightarrow> nat \<Rightarrow> ptr \<Rightarrow> 'x world \<Rightarrow> 'x world \<Rightarrow> bool" where
  "fwd prof N l p w w' \<longleftrightarrow> frame p w w' \<and> mbufs w' = mbufs w \<and> ext w' = ext w \<and> mbuf_of w' p = mbuf_of w p \<and> task_ok prof N w' (l, p)"

lemma tx_base_ready: "tx_base k p pkt \<Longrightarrow> h \<le> k \<Longrightarrow> tx_ready h pkt w"
  by (simp add: tx_base_def tx_ready_def buf_extent_def)

lemma tx_base_off:
  assumes "tx_base k p pkt" and "h \<le> k" and "h < 2 ^ 16"
  shows "unat (p_offset pkt - of_nat h) = unat (p_offset pkt) - h" and "p_offset pkt - of_nat h \<le> p_len pkt"
  using tx_ready_off(2,3)[OF tx_base_ready[OF assms(1,2)] assms(3)] .

lemma fwd_tx:
  assumes "pkts w p = Some pkt" and "p_refcnt pkt = 1" and "p_buf_ty pkt' = p_buf_ty pkt" and "p_refcnt pkt' = p_refcnt pkt"
    and "\<forall>x. x < p \<or> p + size_Packet \<le> x \<longrightarrow> bs x = bytes w x" and "stage prof N l p pkt' (set_pkt p pkt' (w\<lparr>bytes := bs\<rparr>))"
  shows "fwd prof N l p w (set_pkt p pkt' (w\<lparr>bytes := bs\<rparr>))"
  using assms by (simp add: fwd_def frame_def mbuf_of_def task_ok_def)

lemma udp_fwd:
  assumes "task_ok prof N w (5, p)"
  shows "\<exists>w'. UdpSender_process prof p w = Done (w', Ok ()) \<and> fwd prof N 3 p w w'"
proof -
  from assms obtain pkt where p: "pkts w p = Some pkt" "p_refcnt pkt = 1" and b: "tx_base 42 p pkt"
    by (auto simp: task_ok_def stage_def)
  note off = tx_base_off[OF b, of 8, simplified]
  let ?off = "p_offset pkt - 8" and ?a = "p_data pkt + (unat (p_offset pkt) - 8)"
  let ?bs = "write_udp ?a ((read_udp ?a (bytes w))\<lparr>udp_src := bswap 80, udp_dst := bswap 81, udp_len := bswap (p_len pkt - ?off)\<rparr>) (bytes w)"
  let ?pkt = "pkt\<lparr>p_offset := ?off, l4_header := \<lparr>h_length = 8, h_offset = ?off\<rparr>\<rparr>"
  have lo: "p \<le> ?a" "?a + 8 \<le> p + size_Packet" using b by (auto simp: tx_base_def pkt_sizes)
  have "fwd prof N 3 p w (set_pkt p ?pkt (w\<lparr>bytes := ?bs\<rparr>))"
  proof (rule fwd_tx[OF p])
    show "\<forall>x. x < p \<or> p + size_Packet \<le> x \<longrightarrow> ?bs x = bytes w x" using lo by (auto intro!: udp.wr_frame)
    show "stage prof N 3 p ?pkt (set_pkt p ?pkt (w\<lparr>bytes := ?bs\<rparr>))"
      using b off by (auto simp: stage_def tx_base_def l4_ok_def)
  qed simp_all
  then show ?thesis using UdpSender_eq[OF p(1) tx_base_ready[OF b]] by (simp add: Let_def)
qed

lemma ipv4_fwd:
  assumes "task_ok prof N w (3, p)" and nic: "unat (route_nic table) < N"
  shows "\<exists>w'. Ipv4Sender_process prof table p w = Done (w', Ok ()) \<and> fwd prof N 1 p w w'"
proof -
  from assms obtain pkt where p: "pkts w p = Some pkt" "p_refcnt pkt = 1" and b: "tx_base 34 p pkt" "l4_ok pkt"
    by (auto simp: task_ok_def stage_def)
  note off = tx_base_off[OF b(1), of 20, simplified]
  let ?off = "p_offset pkt - 20" and ?a = "p_data pkt + (unat (p_offset pkt) - 20)"
  let ?bs = "write_ipv4 ?a (sent_ipv4 (p_len pkt - ?off) (read_ipv4 ?a (bytes w))) (bytes w)"
  let ?pkt = "pkt\<lparr>p_nic := route_nic table, p_offset := ?off, l3_header := \<lparr>h_length = 20, h_offset = ?off\<rparr>\<rparr>"
  have lo: "p \<le> ?a" "?a + 20 \<le> p + size_Packet" using b by (auto simp: tx_base_def pkt_sizes)
  have "fwd prof N 1 p w (set_pkt p ?pkt (w\<lparr>bytes := ?bs\<rparr>))"
  proof (rule fwd_tx[OF p])
    show "\<forall>x. x < p \<or> p + size_Packet \<le> x \<longrightarrow> ?bs x = bytes w x" using lo by (auto intro!: ipv4.wr_frame)
    show "stage prof N 1 p ?pkt (set_pkt p ?pkt (w\<lparr>bytes := ?bs\<rparr>))"
      using b off nic by (auto simp: stage_def tx_base_def l4_ok_def l3_ok_def ipv4.rd_wr sent_ipv4_def)
  qed simp_all
  then show ?thesis using Ipv4Sender_eq[OF p(1) tx_base_ready[OF b(1)]] by (simp add: Let_def)
qed

lemma eth_fwd:
  assumes "task_ok prof N w (1, p)"
  shows "\<exists>w'. EthSender_process prof p w = Done (w', Ok ()) \<and> fwd prof N 0 p w w'"
proof -
  from assms obtain pkt where p: "pkts w p = Some pkt" "p_refcnt pkt = 1" and b: "tx_base 14 p pkt" "l4_ok pkt" "l3_ok pkt (bytes w)"
      "p_offset pkt = h_offset (l3_header pkt)" "unat (p_nic pkt) < N"
    by (auto simp: task_ok_def stage_def)
  note off = tx_base_off[OF b(1), of 14, simplified]
  let ?off = "p_offset pkt - 14" and ?a = "p_data pkt + (unat (p_offset pkt) - 14)"
  let ?h = "(read_eth ?a (bytes w))\<lparr>eth_dst := MacAddr [2, 0, 0, 0, 0, 0], eth_ether_ty := ether_code EtIpv4\<rparr>"
  let ?bs = "write_eth ?a ?h (bytes w)" and ?pkt = "pkt\<lparr>l2_header := \<lparr>h_length = 14, h_offset = ?off\<rparr>, p_offset := ?off\<rparr>"
  have lo: "p \<le> ?a" "?a + 14 \<le> p + size_Packet" using b by (auto simp: tx_base_def pkt_sizes)
  have o14: "14 \<le> unat (p_offset pkt)" using b(1) by (simp add: tx_base_def)
  have ip: "read_ipv4 (p_data pkt + unat (h_offset (l3_header pkt))) ?bs = read_ipv4 (p_data pkt + unat (h_offset (l3_header pkt))) (bytes w)"
    using ipv4_eth.upper_after_lower[where h = ?h and b = ?a and a = "p_data pkt + unat (h_offset (l3_header pkt))"] o14 by (simp flip: b(4))
  have "fwd prof N 0 p w (set_pkt p ?pkt (w\<lparr>bytes := ?bs\<rparr>))"
  proof (rule fwd_tx[OF p])
    show "\<forall>x. x < p \<or> p + size_Packet \<le> x \<longrightarrow> ?bs x = bytes w x" using lo by (auto intro!: eth.wr_frame)
    have "tx_base 0 p ?pkt" "l4_ok ?pkt" "l3_ok ?pkt ?bs" using b off ip by (auto simp: tx_base_def l4_ok_def l3_ok_def)
    moreover have "l2_ok ?pkt ?bs" using off o14 eth.rd_wr[of ?h ?a "bytes w"] by (simp add: l2_ok_def flip: b(4))
    ultimately show "stage prof N 0 p ?pkt (set_pkt p ?pkt (w\<lparr>bytes := ?bs\<rparr>))" using b(5) by (simp add: stage_def)
  qed simp_all
  then show ?thesis using EthSender_eq[OF p(1) tx_base_ready[OF b(1)]] by (simp add: Let_def)
qed

lemma fwd_rx:
  assumes "pkts w p = Some pkt" and "p_refcnt pkt = 1" and "p_buf_ty pkt' = p_buf_ty pkt" and "p_refcnt pkt' = p_refcnt pkt"
    and "stage prof N l p pkt' (set_pkt p pkt' w)"
  shows "fwd prof N l p w (set_pkt p pkt' w)"
  using fwd_tx[OF assms(1-4), of "bytes w"] assms(5) by simp

lemma rx_base_set: "rx_base k pkt' (set_pkt p pkt w) = rx_base k pkt' w"
  by (simp add: rx_base_def)

lemma ethr_fwd:
  assumes "task_ok prof N w (2, p)"
  shows "\<exists>w'. EthReceiver_process prof p w = Done (w', Ok ()) \<and> fwd prof N 4 p w w'"
proof -
  from assms obtain pkt m mb where p: "pkts w p = Some pkt" "p_refcnt pkt = 1" and r: "prof = Release" "p_buf_ty pkt = Mbuf m"
      "mbufs w m = Some mb" "unat (p_offset pkt) + 34 \<le> unat (m_buf_len mb)"
    by (auto simp: task_ok_def stage_def rx_base_def)
  have o: "unat (p_offset pkt) + 14 < 2 ^ 16" using r(4) unsigned_less[of "m_buf_len mb", where 'a = nat] by simp
  then have "unat (p_offset pkt + 14) = unat (p_offset pkt) + 14" by (subst unat_add_fits) simp_all
  then show ?thesis
    using EthReceiver_eq[OF p(1) o, of prof] r by (auto simp: stage_def rx_base_def intro!: fwd_rx[OF p])
qed

lemma udpr_fwd:
  assumes "task_ok prof N w (6, p)"
  shows "\<exists>w'. UdpReceiver_process prof p w = Done (w', Ok ()) \<and> fwd prof N 7 p w w'"
proof -
  from assms obtain pkt where p: "pkts w p = Some pkt" "p_refcnt pkt = 1" and r: "prof = Release" "rx_base 0 pkt w"
    by (auto simp: task_ok_def stage_def)
  let ?pkt = "pkt\<lparr>l4_header := \<lparr>h_length = 8, h_offset = p_offset pkt\<rparr>, p_offset := p_offset pkt + 8\<rparr>"
  have "UdpReceiver_process prof p w = Done (set_pkt p ?pkt w, Ok ())" using p r(1) by (simp add: UdpReceiver_process_def)
  moreover have "fwd prof N 7 p w (set_pkt p ?pkt w)" using r by (intro fwd_rx[OF p]) (auto simp: stage_def rx_base_def)
  ultimately show ?thesis by blast
qed

text \<open>In a release build the IPv4 receiver never panics, whatever the header says.\<close>

lemma Ipv4Receiver_release:
  assumes "pkts w p = Some pkt" and "unat (p_offset pkt) + 20 \<le> buf_extent w pkt" and h: "h = read_ipv4 (data_ptr pkt) (bytes w)"
  shows "Ipv4Receiver_process Release api ctx p w =
    (let w1 = set_pkt p (ipv4_taken h pkt) w in
     if ihl h < 5 \<or> ip_ttl h = 0
     then andthen (PacketPool_deallocate Release api p (ctx_thread_id ctx) w1) (\<lambda>w2. Done (w2, Err Dropped))
     else Done (w1, Ok ()))"
proof -
  have hl: "ucast (push_bit 2 (ihl h)) = (of_nat (ip_hlen h) :: u16)"
    using ip_hlen_u16[of h] ip_hlen_bound[of h] unfolding word_unat_eq_iff by (simp add: unat_of_nat_small)
  have "header_at 20 (p_offset pkt) pkt w = Done (data_ptr pkt)" using assms(2) by (simp add: data_ptr_def)
  then show ?thesis unfolding Ipv4Receiver_process_def using assms(1)
    by (simp add: parse_at_def Let_def set_len_def hl ipv4_taken_def del: header_at_Done flip: h)
qed

lemma ipv4r_fwd:
  assumes "task_ok prof N w (4, p)"
  shows "\<exists>w1. fwd prof N 6 p w w1 \<and> (Ipv4Receiver_process prof api ctx p w = Done (w1, Ok ()) \<or>
    Ipv4Receiver_process prof api ctx p w = andthen (PacketPool_deallocate prof api p (ctx_thread_id ctx) w1) (\<lambda>w2. Done (w2, Err Dropped)))"
proof -
  from assms obtain pkt m mb where p: "pkts w p = Some pkt" "p_refcnt pkt = 1" and r: "prof = Release" "p_buf_ty pkt = Mbuf m"
      "mbufs w m = Some mb" "unat (p_offset pkt) + 20 \<le> unat (m_buf_len mb)"
    by (auto simp: task_ok_def stage_def rx_base_def)
  define h where "h = read_ipv4 (data_ptr pkt) (bytes w)"
  have ex: "unat (p_offset pkt) + 20 \<le> buf_extent w pkt" using r by (simp add: buf_extent_def)
  have "fwd prof N 6 p w (set_pkt p (ipv4_taken h pkt) w)"
    using r by (intro fwd_rx[OF p]) (auto simp: stage_def rx_base_def ipv4_taken_def)
  then show ?thesis using Ipv4Receiver_release[OF p(1) ex h_def, of api ctx] r(1) by (auto simp: Let_def)
qed

section \<open>Giving a packet back\<close>

lemma deallocate_mbuf:
  assumes laws: "mempool_laws api avail" "nic_pool_laws api held avail" and obj: "pool_obj tid p w"
    and p: "pkts w p = Some pkt" "p_refcnt pkt = 1" "buf_live pkt w"
  shows "\<exists>x'. PacketPool_deallocate prof api p tid w = Done (given_back p pkt (w\<lparr>ext := x'\<rparr>)) \<and> avail x' = insert p (avail (ext w))
    \<and> held x' = held (ext w) \<union> set (mbuf_of w p)"
proof -
  from deallocate_last_ext[OF obj p, of prof api] obtain h :: objhdr and c where
    d: "PacketPool_deallocate prof api p tid w = Done (given_back p pkt (w\<lparr>ext := rte_mempool_generic_put api (oh_mp h) p c (freed_ext api pkt (ext w))\<rparr>))"
    by blast
  moreover have "avail (rte_mempool_generic_put api (oh_mp h) p c (freed_ext api pkt (ext w))) = insert p (avail (ext w))"
    using laws(1) by simp
  moreover have "held (freed_ext api pkt (ext w)) = held (ext w) \<union> set (mbuf_of w p)"
    using p(1) nic_pool_lawsD(6)[OF laws(2)] by (simp add: freed_ext_def mbuf_of_def split: pkt_buf_type.split)
  ultimately show ?thesis using nic_pool_lawsD(5)[OF laws(2)] by metis
qed

lemma task_buf_live: "stage prof N n p pkt w \<Longrightarrow> buf_live pkt w"
  by (auto simp: stage_def tx_base_def rx_base_def buf_live_def split: if_splits)

section \<open>The I/O node\<close>

lemma dpdk_ok_cong: "mbufs w' = mbufs w \<Longrightarrow> ext w' = ext w \<Longrightarrow> dpdk_ok held ds w' = dpdk_ok held ds w"
  by (simp add: dpdk_ok_def)

text \<open>A framed packet can be sent, also after its source address was filled in.\<close>

lemma framed_sendable:
  assumes pkt: "pkts w p = Some pkt" and st: "tx_base 0 p pkt" "l4_ok pkt" "l3_ok pkt (bytes w)" "l2_ok pkt (bytes w)"
    and known: "pool_known P tid w" "p \<in> P" and mac: "length (raw mac) = 6"
    and a: "a = p_data pkt + unat (h_offset (l2_header pkt))"
    and w1: "w1 = w\<lparr>bytes := write_eth a ((read_eth a (bytes w))\<lparr>eth_src := mac\<rparr>) (bytes w)\<rparr>"
  shows "get_l2_header size_EthHeader pkt w = Done a" and "\<exists>n. sendable prof p pkt w1 n"
    and "get_l4_header size_UdpHeader pkt w1 = Done (p_data pkt + unat (h_offset (l4_header pkt)))"
proof -
  let ?h = "(read_eth a (bytes w))\<lparr>eth_src := mac\<rparr>"
  have wf: "wf_eth ?h" using mac eth.rd_ok[of a "bytes w"] by (simp add: wf_eth_def)
  have ex: "buf_extent w pkt = PACKET_BUF_SIZE" "buf_extent w1 pkt = PACKET_BUF_SIZE" using st(1) by (simp_all add: buf_extent_def tx_base_def)
  have le: "unat (h_offset (l2_header pkt)) + 14 \<le> unat (h_offset (l3_header pkt))" "unat (h_offset (l3_header pkt)) + 20 \<le> PACKET_BUF_SIZE"
    using st(3,4) by (simp_all add: l3_ok_def l2_ok_def)
  then show v: "get_l2_header size_EthHeader pkt w = Done a" using ex a by (simp add: view_defs)
  have v1: "get_l2_header size_EthHeader pkt w1 = Done a" using le ex a by (simp add: view_defs)
  have v3: "get_l3_header size_Ipv4Header pkt w1 = Done (p_data pkt + unat (h_offset (l3_header pkt)))" using le ex by (simp add: view_defs)
  show v4: "get_l4_header size_UdpHeader pkt w1 = Done (p_data pkt + unat (h_offset (l4_header pkt)))"
    using st(2) ex by (simp add: view_defs l4_ok_def)
  have "eth_ether_ty (read_eth a (bytes w1)) = ether_code EtIpv4" using st(4) eth.rd_wr[OF wf] by (simp add: w1 l2_ok_def a)
  moreover have "ip_protocol (read_ipv4 (p_data pkt + unat (h_offset (l3_header pkt))) (bytes w1)) = proto_code UDP"
    using st(3) le ipv4_eth.upper_after_lower[OF wf, of a] by (simp add: w1 l3_ok_def a)
  moreover from known obtain hd where h: "objhdrs w p = Some hd" "unat (oh_iova hd) + size_Packet < 2 ^ 64" "p + size_Packet < 2 ^ 64"
    unfolding pool_known_def by blast
  have "iova prof p w1 = Done (oh_iova hd + of_nat (data_ptr pkt - p))"
    using st(1) pkt h by (intro iova_spec) (auto simp: w1 tx_base_def data_ptr_def pkt_sizes)
  moreover have "packet_len prof pkt = Done (p_len pkt - p_offset pkt)" using st(1) by (simp add: packet_len_def tx_base_def sub_chk_fits)
  ultimately show "\<exists>n. sendable prof p pkt w1 n"
    using pkt v1 v3 v4 ether_decode_code[of EtIpv4] proto_decode_code[of UDP] unfolding sendable_def
    by (intro exI[of _ "p_len pkt - p_offset pkt"]) (simp add: w1)
qed

text \<open>The own mbufs of the program that are no adapter's stay what they are.\<close>

lemma exchanged_others:
  assumes ex: "exchanged held (ds ! i) w d w'" and i: "i < length ds"
    and m: "m \<in> dom (mbufs w) - held (ext w) - set (concat (map tx_bufs ds))"
  shows "mbufs w' m = mbufs w m \<and> m \<notin> held (ext w') \<and> m \<notin> set (concat (map tx_bufs (ds[i := d])))"
proof -
  from ex obtain ns ms where k: "keeps held w w' ms ns" "ms \<subseteq> set (tx_bufs (ds ! i))" "set (tx_bufs d) \<subseteq> ns \<union> (set (tx_bufs (ds ! i)) - ms)"
    unfolding exchanged_def by blast
  have sub: "set (tx_bufs (ds ! i)) \<subseteq> set (concat (map tx_bufs ds))" using nth_mem[OF i] by auto
  then have "m \<in> dom (mbufs w) - held (ext w) - ms" using m k(2) by blast
  then have kk: "mbufs w' m = mbufs w m" "m \<notin> held (ext w')" "m \<notin> ns" using k(1) unfolding keeps_def by blast+
  have "set (concat (map tx_bufs (ds[i := d]))) \<subseteq> set (tx_bufs d) \<union> set (concat (map tx_bufs ds))"
    using set_update_subset_insert[of ds i d] by auto
  moreover have "m \<notin> set (tx_bufs d)" using k(3) kk(3) m sub by blast
  ultimately show ?thesis using kk m by blast
qed

text \<open>What a send writes lies inside the packet: the source address of the frame and the UDP checksum.\<close>

lemma send_writes_inside:
  assumes st: "tx_base 0 p pkt" "l4_ok pkt" "l3_ok pkt bs" "l2_ok pkt bs"
    and mac: "length (raw mac) = 6" and a: "a = p_data pkt + unat (h_offset (l2_header pkt))"
    and w2: "\<forall>x. x < ua \<or> ua + 8 \<le> x \<longrightarrow> bs2 x = write_eth a ((read_eth a bs)\<lparr>eth_src := mac\<rparr>) bs x"
    and ua: "ua = p_data pkt + unat (h_offset (l4_header pkt))" and x: "x < p \<or> p + size_Packet \<le> x"
  shows "bs2 x = bs x"
proof -
  have off: "a + 14 \<le> p + size_Packet" "p \<le> a" "ua + 8 \<le> p + size_Packet" "p \<le> ua"
    using st by (auto simp: a ua tx_base_def l4_ok_def l3_ok_def l2_ok_def pkt_sizes)
  have wf: "wf_eth ((read_eth a bs)\<lparr>eth_src := mac\<rparr>)" using mac eth.rd_ok[of a bs] by (simp add: wf_eth_def)
  have "bs2 x = write_eth a ((read_eth a bs)\<lparr>eth_src := mac\<rparr>) bs x" using x off w2 by auto
  also have "\<dots> = bs x" using x off by (auto intro!: eth.wr_frame[OF wf])
  finally show ?thesis .
qed

lemma io_law:
  assumes env: "nic_env (sn_fuel sn) (sn_prof sn) (sn_api sn) held wire avail" and inv: "io_inv io"
    and good: "dpdk_good held avail P ctx (io_adapters io) w" and task: "task_ok prof (length (io_adapters io)) w (0, p)" and p: "p \<in> P"
  shows "\<exists>io' w' e. IoNode_process (sn_prof sn) (io_ops sn) ctx p io w = Done ((io', w'), Err e) \<and> (e = Dropped \<longrightarrow>
    io_inv io' \<and> length (io_adapters io') = length (io_adapters io) \<and> frame p w w' \<and> avail (ext w') = avail (ext w) \<and>
    dpdk_ok held (io_adapters io') w' \<and> (\<forall>m \<in> dom (mbufs w) - held (ext w) - set (concat (map tx_bufs (io_adapters io))).
      mbufs w' m = mbufs w m \<and> m \<notin> held (ext w') \<and> m \<notin> set (concat (map tx_bufs (io_adapters io')))))"
proof -
  let ?ds = "io_adapters io"
  from task obtain pkt where pkt: "pkts w p = Some pkt" and st: "tx_base 0 p pkt" "l4_ok pkt" "l3_ok pkt (bytes w)" "l2_ok pkt (bytes w)"
    and nic: "unat (p_nic pkt) < length ?ds" by (auto simp: task_ok_def stage_def)
  define i where "i = unat (p_nic pkt)"
  define a where "a = p_data pkt + unat (h_offset (l2_header pkt))"
  define w1 where "w1 = w\<lparr>bytes := write_eth a ((read_eth a (bytes w))\<lparr>eth_src := nic_to_mac io ! i\<rparr>) (bytes w)\<rparr>"
  have i: "i < length ?ds" "i < length (nic_to_mac io)" using nic inv by (simp_all add: i_def io_inv_def)
  have mac: "length (raw (nic_to_mac io ! i)) = 6" using inv nth_mem[OF i(2)] by (simp add: io_inv_def)
  from good have known: "pool_known P (ctx_thread_id ctx) w" and "dpdk_ok held ?ds w" by (simp_all add: dpdk_good_def)
  then have ok: "dpdk_ok held ?ds w1" using dpdk_ok_cong[of w1 w] by (simp add: w1_def)
  note sd = framed_sendable[OF pkt st known p mac a_def w1_def]
  from sd(2) obtain n where sdn: "sendable (sn_prof sn) p pkt w1 n" by blast
  let ?ua = "p_data pkt + unat (h_offset (l4_header pkt))"
  from env have laws: "nic_laws (sn_api sn) held wire" "nic_progress (sn_api sn)" "nic_pool_laws (sn_api sn) held avail" "DPDK_BURST_SIZE \<le> sn_fuel sn"
    by (simp_all add: nic_env_def)
  from send_total[OF laws(1-3) dpdk_ok_one[OF ok i(1)] laws(4) sdn sd(3), of ctx] obtain d w2 r where
      snd: "Dpdk_send (sn_fuel sn) (sn_prof sn) (sn_api sn) ctx p (?ds ! i) w1 = Done ((d, w2), r)"
    and id2: "idle w2 = idle w1"
    and w2: "pkts w2 = (pkts w1)(p \<mapsto> pkt\<lparr>p_thread_id := ctx_thread_id ctx\<rparr>)" "\<forall>x. x < ?ua \<or> ?ua + 8 \<le> x \<longrightarrow> bytes w2 x = bytes w1 x"
      "objhdrs w2 = objhdrs w1" "privs w2 = privs w1" "slots w2 = slots w1" "mempools w2 = mempools w1" "avail (ext w2) = avail (ext w1)"
    and cs: "case r of Err e \<Rightarrow> e = MemoryError Exhausted
       | Ok _ \<Rightarrow> exchanged held (?ds ! i) w1 d w2" by blast
  let ?io = "io\<lparr>io_adapters := ?ds[i := d]\<rparr>"
  have proc: "IoNode_process (sn_prof sn) (io_ops sn) ctx p io w = (case r of Err e \<Rightarrow> Done ((?io, w2), Err e)
       | Ok _ \<Rightarrow> andthen (IoNode_mark (sn_prof sn) i ?io) (\<lambda>io2. Done ((io2, w2), Err Dropped)))"
    using pkt sd(1) i snd by (simp add: IoNode_process_def Let_def io_ops_def dpdk_ops_def not_le flip: i_def w1_def)
  show ?thesis
  proof (cases r)
    case (Err e)
    then show ?thesis using proc cs by simp
  next
    case (Ok u)
    with cs have ex: "exchanged held (?ds ! i) w1 d w2" by simp
    have "io_inv ?io" "i < length (io_adapters ?io)" using inv i by (simp_all add: io_inv_def queued_def)
    from mark_spec[OF this, of "sn_prof sn"] obtain io2 where mk: "IoNode_mark (sn_prof sn) i ?io = Done io2" "io_inv io2" "io_adapters io2 = ?ds[i := d]" by auto
    have "bytes w2 x = bytes w x" if "x < p \<or> p + size_Packet \<le> x" for x
      using send_writes_inside[OF st mac a_def _ refl that] w2(2) by (simp add: w1_def)
    then have fr: "frame p w w2" using w2 id2 by (auto simp: frame_def w1_def)
    have ok2: "dpdk_ok held (io_adapters io2) w2" unfolding mk(3) by (rule exchanged_ok[OF ok i(1) ex])
    have oth: "\<forall>m \<in> dom (mbufs w) - held (ext w) - set (concat (map tx_bufs ?ds)).
        mbufs w2 m = mbufs w m \<and> m \<notin> held (ext w2) \<and> m \<notin> set (concat (map tx_bufs (io_adapters io2)))"
      unfolding mk(3) using exchanged_others[OF ex i(1)] by (simp add: w1_def)
    have "avail (ext w2) = avail (ext w)" "length (io_adapters io2) = length ?ds" using w2(7) mk(3) by (simp_all add: w1_def)
    moreover have "IoNode_process (sn_prof sn) (io_ops sn) ctx p io w = Done ((io2, w2), Err Dropped)" using proc Ok mk(1) by simp
    ultimately show ?thesis using mk(2) fr ok2 oth by blast
  qed
qed

section \<open>The modules are an instance of the engine's interface\<close>

lemma bump_one:
  assumes "pkts w p = Some pkt"
  shows "bump_refcnt prof p 1 w = Done w"
proof -
  have "unat (p_refcnt pkt) + unat (0 :: usize) < 2 ^ 64" using unsigned_less[of "p_refcnt pkt", where 'a = nat] by simp
  then have "add_chk prof (p_refcnt pkt) 0 = Done (p_refcnt pkt)" by (subst add_chk_fits) simp_all
  then show ?thesis using assms by (simp add: bump_refcnt_def sub_chk_fits set_pkt_def fun_upd_idem)
qed

lemma udp_nodes_nth:
  assumes "udp_nodes nds io table q"
  shows "length nds = 8" and "n < 8 \<Longrightarrow> links_to (nds ! n) = udp_links ! n"
    and "n < 8 \<Longrightarrow> nd_module (nds ! n) = [MIo io, MEthSender, MEthReceiver, MIpv4Sender table, MIpv4Receiver, MUdpSender, MUdpReceiver, MUser q] ! n"
proof -
  have "length (map nd_module nds) = 8" using assms by (simp add: udp_nodes_def)
  then show l: "length nds = 8" by simp
  show "n < 8 \<Longrightarrow> links_to (nds ! n) = udp_links ! n"
    using assms l unfolding udp_nodes_def by (metis nth_map)
  show "n < 8 \<Longrightarrow> nd_module (nds ! n) = [MIo io, MEthSender, MEthReceiver, MIpv4Sender table, MIpv4Receiver, MUdpSender, MUdpReceiver, MUser q] ! n"
    using assms l unfolding udp_nodes_def by (metis nth_map)
qed

lemma at_node_same: "n < length nds \<Longrightarrow> nd_module (nds ! n) = m \<Longrightarrow> at_node nds n m = nds"
  by (auto simp: at_node_def)

lemma udp_nodes_io:
  assumes "udp_nodes nds io table q"
  shows "udp_nodes (at_node nds 0 (MIo io')) io' table q"
  using assms by (cases nds) (auto simp: udp_nodes_def at_node_def)

lemma udp_nodes_user:
  assumes "udp_nodes nds io table q"
  shows "udp_nodes (at_node nds 7 (MUser q')) io table q'"
  using assms by (auto simp: udp_nodes_def at_node_def map_update udp_links_def list_update_same_conv Cons_eq_map_conv)

lemma dpdk_good_frame:
  assumes good: "dpdk_good held avail P ctx ds w" and f: "frame p w w'" and p: "p \<in> P" and ok: "dpdk_ok held ds' w'"
    and av: "avail (ext w') \<subseteq> insert p (avail (ext w))" and one: "p \<in> avail (ext w') \<Longrightarrow> pkts w' p = None \<and> (\<exists>pkt. idle w' p = Some pkt \<and> p_refcnt pkt = 1)"
  shows "dpdk_good held avail P ctx ds' w'"
proof -
  have same: "objhdrs w' = objhdrs w" "privs w' = privs w" "slots w' = slots w" "mempools w' = mempools w" "\<And>q. q \<noteq> p \<Longrightarrow> pkts w' q = pkts w q \<and> idle w' q = idle w q"
    using f by (auto simp: frame_def)
  have "free_ok avail w'" unfolding free_ok_def
  proof
    fix q assume q: "q \<in> avail (ext w')"
    show "pkts w' q = None \<and> (\<exists>pkt. idle w' q = Some pkt \<and> p_refcnt pkt = 1)"
      using good q av one same(5)[of q] by (cases "q = p") (auto simp: dpdk_good_def free_ok_def)
  qed
  then show ?thesis using good ok av p pool_ready_cong[OF same(4,3)] pool_known_cong[OF same(1-3)] by (auto simp: dpdk_good_def)
qed

lemma rx_own_cons:
  assumes "rx_own held ds (p # ps) w"
  shows "set (mbuf_of w p) \<inter> (held (ext w) \<union> set (concat (map tx_bufs ds)) \<union> set (concat (map (mbuf_of w) ps))) = {}"
  using assms by (auto simp: rx_own_def)

lemma good_forward:
  assumes good: "dpdk_good held avail P ctx ds w" and tasks: "tasks_good prof held avail P ds ((n, p) # ts) w"
    and fw: "fwd prof (length ds) l p w w'"
  shows "dpdk_good held avail P ctx ds w'" and "tasks_good prof held avail P ds ((l, p) # ts) w'"
proof -
  have f: "frame p w w'" and same: "mbufs w' = mbufs w" "ext w' = ext w" "mbuf_of w' p = mbuf_of w p" and ok: "task_ok prof (length ds) w' (l, p)"
    using fw by (simp_all add: fwd_def)
  have p: "p \<in> P" "p \<notin> avail (ext w)" "p \<notin> set (map snd ts)" and own: "rx_own held ds (p # map snd ts) w"
    using tasks by (auto simp: tasks_good_def)
  have known: "pool_known P (ctx_thread_id ctx) w" and dok: "dpdk_ok held ds w" using good by (simp_all add: dpdk_good_def)
  show "dpdk_good held avail P ctx ds w'"
    using dpdk_good_frame[OF good f p(1)] dok dpdk_ok_cong[OF same(1,2)] p(2) by (simp add: same subset_insertI)
  have "tasks_good prof held avail P ds ts w'"
    using own by (intro tasks_good_others[OF tasks f known refl]) (auto simp: same rx_own_def)
  then show "tasks_good prof held avail P ds ((l, p) # ts) w'"
    using tasks_good_cons[of prof held avail P ds ts w' p l] ok p rx_own_cons[OF own] mbufs_of_frame[OF f p(3)] by (simp add: same)
qed

lemma good_drop:
  assumes good: "dpdk_good held avail P ctx ds w" and tasks: "tasks_good prof held avail P ds ((n, p) # ts) w"
    and pkt: "pkts w p = Some pkt" "p_refcnt pkt = 1" and w': "w' = given_back p pkt (w\<lparr>ext := x'\<rparr>)"
    and x': "avail x' = insert p (avail (ext w))" "held x' = held (ext w) \<union> set (mbuf_of w p)"
  shows "dpdk_good held avail P ctx ds w'" and "tasks_good prof held avail P ds ts w'"
proof -
  have f: "frame p w w'" by (simp add: frame_def w')
  have mb: "mbufs w' m = mbufs w m" if "m \<notin> set (mbuf_of w p)" for m
    using that pkt(1) by (simp add: w' given_back_def mbuf_of_def split: pkt_buf_type.splits)
  have p: "p \<in> P" and own: "rx_own held ds (p # map snd ts) w" using tasks by (auto simp: tasks_good_def)
  have known: "pool_known P (ctx_thread_id ctx) w" and dok: "dpdk_ok held ds w" using good by (simp_all add: dpdk_good_def)
  have dj: "set (mbuf_of w p) \<inter> set (concat (map tx_bufs ds)) = {}" using rx_own_cons[OF own] by blast
  have sub: "set (concat (map tx_bufs ds)) \<subseteq> dom (mbufs w) - held (ext w)" using dok unfolding dpdk_ok_def by blast
  have "m \<in> dom (mbufs w') - held (ext w')" if "m \<in> set (concat (map tx_bufs ds))" for m
  proof -
    have "m \<notin> set (mbuf_of w p)" using dj that by blast
    then show ?thesis using mb[of m] subsetD[OF sub that] x'(2) by (simp add: w' domIff)
  qed
  then have "dpdk_ok held ds w'" using dok unfolding dpdk_ok_def by blast
  then show "dpdk_good held avail P ctx ds w'" using dpdk_good_frame[OF good f p] pkt(2) x'(1) by (simp add: w')
  have "\<forall>m\<in>set (concat (map (mbuf_of w) (map snd ts))). mbufs w' m = mbufs w m \<and> m \<notin> held (ext w') \<and> m \<notin> set (concat (map tx_bufs ds))"
  proof
    fix m assume m: "m \<in> set (concat (map (mbuf_of w) (map snd ts)))"
    then have "m \<notin> set (mbuf_of w p)" using rx_own_cons[OF own] by blast
    moreover have "m \<notin> held (ext w) \<and> m \<notin> set (concat (map tx_bufs ds))" using own m by (auto simp: rx_own_def)
    ultimately show "mbufs w' m = mbufs w m \<and> m \<notin> held (ext w') \<and> m \<notin> set (concat (map tx_bufs ds))" using x'(2) mb by (simp add: w')
  qed
  then show "tasks_good prof held avail P ds ts w'"
    using x'(1) by (intro tasks_good_others[OF tasks f known refl]) (auto simp: w')
qed

text \<open>A node that passes the packet on, and one that gives it back.\<close>

lemma dealloc_task:
  assumes env: "nic_env fuel prof api held wire avail" and good: "dpdk_good held avail P ctx ds w"
    and tasks: "tasks_good prof held avail P ds ((n, p) # ts) w"
  shows "\<exists>w'. PacketPool_deallocate prof api p (ctx_thread_id ctx) w = Done w' \<and> dpdk_good held avail P ctx ds w' \<and>
    tasks_good prof held avail P ds ts w'"
proof -
  have laws: "mempool_laws api avail" "nic_pool_laws api held avail" using env by (simp_all add: nic_env_def)
  have "p \<in> P" and task: "task_ok prof (length ds) w (n, p)" using tasks by (auto simp: tasks_good_def)
  then have obj: "pool_obj (ctx_thread_id ctx) p w" using good unfolding dpdk_good_def pool_known_def by blast
  from task obtain pkt where pkt: "pkts w p = Some pkt" "p_refcnt pkt = 1" and "stage prof (length ds) n p pkt w"
    by (auto simp: task_ok_def)
  then have "buf_live pkt w" by (auto intro: task_buf_live)
  from deallocate_mbuf[OF laws obj pkt this, of prof] obtain x' where
    d: "PacketPool_deallocate prof api p (ctx_thread_id ctx) w = Done (given_back p pkt (w\<lparr>ext := x'\<rparr>))" "avail x' = insert p (avail (ext w))"
      "held x' = held (ext w) \<union> set (mbuf_of w p)" by blast
  with good_drop[OF good tasks pkt refl d(2,3)] show ?thesis by blast
qed

lemma stateless_Done: "stateless m (Done (w, r)) = Done ((m, w), r)"
  by (simp add: stateless_def)

lemma stateless_andthen: "stateless m (andthen s (\<lambda>w. Done (w, r))) = andthen s (\<lambda>w. Done ((m, w), r))"
  by (cases s) (simp_all add: stateless_def)

definition forwards :: "('r, 't, 'x) stack_env \<Rightarrow> Context \<Rightarrow> nat \<Rightarrow> nat \<Rightarrow> module_obj \<Rightarrow> ptr \<Rightarrow> 'x world \<Rightarrow> nat \<Rightarrow> bool" where
  "forwards sn ctx N n m p w l \<longleftrightarrow> (\<exists>w1. fwd (sn_prof sn) N l p w w1 \<and>
     (module_process sn ctx m p w = Done ((m, w1), Ok ()) \<or>
      module_process sn ctx m p w = andthen (PacketPool_deallocate (sn_prof sn) (sn_api sn) p (ctx_thread_id ctx) w1) (\<lambda>w2. Done ((m, w2), Err Dropped))))"

lemma stack_forwards:
  assumes nodes: "udp_nodes nds io table q" and task: "task_ok (sn_prof sn) N w (n, p)" and nic: "unat (route_nic table) < N" and n: "n \<noteq> 0" "n \<noteq> 7"
  shows "n < 8 \<and> forwards sn ctx N n (nd_module (nds ! n)) p w (hd (udp_links ! n))"
proof -
  have n8: "n \<in> {1, 2, 3, 4, 5, 6}" using task n by (auto simp: task_ok_def stage_def split: if_splits)
  have m: "nd_module (nds ! n) = [MIo io, MEthSender, MEthReceiver, MIpv4Sender table, MIpv4Receiver, MUdpSender, MUdpReceiver, MUser q] ! n"
    using udp_nodes_nth(3)[OF nodes] n8 by auto
  note laws = udp_fwd[of "sn_prof sn" N w p] ipv4_fwd[of "sn_prof sn" N w p table] eth_fwd[of "sn_prof sn" N w p]
    ethr_fwd[of "sn_prof sn" N w p] udpr_fwd[of "sn_prof sn" N w p]
  have "forwards sn ctx N n (nd_module (nds ! n)) p w (hd (udp_links ! n))"
  proof (cases "n = 4")
    case True
    with task have "task_ok (sn_prof sn) N w (4, p)" by simp
    from ipv4r_fwd[OF this, of "sn_api sn" ctx] obtain w1 where f: "fwd (sn_prof sn) N 6 p w w1"
      and pr: "Ipv4Receiver_process (sn_prof sn) (sn_api sn) ctx p w = Done (w1, Ok ()) \<or>
        Ipv4Receiver_process (sn_prof sn) (sn_api sn) ctx p w =
          andthen (PacketPool_deallocate (sn_prof sn) (sn_api sn) p (ctx_thread_id ctx) w1) (\<lambda>w2. Done (w2, Err Dropped))" by blast
    have "module_process sn ctx MIpv4Receiver p w = stateless MIpv4Receiver (Ipv4Receiver_process (sn_prof sn) (sn_api sn) ctx p w)"
      by (simp add: module_process_def)
    with pr have "module_process sn ctx MIpv4Receiver p w = Done ((MIpv4Receiver, w1), Ok ()) \<or>
        module_process sn ctx MIpv4Receiver p w =
          andthen (PacketPool_deallocate (sn_prof sn) (sn_api sn) p (ctx_thread_id ctx) w1) (\<lambda>w2. Done ((MIpv4Receiver, w2), Err Dropped))"
      by (auto simp: stateless_Done stateless_andthen)
    with f True m show ?thesis unfolding forwards_def by (auto simp: udp_links_def)
  next
    case False
    then show ?thesis using n8 m task laws nic
      by (auto simp: forwards_def module_process_def stateless_def udp_links_def)
  qed
  then show ?thesis using n8 by auto
qed

lemma rx_own_dom:
  assumes "tasks_good prof held avail P ds ((n, p) # ts) w"
  shows "set (concat (map (mbuf_of w) (map snd ts))) \<subseteq> dom (mbufs w) - held (ext w) - set (concat (map tx_bufs ds))"
proof -
  have "set (mbuf_of w (snd t)) \<subseteq> dom (mbufs w)" if "t \<in> set ts" for t
  proof -
    have "task_ok prof (length ds) w t" using assms that by (auto simp: tasks_good_def)
    then show ?thesis by (auto simp: task_ok_def stage_def tx_base_def rx_base_def mbuf_of_def split: if_splits)
  qed
  moreover have "set (concat (map (mbuf_of w) (map snd ts))) \<inter> (held (ext w) \<union> set (concat (map tx_bufs ds))) = {}"
    using assms by (auto simp: tasks_good_def rx_own_def)
  ultimately show ?thesis by auto
qed

lemma stack_io_step:
  assumes env: "nic_env (sn_fuel sn) (sn_prof sn) (sn_api sn) held wire avail" and nodes: "udp_nodes nds io table q" "length q = 32"
    and inv: "io_inv io" and nic: "unat (route_nic table) < length (io_adapters io)" and dg: "dpdk_good held avail P ctx (io_adapters io) w"
    and tg: "tasks_good (sn_prof sn) held avail P (io_adapters io) ((0, p) # ts) w"
  shows "\<exists>io' w' e. module_process sn ctx (MIo io) p w = Done ((MIo io', w'), Err e) \<and>
    (e = Dropped \<longrightarrow> stack_good sn ctx held wire avail P (at_node nds 0 (MIo io')) ts w')"
proof -
  have task: "task_ok (sn_prof sn) (length (io_adapters io)) w (0, p)" and p: "p \<in> P" "p \<notin> avail (ext w)"
    using tg by (auto simp: tasks_good_def)
  from io_law[OF env inv dg task p(1)] obtain io' w' e where
      pr: "IoNode_process (sn_prof sn) (io_ops sn) ctx p io w = Done ((io', w'), Err e)"
    and post: "e = Dropped \<Longrightarrow> io_inv io' \<and> length (io_adapters io') = length (io_adapters io) \<and> frame p w w' \<and> avail (ext w') = avail (ext w) \<and>
      dpdk_ok held (io_adapters io') w' \<and> (\<forall>m \<in> dom (mbufs w) - held (ext w) - set (concat (map tx_bufs (io_adapters io))).
        mbufs w' m = mbufs w m \<and> m \<notin> held (ext w') \<and> m \<notin> set (concat (map tx_bufs (io_adapters io'))))" by blast
  have "stack_good sn ctx held wire avail P (at_node nds 0 (MIo io')) ts w'" if "e = Dropped"
  proof -
    from post[OF that] have ps: "io_inv io'" "length (io_adapters io') = length (io_adapters io)" "frame p w w'" "avail (ext w') = avail (ext w)"
      "dpdk_ok held (io_adapters io') w'" and oth: "\<forall>m \<in> dom (mbufs w) - held (ext w) - set (concat (map tx_bufs (io_adapters io))).
        mbufs w' m = mbufs w m \<and> m \<notin> held (ext w') \<and> m \<notin> set (concat (map tx_bufs (io_adapters io')))" by blast+
    have "dpdk_good held avail P ctx (io_adapters io') w'" using dpdk_good_frame[OF dg ps(3) p(1) ps(5)] ps(4) p(2) by auto
    moreover have "tasks_good (sn_prof sn) held avail P (io_adapters io') ts w'"
    proof (rule tasks_good_others[OF tg ps(3) _ ps(2)])
      show "pool_known P (ctx_thread_id ctx) w" using dg by (simp add: dpdk_good_def)
      show "\<forall>m\<in>set (concat (map (mbuf_of w) (map snd ts))). mbufs w' m = mbufs w m \<and> m \<notin> held (ext w') \<and> m \<notin> set (concat (map tx_bufs (io_adapters io')))"
        using oth rx_own_dom[OF tg] by blast
    qed (use ps(4) in auto)
    ultimately show ?thesis unfolding stack_good_def
      using env udp_nodes_io[OF nodes(1), of io'] nodes(2) ps(1,2) nic
      by (intro conjI exI[of _ io'] exI[of _ table] exI[of _ q]) auto
  qed
  then show ?thesis using pr by (simp add: module_process_def)
qed

lemma udp_ranks:
  assumes "n < 8" and "n \<noteq> 0" and "n \<noteq> 7"
  shows "\<exists>l. udp_links ! n = [l] \<and> udp_rank l < udp_rank n"
proof -
  from assms have "n = 1 \<or> n = 2 \<or> n = 3 \<or> n = 4 \<or> n = 5 \<or> n = 6" by linarith
  then show ?thesis by (elim disjE) (simp_all add: udp_links_def udp_rank_def)
qed

lemma stack_user_step:
  assumes env: "nic_env (sn_fuel sn) (sn_prof sn) (sn_api sn) held wire avail" and nodes: "udp_nodes nds io table q" "length q = 32"
    and inv: "io_inv io" and nic: "unat (route_nic table) < length (io_adapters io)" and dg: "dpdk_good held avail P ctx (io_adapters io) w"
    and tg: "tasks_good (sn_prof sn) held avail P (io_adapters io) ((7, p) # ts) w"
  shows "\<exists>w'. module_process sn ctx (MUser q) p w = Done ((MUser q, w'), Err Dropped) \<and> stack_good sn ctx held wire avail P nds ts w'"
proof -
  from dealloc_task[OF env dg tg] obtain w' where d: "PacketPool_deallocate (sn_prof sn) (sn_api sn) p (ctx_thread_id ctx) w = Done w'"
    "dpdk_good held avail P ctx (io_adapters io) w'" "tasks_good (sn_prof sn) held avail P (io_adapters io) ts w'" by blast
  have "module_process sn ctx (MUser q) p w = Done ((MUser q, w'), Err Dropped)"
    using d(1) by (simp add: module_process_def UserNode_process_def stateless_def)
  moreover have "stack_good sn ctx held wire avail P nds ts w'" unfolding stack_good_def using env nodes inv nic d(2,3) by blast
  ultimately show ?thesis by blast
qed

lemma stack_forward_step:
  assumes env: "nic_env (sn_fuel sn) (sn_prof sn) (sn_api sn) held wire avail" and nodes: "udp_nodes nds io table q" "length q = 32"
    and inv: "io_inv io" and nic: "unat (route_nic table) < length (io_adapters io)" and dg: "dpdk_good held avail P ctx (io_adapters io) w"
    and tg: "tasks_good (sn_prof sn) held avail P (io_adapters io) ((n, p) # ts) w" and n: "n \<noteq> 0" "n \<noteq> 7"
  shows "\<exists>w'. (module_process sn ctx (nd_module (nds ! n)) p w = Done ((nd_module (nds ! n), w'), Ok ()) \<and>
      bump_refcnt (sn_prof sn) p 1 w' = Done w' \<and> stack_good sn ctx held wire avail P nds ((hd (udp_links ! n), p) # ts) w') \<or>
    (module_process sn ctx (nd_module (nds ! n)) p w = Done ((nd_module (nds ! n), w'), Err Dropped) \<and> stack_good sn ctx held wire avail P nds ts w')"
proof -
  have task: "task_ok (sn_prof sn) (length (io_adapters io)) w (n, p)" using tg by (auto simp: tasks_good_def)
  from stack_forwards[OF nodes(1) task nic n, of ctx] obtain w1 where
      f: "fwd (sn_prof sn) (length (io_adapters io)) (hd (udp_links ! n)) p w w1"
    and pr: "module_process sn ctx (nd_module (nds ! n)) p w = Done ((nd_module (nds ! n), w1), Ok ()) \<or>
      module_process sn ctx (nd_module (nds ! n)) p w =
        andthen (PacketPool_deallocate (sn_prof sn) (sn_api sn) p (ctx_thread_id ctx) w1) (\<lambda>w2. Done ((nd_module (nds ! n), w2), Err Dropped))"
    by (auto simp: forwards_def)
  note g1 = good_forward[OF dg tg f]
  from dealloc_task[OF env g1] obtain w' where d: "PacketPool_deallocate (sn_prof sn) (sn_api sn) p (ctx_thread_id ctx) w1 = Done w'"
    "dpdk_good held avail P ctx (io_adapters io) w'" "tasks_good (sn_prof sn) held avail P (io_adapters io) ts w'" by blast
  obtain pkt where "pkts w1 p = Some pkt" using f by (auto simp: fwd_def task_ok_def)
  then have "bump_refcnt (sn_prof sn) p 1 w1 = Done w1" by (rule bump_one)
  moreover have "stack_good sn ctx held wire avail P nds ((hd (udp_links ! n), p) # ts) w1" "stack_good sn ctx held wire avail P nds ts w'"
    unfolding stack_good_def using env nodes inv nic g1 d(2,3) by blast+
  ultimately show ?thesis using pr d(1) by auto
qed

lemma stack_process_law:
  assumes good: "stack_good sn ctx held wire avail P nds ((n, p) # ts) w"
  shows "n < length nds \<and> links_to (nds ! n) = udp_links ! n \<and> pkts w p \<noteq> None \<and>
      (\<exists>m w' r. op_process (stack_ops sn) ctx (nd_module (nds ! n)) p w = Done ((m, w'), r) \<and>
        (case r of
           Ok _ \<Rightarrow> (\<forall>l\<in>set (udp_links ! n). udp_rank l < udp_rank n) \<and> length (udp_links ! n) \<le> LINKS_CAP \<and>
             (\<exists>w''. bump_refcnt (sn_prof sn) p (length (udp_links ! n)) w' = Done w'' \<and>
               stack_good sn ctx held wire avail P (at_node nds n m) (rev (map (\<lambda>l. (l, p)) (udp_links ! n)) @ ts) w'')
         | Err e \<Rightarrow> e = Dropped \<longrightarrow> stack_good sn ctx held wire avail P (at_node nds n m) ts w'))"
proof -
  from good obtain io table q where st: "nic_env (sn_fuel sn) (sn_prof sn) (sn_api sn) held wire avail" "udp_nodes nds io table q" "length q = 32"
      "io_inv io" "unat (route_nic table) < length (io_adapters io)" "dpdk_good held avail P ctx (io_adapters io) w"
    and tg: "tasks_good (sn_prof sn) held avail P (io_adapters io) ((n, p) # ts) w" unfolding stack_good_def by blast
  have n8: "n < 8" and pk: "pkts w p \<noteq> None" using tg by (auto simp: tasks_good_def task_ok_def stage_def split: if_splits)
  note at = udp_nodes_nth[OF st(2)]
  have nn: "n < length nds" "links_to (nds ! n) = udp_links ! n" using at n8 by simp_all
  note same = at_node_same[OF nn(1) refl]
  have op: "op_process (stack_ops sn) = module_process sn" by (simp add: stack_ops_def)
  consider (io) "n = 0" | (user) "n = 7" | (fw) "n \<noteq> 0" "n \<noteq> 7" by blast
  then show ?thesis
  proof cases
    case io
    have "nd_module (nds ! n) = MIo io" using at(3)[of 0] io by simp
    with stack_io_step[OF st tg[unfolded io]] io nn pk show ?thesis by (auto simp: op)
  next
    case user
    have "nd_module (nds ! n) = MUser q" using at(3)[of 7] user by simp
    with stack_user_step[OF st tg[unfolded user]] same nn pk show ?thesis by (fastforce simp: op)
  next
    case fw
    from udp_ranks[OF n8 fw] obtain l where l: "udp_links ! n = [l]" "udp_rank l < udp_rank n" by blast
    with stack_forward_step[OF st tg fw] same nn pk show ?thesis by (fastforce simp: op LINKS_CAP_def)
  qed
qed

interpretation udp_stack: engine_modules "stack_ops sn" "sn_prof sn" ctx "\<lambda>n. udp_links ! n" udp_rank "stack_good sn ctx held wire avail P"
  for sn ctx held wire avail P
  by unfold_locales (rule stack_process_law)

end
