(* ===== verification/Dpdk_Sim.thy ===== *)
theory Dpdk_Sim
  imports Datapath
begin

text \<open>
  The simulator of \<open>Memory\<close> meets the laws of the NIC (\<open>sim_nic_env\<close>), so the theorems of \<open>Dpdk\<close> apply to
  it: the witnesses run them on an adapter that owns 64 mbufs.
\<close>

lemma map_fst_uniq: "map fst (uniq xs) = remdups (map fst xs)"
  by (simp add: uniq_def comp_def)

lemma fst_take_uniq: "map fst (take k (uniq xs)) = take k (remdups (map fst xs))"
  by (simp add: map_fst_uniq flip: take_map)

lemma uniq_take:
  "distinct (map fst (take k (uniq xs)))" "fst ` set (take k (uniq xs)) \<subseteq> fst ` set xs"
  "fst ` set (without bs xs) = fst ` set xs - fst ` set bs"
proof -
  show "distinct (map fst (take k (uniq xs)))" unfolding fst_take_uniq by simp
  show "fst ` set (take k (uniq xs)) \<subseteq> fst ` set xs"
    using fst_take_uniq[of k xs] by (metis in_set_takeD list.set_map set_remdups subsetI)
qed (auto simp: without_def)

lemma sim_alloc_bulk:
  "rte_pktmbuf_alloc_bulk sim_api mp n x = (let bufs = take n (uniq (sim_mbufs x)) in
     if length bufs = n then (Some bufs, x\<lparr>sim_mbufs := without bufs (sim_mbufs x)\<rparr>) else (None, x))"
  by (simp add: sim_api_def)

lemma sim_rx_burst:
  "rte_eth_rx_burst sim_api port q n x = (case sim_rx x of [] \<Rightarrow> ([], x)
     | c # cs \<Rightarrow> let items = map (apsnd (\<lambda>m. m\<lparr>m_data_off := 128, m_buf_len := 1728\<rparr>)) (take (min c n) (uniq (sim_mbufs x)))
         in (items, x\<lparr>sim_rx := cs, sim_mbufs := without items (sim_mbufs x)\<rparr>))"
  by (simp add: sim_api_def)

lemma sim_tx_burst:
  "rte_eth_tx_burst sim_api port q ps x = (let k = min 2 (length ps) in
     (k, x\<lparr>sim_tx := sim_tx x @ map (\<lambda>pm. (port, q, pm)) (take k ps), sim_mbufs := sim_mbufs x @ take k ps\<rparr>))"
  by (simp add: sim_api_def)

lemma sim_alloc_law:
  assumes "rte_pktmbuf_alloc_bulk sim_api mp n x = (Some bufs, x')"
  shows "length bufs = n \<and> distinct (map fst bufs) \<and> fst ` set bufs \<subseteq> fst ` set (sim_mbufs x) \<and>
    fst ` set (sim_mbufs x') = fst ` set (sim_mbufs x) - fst ` set bufs \<and> sim_tx x' = sim_tx x"
proof -
  from assms have b: "bufs = take n (uniq (sim_mbufs x))" and x': "x' = x\<lparr>sim_mbufs := without bufs (sim_mbufs x)\<rparr>" and l: "length bufs = n"
    by (auto simp: sim_alloc_bulk Let_def split: if_splits)
  show ?thesis using uniq_take(1,2)[of n "sim_mbufs x"] l unfolding x' by (simp add: uniq_take(3) flip: b)
qed

lemma sim_rx_law:
  assumes "rte_eth_rx_burst sim_api port q n x = (items, x')"
  shows "length items \<le> n \<and> distinct (map fst items) \<and> fst ` set items \<subseteq> fst ` set (sim_mbufs x) \<and>
    fst ` set (sim_mbufs x') = fst ` set (sim_mbufs x) - fst ` set items \<and> sim_tx x' = sim_tx x"
proof (cases "sim_rx x")
  case Nil
  then show ?thesis using assms by (simp add: sim_rx_burst)
next
  case (Cons c cs)
  let ?got = "apsnd (\<lambda>m. m\<lparr>m_data_off := 128, m_buf_len := 1728\<rparr>)"
  from assms Cons have b: "items = map ?got (take (min c n) (uniq (sim_mbufs x)))" and x': "x' = x\<lparr>sim_rx := cs, sim_mbufs := without items (sim_mbufs x)\<rparr>"
    by (auto simp: sim_rx_burst Let_def)
  have "map fst items = map fst (take (min c n) (uniq (sim_mbufs x)))" "length items \<le> n" by (simp_all add: b)
  moreover from this(1) have "fst ` set items = fst ` set (take (min c n) (uniq (sim_mbufs x)))" by (metis list.set_map)
  ultimately show ?thesis using uniq_take(1,2)[of "min c n" "sim_mbufs x"] unfolding x' by (simp add: uniq_take(3))
qed

lemma sim_tx_law:
  assumes "rte_eth_tx_burst sim_api port q ps x = (k, x')"
  shows "k \<le> length ps \<and> sim_tx x' = sim_tx x @ map (\<lambda>pm. (port, q, pm)) (take k ps) \<and>
    fst ` set (sim_mbufs x') = fst ` set (sim_mbufs x) \<union> fst ` set (take k ps)"
proof -
  from assms have "k = min 2 (length ps)" and "x' = x\<lparr>sim_tx := sim_tx x @ map (\<lambda>pm. (port, q, pm)) (take k ps), sim_mbufs := sim_mbufs x @ take k ps\<rparr>"
    by (auto simp: sim_tx_burst Let_def)
  then show ?thesis by (simp add: image_Un)
qed

lemma sim_nic_laws: "nic_laws sim_api (\<lambda>x. fst ` set (sim_mbufs x)) sim_tx"
proof -
  have "fst ` set (sim_mbufs x') = fst ` set (sim_mbufs x) \<and> sim_tx x' = sim_tx x"
    if "rte_pktmbuf_alloc_bulk sim_api mp n x = (None, x')" for mp n x x'
    using that by (simp add: sim_alloc_bulk Let_def split: if_splits)
  then show ?thesis unfolding nic_laws_def using sim_alloc_law sim_rx_law sim_tx_law by blast
qed

lemma sim_nic_progress: "nic_progress sim_api"
  by (simp add: nic_progress_def sim_api_def Let_def)

lemma sim_nic_pool_laws: "nic_pool_laws sim_api (\<lambda>x. fst ` set (sim_mbufs x)) (\<lambda>x. set (sim_free x))"
  by (auto simp: nic_pool_laws_def sim_api_def Let_def split: list.splits)

lemma sim_nic_env: "nic_env 64 Release sim_api (\<lambda>x. fst ` set (sim_mbufs x)) sim_tx (\<lambda>x. set (sim_free x))"
  by (auto simp: nic_env_def sim_nic_laws sim_nic_progress sim_nic_pool_laws sim_mempool_laws DPDK_BURST_SIZE_def rx_fits_def
      rx_room_def sim_rx_burst Let_def split: list.splits)

text \<open>An adapter with \<open>k\<close> frames queued, owning the mbufs 1 to 64.\<close>

definition demo_dpdk :: "nat \<Rightarrow> dpdk" where
  "demo_dpdk k = Dpdk_new\<lparr>tx_bufs := [1..<65], tx_idx := k\<rparr>"

definition tx_world :: "sim \<Rightarrow> sim world" where
  "tx_world x = (sim_world x)\<lparr>mbufs := (\<lambda>p. if p \<in> {1..<65} then Some blank_mbuf else None)\<rparr>"

lemma demo_dpdk_wf:
  "k < 64 \<Longrightarrow> dpdk_wf (demo_dpdk k)" "distinct (tx_bufs (demo_dpdk k))" "set (tx_bufs (demo_dpdk k)) \<subseteq> dom (mbufs (tx_world x))"
  "tx_idx (demo_dpdk k) = k" "tx_bufs (demo_dpdk k) = [1..<65]" "d_port (demo_dpdk k) = 0" "d_queue (demo_dpdk k) = 0"
  by (auto simp: demo_dpdk_def dpdk_wf_def DPDK_BURST_SIZE_def Dpdk_new_def tx_world_def simp del: upt_Suc)

theorem dpdk_flush_sends_witness:
  "\<exists>d' w' r. Dpdk_flush 64 Debug sim_api demo_ctx (demo_dpdk 3) (tx_world sim_init) = Done ((d', w'), r)
    \<and> sim_tx (ext w') = [(0, 0, 1, blank_mbuf), (0, 0, 2, blank_mbuf), (0, 0, 3, blank_mbuf)] \<and> tx_idx d' = 0"
proof -
  have own: "set (tx_bufs (demo_dpdk 3)) \<subseteq> dom (mbufs (tx_world sim_init)) - fst ` set (sim_mbufs (ext (tx_world sim_init)))"
    using demo_dpdk_wf(3)[of 3 sim_init] by (simp add: tx_world_def sim_world_def sim_init_def)
  have fr: "frames 0 0 (mbufs (tx_world sim_init)) (take 3 [1..<65]) = [(0, 0, 1, blank_mbuf), (0, 0, 2, blank_mbuf), (0, 0, 3, blank_mbuf)]"
    by (simp add: frames_def tx_world_def upt_conv_Cons)
  from dpdk_flush_sends[OF sim_nic_laws demo_dpdk_wf(1) demo_dpdk_wf(2) own, of 64 Debug demo_ctx] sim_nic_progress
  show ?thesis unfolding demo_dpdk_wf(4-7) fr by (auto simp: tx_world_def sim_world_def sim_init_def)
qed

definition failing_sim :: "sim dpdk_api" where
  "failing_sim = sim_api\<lparr>rte_pktmbuf_alloc_bulk := (\<lambda>mp n x. (None, x))\<rparr>"

lemma failing_sim_laws: "nic_laws failing_sim (\<lambda>x. fst ` set (sim_mbufs x)) sim_tx" "nic_progress failing_sim"
proof -
  have "rte_eth_tx_burst failing_sim = rte_eth_tx_burst sim_api" "rte_eth_rx_burst failing_sim = rte_eth_rx_burst sim_api"
    "rte_pktmbuf_alloc_bulk failing_sim = (\<lambda>mp n x. (None, x))" by (simp_all add: failing_sim_def)
  then show "nic_laws failing_sim (\<lambda>x. fst ` set (sim_mbufs x)) sim_tx" "nic_progress failing_sim"
    using sim_nic_progress sim_rx_law sim_tx_law unfolding nic_laws_def nic_progress_def by simp_all
qed

text \<open>A pool with two packets and two frames waiting.\<close>

definition rx_demo :: "sim world" where
  "rx_demo = (let w = one_packet_world 1 [1024, 4096] in
     w\<lparr>pkts := Map.empty, idle := [1024 \<mapsto> blank_packet, 4096 \<mapsto> blank_packet], mempools := [64 \<mapsto> \<lparr>mp_mp = 7, mp_socket_id = 0, mp_cache_per_thread = 128\<rparr>],
       ext := (ext w)\<lparr>sim_mbufs := [(100, blank_mbuf), (101, blank_mbuf)], sim_rx := [2]\<rparr>\<rparr>)"

definition one_pool_sim :: "sim dpdk_api" where
  "one_pool_sim = sim_api\<lparr>rte_mempool_lookup := (\<lambda>nm x. if nm = ''mbuf_pool_p0'' then Some 7 else None)\<rparr>"

definition sim_port :: "(unit, unit, sim) port_api" where
  "sim_port = \<lparr>c_mq_rx_rss = 1, c_mq_tx_none = 0, c_rx_offload_rss_hash = 0, c_rx_offload_checksum = 0, c_tx_offloads = [],
     c_rss_hf = [], c_headroom = 128, rte_eth_dev_is_valid_port = (\<lambda>_ _. True),
     rte_eth_dev_info_get = (\<lambda>_ _. Some \<lparr>di_rx_offload_capa = 0, di_tx_offload_capa = 0, di_default_rxconf = (), di_default_txconf = ()\<rparr>),
     rte_eth_dev_adjust_nb_rx_tx_desc = (\<lambda>_ a b x. (Some (a, b), x)), rte_eth_dev_configure = (\<lambda>_ _ _ _ x. (True, x)),
     rte_flow_flush = (\<lambda>_ x. (True, x)), rte_socket_id = (\<lambda>_. 0), rte_eth_dev_socket_id = (\<lambda>_ _. 0),
     rte_pktmbuf_pool_create = (\<lambda>_ _ _ _ _ _ x. (7, x)), rte_eth_rx_queue_setup = (\<lambda>_ _ _ _ _ _ _ x. (True, x)),
     rte_eth_tx_queue_setup = (\<lambda>_ _ _ _ _ _ x. (True, x)), rte_eth_dev_start = (\<lambda>_ x. (True, x)),
     rte_eth_promiscuous_enable = (\<lambda>_ x. (True, x))\<rparr>"



text \<open>A packet as the user node makes it, beside an adapter with 64 mbufs.\<close>

definition user_demo :: packet where
  "user_demo = user_pkt 1024 None blank_packet"

definition send_world :: "sim world" where
  "send_world = (set_pkt 1024 user_demo (one_packet_world 1 []))\<lparr>mbufs := (\<lambda>p. if p \<in> {1..<65} then Some blank_mbuf else None)\<rparr>"

lemma send_world_facts:
  "pkts send_world 1024 = Some user_demo" "tx_ready 42 user_demo send_world" "p_buf_ty user_demo = Local"
  "objhdrs send_world 1024 = Some \<lparr>oh_mp = 7, oh_iova = 0x100000\<rparr>" "data_ptr user_demo = 1152" "p_refcnt user_demo = 1"
  "p_len user_demo - p_offset user_demo = 36" "sim_tx (ext send_world) = []" "set (sim_free (ext send_world)) = {}"
  "set (tx_bufs (demo_dpdk 0)) \<subseteq> dom (mbufs send_world) - fst ` set (sim_mbufs (ext send_world))"
  "pool_obj (ctx_thread_id demo_ctx) 1024 send_world"
proof -
  show "tx_ready 42 user_demo send_world"
    by (simp add: tx_ready_def user_demo_def user_pkt_def blank_packet_def buf_extent_def PACKET_BUF_SIZE_def MTU_def DEFAULT_OFFSET_def)
  show "pool_obj (ctx_thread_id demo_ctx) 1024 send_world"
    using one_packet_pool_obj[of 1 "[]"] pool_obj_cong[of send_world "one_packet_world 1 []" 0 1024]
    by (simp add: send_world_def demo_ctx_def)
  show "set (tx_bufs (demo_dpdk 0)) \<subseteq> dom (mbufs send_world) - fst ` set (sim_mbufs (ext send_world))"
    using demo_dpdk_wf(3)[of 0 sim_init] by (simp add: send_world_def tx_world_def one_packet_defs)
qed (simp_all add: send_world_def one_packet_defs user_demo_def user_pkt_def blank_packet_def data_ptr_def)

lemmas send_world_nic = sim_nic_laws sim_nic_progress sim_nic_pool_laws sim_mempool_laws demo_dpdk_wf(1)[of 0, simplified]
  demo_dpdk_wf(2)[of 0]

theorem datagram_reaches_wire_witness:
  "\<exists>w1 d1 w2 d2 w3 r m. tx_path demo_routes Debug 1024 send_world = Done (w1, Ok ())
    \<and> Dpdk_send 64 Debug sim_api demo_ctx 1024 (demo_dpdk 0) w1 = Done ((d1, w2), Ok ())
    \<and> Dpdk_flush 64 Debug sim_api demo_ctx d1 w2 = Done ((d2, w3), r)
    \<and> sim_tx (ext w3) = [(0, 0, 1, m)] \<and> m_buf_addr m + unat (m_data_off m) = 1110 \<and> m_data_len m = 78"
proof -
  note f = send_world_facts
  have ad: "1024 + 42 \<le> data_ptr user_demo" "data_ptr user_demo < 2 ^ 64"
    "unat (oh_iova \<lparr>oh_mp = 7, oh_iova = 0x100000\<rparr>) + (data_ptr user_demo - 1024) < 2 ^ 64" by (simp_all add: f)
  have room: "DPDK_BURST_SIZE \<le> 64" "Suc (tx_idx (demo_dpdk 0)) < DPDK_BURST_SIZE" by (simp_all add: DPDK_BURST_SIZE_def demo_dpdk_wf)
  from datagram_reaches_wire[OF f(1-4) ad send_world_nic f(10) room(1) f(11,6) refl refl, where table = demo_routes and prof = Debug and k = 0]
  show ?thesis using room(2) unfolding demo_dpdk_wf(4-7) f by (auto simp: frames_def)
qed

theorem dpdk_send_lifecycle_witness:
  "\<exists>pkt w d1 w1 d2 w2 r m sh w3. sendable Debug 1024 pkt w 78 \<and> Dpdk_send 64 Debug sim_api demo_ctx 1024 (demo_dpdk 0) w = Done ((d1, w1), Ok ())
    \<and> Dpdk_flush 64 Debug sim_api demo_ctx d1 w1 = Done ((d2, w2), r) \<and> sim_tx (ext w2) = [(0, 0, 1, m)]
    \<and> m_shinfo m = Some sh \<and> map_option fcb_opaque (shinfos w2 sh) = Some 1024
    \<and> packet_free_callback Debug sim_api 1024 w2 = Done w3 \<and> set (sim_free (ext w3)) = {1024}"
proof -
  note f = send_world_facts
  let ?p = "tx_packet demo_routes user_demo"
  define w where "w = set_pkt 1024 ?p (send_world\<lparr>bytes := tx_bytes (p_len user_demo - p_offset user_demo) (data_ptr user_demo) (bytes send_world)\<rparr>)"
  have ad: "1024 + 42 \<le> data_ptr user_demo" "data_ptr user_demo < 2 ^ 64"
    "unat (oh_iova \<lparr>oh_mp = 7, oh_iova = 0x100000\<rparr>) + (data_ptr user_demo - 1024) < 2 ^ 64" by (simp_all add: f)
  have sd: "sendable Debug 1024 ?p w 78" using tx_path_sendable(1)[OF f(1-4) ad w_def, of Debug] f(7) by simp
  have own: "set (tx_bufs (demo_dpdk 0)) \<subseteq> dom (mbufs w) - fst ` set (sim_mbufs (ext w))" using f(10) by (simp add: w_def)
  have obj: "pool_obj (ctx_thread_id demo_ctx) 1024 w" "p_refcnt ?p = 1" "p_buf_ty ?p = Local"
    using f(3,6,11) pool_obj_cong[of w send_world] by (simp_all add: w_def tx_packet_def)
  have room: "DPDK_BURST_SIZE \<le> 64" "Suc (tx_idx (demo_dpdk 0)) < DPDK_BURST_SIZE" by (simp_all add: DPDK_BURST_SIZE_def demo_dpdk_wf)
  have e: "sim_tx (ext w) = []" "set (sim_free (ext w)) = {}" by (simp_all add: w_def f)
  from dpdk_send_lifecycle[OF send_world_nic own room(1) sd obj] sd room(2)
  show ?thesis unfolding demo_dpdk_wf(4-7) e by (intro exI[of _ ?p] exI[of _ w]) (auto simp: frames_def)
qed

end
