(* ===== verification/Shutdown.thy ===== *)
theory Shutdown
  imports Dpdk_Sim
begin

text \<open>
  The end of a worker: \<^verbatim>\<open>IoNode::destroy\<close> flushes and stops every adapter, whatever the flush of an earlier
  one returned.  No frame that was queued is lost.
\<close>

text \<open>What the adapters still have to send, in the order in which they are flushed.\<close>

definition pending_frames :: "(ptr \<rightharpoonup> mbuf) \<Rightarrow> dpdk list \<Rightarrow> wire_item list" where
  "pending_frames mb ds = concat (map (\<lambda>d. frames (d_port d) (d_queue d) mb (take (tx_idx d) (tx_bufs d))) ds)"

lemma pending_frames_cong:
  assumes "\<forall>m\<in>set (concat (map tx_bufs ds)). mb' m = mb m"
  shows "pending_frames mb' ds = pending_frames mb ds"
proof -
  have "frames (d_port d) (d_queue d) mb' (take (tx_idx d) (tx_bufs d)) = frames (d_port d) (d_queue d) mb (take (tx_idx d) (tx_bufs d))"
    if "d \<in> set ds" for d
    unfolding frames_def by (rule map_cong) (use assms that in \<open>auto dest: in_set_takeD\<close>)
  then show ?thesis unfolding pending_frames_def by (metis (mono_tags, lifting) map_cong)
qed

lemma dpdk_ok_keeps:
  assumes ok: "dpdk_ok held (d # ds) w" and k: "keeps held w w' (set (tx_bufs d)) ns"
  shows "dpdk_ok held ds w'" and "\<forall>m\<in>set (concat (map tx_bufs ds)). mbufs w' m = mbufs w m"
proof -
  have own: "set (concat (map tx_bufs ds)) \<subseteq> dom (mbufs w) - held (ext w) - set (tx_bufs d)" using ok by (auto simp: dpdk_ok_def)
  then have oth: "mbufs w' m = mbufs w m \<and> m \<notin> held (ext w')" if "m \<in> set (concat (map tx_bufs ds))" for m
    using k that unfolding keeps_def by blast
  then show "\<forall>m\<in>set (concat (map tx_bufs ds)). mbufs w' m = mbufs w m" by blast
  have "set (concat (map tx_bufs ds)) \<subseteq> dom (mbufs w') - held (ext w')"
  proof
    fix m assume m: "m \<in> set (concat (map tx_bufs ds))"
    then have "m \<in> dom (mbufs w)" using own by blast
    then show "m \<in> dom (mbufs w') - held (ext w')" using oth[OF m] by (simp add: domIff)
  qed
  then show "dpdk_ok held ds w'" using ok by (auto simp: dpdk_ok_def)
qed

lemma destroy_loop_sends:
  assumes laws: "nic_laws api held wire"
  shows "dpdk_ok held ds w \<Longrightarrow>
    (IoNode_destroy_loop (dpdk_ops fuel prof api pa) ctx ds w = Hang \<and> \<not> (nic_progress api \<and> DPDK_BURST_SIZE \<le> fuel)) \<or>
    (\<exists>ds' w'. IoNode_destroy_loop (dpdk_ops fuel prof api pa) ctx ds w = Done (ds', w') \<and>
      wire (ext w') = wire (ext w) @ pending_frames (mbufs w) ds \<and> pkts w' = pkts w \<and> bytes w' = bytes w \<and>
      length ds' = length ds \<and> (\<forall>d\<in>set ds'. tx_idx d = 0))"
proof (induction ds arbitrary: w)
  case Nil
  then show ?case by (simp add: pending_frames_def)
next
  case (Cons d ds)
  have one: "dpdk_wf d" "distinct (tx_bufs d)" "set (tx_bufs d) \<subseteq> dom (mbufs w) - held (ext w)"
    using dpdk_ok_one[OF Cons.prems, of 0] by simp_all
  from flush_any[OF laws dpdk_wfD[OF one(1)] one(2,3), of fuel prof ctx] consider
      (hang) "Dpdk_flush fuel prof api ctx d w = Hang" "\<not> (nic_progress api \<and> tx_idx d \<le> fuel)"
    | (sent) "flushed held wire d w (Dpdk_flush fuel prof api ctx d w)" by blast
  then show ?case
  proof cases
    case hang
    then have "\<not> (nic_progress api \<and> DPDK_BURST_SIZE \<le> fuel)" using one(1) by (auto simp: dpdk_wf_def)
    then show ?thesis using hang(1) by (simp add: dpdk_ops_def)
  next
    case sent
    then obtain d1 x1 mb1 r ns where
        fl: "Dpdk_flush fuel prof api ctx d w = Done ((d1, w\<lparr>ext := x1, mbufs := mb1\<rparr>), r)"
      and wr: "wire x1 = wire (ext w) @ frames (d_port d) (d_queue d) (mbufs w) (take (tx_idx d) (tx_bufs d))" "tx_idx d1 = 0"
      and k: "keeps held w (w\<lparr>ext := x1, mbufs := mb1\<rparr>) (set (tx_bufs d)) ns" unfolding flushed_def by blast
    let ?w1 = "w\<lparr>ext := x1, mbufs := mb1\<rparr>"
    note rest = dpdk_ok_keeps[OF Cons.prems k]
    have "pending_frames mb1 ds = pending_frames (mbufs w) ds" using pending_frames_cong[OF rest(2)] by simp
    with Cons.IH[OF rest(1)] fl wr show ?thesis
      by (elim disjE exE conjE) (simp_all add: dpdk_ops_def Dpdk_stop_def pending_frames_def)
  qed
qed

text \<open>C14. Shutting down loses nothing.  All adapters own 64 distinct buffers each.  For every number of rounds that a flush is given (the fuel), either they
  are used up before a NIC has accepted all frames, so that \<^verbatim>\<open>IoNode::destroy\<close> does not return (for every number of rounds when a NIC stops accepting), or
  afterwards every frame that
  was queued on any adapter has been handed to its NIC, once, adapter by adapter in the order they were
  queued, even when the flush of one of them fails for want of new buffers; no packet and no buffer
  byte changes and no adapter has anything left to send.  When every NIC takes at least one frame of every burst, which DPDK does
  not promise, it returns; 64 rounds of each flush, the fuel, are enough.\<close>

theorem destroy_sends_all:
  assumes "nic_laws api held wire" and "dpdk_ok held (io_adapters io) w"
  shows "(nic_progress api \<and> DPDK_BURST_SIZE \<le> fuel \<longrightarrow> IoNode_destroy (dpdk_ops fuel prof api pa) ctx io w \<noteq> Hang) \<and>
    (IoNode_destroy (dpdk_ops fuel prof api pa) ctx io w = Hang \<or>
     (\<exists>io' w'. IoNode_destroy (dpdk_ops fuel prof api pa) ctx io w = Done (io', w') \<and>
       wire (ext w') = wire (ext w) @ pending_frames (mbufs w) (io_adapters io) \<and> pkts w' = pkts w \<and> bytes w' = bytes w \<and>
       length (io_adapters io') = length (io_adapters io) \<and> (\<forall>d\<in>set (io_adapters io'). tx_idx d = 0)))"
  using destroy_loop_sends[OF assms, of fuel prof pa ctx] by (elim disjE exE conjE) (simp_all add: IoNode_destroy_def)

text \<open>Two adapters, with three and two frames, and a NIC driver that has no buffers left.\<close>

definition two_adapters :: "dpdk io_node" where
  "two_adapters = IoNode_new\<lparr>io_adapters := [(demo_dpdk 3), (demo_dpdk 2)\<lparr>tx_bufs := [65..<129], d_port := 1, d_nic := 1\<rparr>]\<rparr>"

definition two_world :: "sim world" where
  "two_world = (sim_world sim_init)\<lparr>mbufs := (\<lambda>p. if p \<in> {1..<129} then Some blank_mbuf else None)\<rparr>"

theorem destroy_sends_all_witness:
  "\<exists>io' w'. IoNode_destroy (dpdk_ops 64 Debug failing_sim sim_port) demo_ctx two_adapters two_world = Done (io', w')
    \<and> sim_tx (ext w') = [(0, 0, 1, blank_mbuf), (0, 0, 2, blank_mbuf), (0, 0, 3, blank_mbuf), (1, 0, 65, blank_mbuf), (1, 0, 66, blank_mbuf)]"
proof -
  have "dpdk_wf (demo_dpdk 3)" "dpdk_wf ((demo_dpdk 2)\<lparr>tx_bufs := [65..<129], d_port := 1, d_nic := 1\<rparr>)"
    by (simp_all add: dpdk_wf_def demo_dpdk_def DPDK_BURST_SIZE_def del: upt_Suc)
  moreover have "concat (map tx_bufs (io_adapters two_adapters)) = [1..<65] @ [65..<129]"
    by (simp add: two_adapters_def demo_dpdk_def del: upt_rec_numeral)
  then have "concat (map tx_bufs (io_adapters two_adapters)) = [1..<129]"
    using upt_add_eq_append[of 1 65 64] by (simp del: upt_rec_numeral)
  then have "set (concat (map tx_bufs (io_adapters two_adapters))) = {1..<129}"
    "distinct (concat (map tx_bufs (io_adapters two_adapters)))"
    by (simp_all only: set_upt distinct_upt)
  ultimately have ok: "dpdk_ok (\<lambda>x. fst ` set (sim_mbufs x)) (io_adapters two_adapters) two_world"
    unfolding dpdk_ok_def by (auto simp: two_adapters_def two_world_def sim_world_def sim_init_def)
  have "DPDK_BURST_SIZE \<le> 64" by (simp add: DPDK_BURST_SIZE_def)
  with destroy_sends_all[OF failing_sim_laws(1) ok, of 64 Debug sim_port demo_ctx] failing_sim_laws(2)
  have "\<exists>io' w'. IoNode_destroy (dpdk_ops 64 Debug failing_sim sim_port) demo_ctx two_adapters two_world = Done (io', w')
    \<and> sim_tx (ext w') = sim_tx (ext two_world) @ pending_frames (mbufs two_world) (io_adapters two_adapters)" by blast
  moreover have "pending_frames (mbufs two_world) (io_adapters two_adapters) =
      [(0, 0, 1, blank_mbuf), (0, 0, 2, blank_mbuf), (0, 0, 3, blank_mbuf), (1, 0, 65, blank_mbuf), (1, 0, 66, blank_mbuf)]"
    by (simp add: pending_frames_def two_adapters_def demo_dpdk_def frames_def two_world_def upt_conv_Cons Dpdk_new_def)
  ultimately show ?thesis by (simp add: two_world_def sim_world_def sim_init_def)
qed

end
