(* ===== verification/Stack_Start.thy ===== *)
theory Stack_Start
  imports Stack_Inv Shutdown
begin

text \<open>
  The start of a worker with the shipped graph: initialising the modules builds the I/O node's adapters and
  the route table from the configuration and establishes the invariant of the run loop.
\<close>

section \<open>Setting up a port\<close>

text \<open>Setting up ports does not touch the packet pools, and a MAC address has six bytes.\<close>

definition port_laws :: "('r, 't, 'x) port_api \<Rightarrow> 'x dpdk_api \<Rightarrow> ('x \<Rightarrow> ptr set) \<Rightarrow> bool" where
  "port_laws pa api avail \<longleftrightarrow>
     (\<forall>port a b x. avail (snd (rte_eth_dev_adjust_nb_rx_tx_desc pa port a b x)) = avail x) \<and>
     (\<forall>port a b c x. avail (snd (rte_eth_dev_configure pa port a b c x)) = avail x) \<and>
     (\<forall>port x. avail (snd (rte_flow_flush pa port x)) = avail x) \<and>
     (\<forall>nm a b c d e x. avail (snd (rte_pktmbuf_pool_create pa nm a b c d e x)) = avail x) \<and>
     (\<forall>port a b c d e f x. avail (snd (rte_eth_rx_queue_setup pa port a b c d e f x)) = avail x) \<and>
     (\<forall>port a b c d e x. avail (snd (rte_eth_tx_queue_setup pa port a b c d e x)) = avail x) \<and>
     (\<forall>port x. avail (snd (rte_eth_dev_start pa port x)) = avail x) \<and>
     (\<forall>port x. avail (snd (rte_eth_promiscuous_enable pa port x)) = avail x) \<and>
     (\<forall>port x mac. rte_eth_macaddr_get api port x = Some mac \<longrightarrow> length mac = 6)"

lemma must_Done: "must r f = Done y \<longleftrightarrow> fst r \<and> f (snd r) = Done y"
  by (simp add: must_def)

lemma setup_queues_avail:
  assumes "port_laws pa api avail"
  shows "setup_queues pa port rd td sid pool qs x = Done x' \<Longrightarrow> avail x' = avail x"
proof (induction qs arbitrary: x)
  case (Cons q qs)
  then show ?case using assms by (auto simp: must_Done port_laws_def)
qed simp

lemma port_init_avail:
  assumes laws: "port_laws pa api avail" and ok: "port_init pa port nq x = Done x'"
  shows "avail x' = avail x"
  using ok laws[unfolded port_laws_def] unfolding port_init_def Let_def split_beta
  by (auto simp: must_Done split: if_splits option.splits dest!: setup_queues_avail[OF laws])

text \<open>An adapter that was initialised owns 64 buffers of its own.\<close>

lemma dpdk_ok_append:
  assumes "dpdk_ok held ds w" and "dpdk_wf d" and "distinct (tx_bufs d)" and "set (tx_bufs d) \<inter> set (concat (map tx_bufs ds)) = {}"
    and "set (tx_bufs d) \<subseteq> dom (mbufs w) - held (ext w)"
  shows "dpdk_ok held (ds @ [d]) w"
  using assms unfolding dpdk_ok_def by auto

lemma Dpdk_init_Ok:
  assumes ok: "Dpdk_init api pa ctx nic port nq queue d0 w = Done ((d, w'), Ok mac)"
  shows "\<exists>x1 pool bufs x. (if port_ready w then x1 = ext w else port_init pa port nq (ext w) = Done x1) \<and>
    rte_pktmbuf_alloc_bulk api pool DPDK_BURST_SIZE x1 = (Some bufs, x) \<and>
    w' = w\<lparr>ext := x, mbufs := mbufs w ++ map_of bufs, port_ready := True\<rparr> \<and> tx_bufs d = map fst bufs \<and> tx_idx d = tx_idx d0 \<and>
    (\<exists>bs. rte_eth_macaddr_get api port x = Some bs \<and> mac = MacAddr_from_bytes bs)"
proof -
  from ok obtain w1 where pi: "(if port_ready w then Done w
      else andthen (port_init pa port nq (ext w)) (\<lambda>x. Done (w\<lparr>ext := x, port_ready := True\<rparr>))) = Done w1"
    and rest: "(case rte_mempool_lookup api (pool_name port) (ext w1) of None \<Rightarrow> Panic
     | Some pool \<Rightarrow>
       let d1 = d0\<lparr>d_nic := nic, d_port := port, d_queue := queue, pktmbuf_pool := pool\<rparr> in
       (case rte_pktmbuf_alloc_bulk api pool DPDK_BURST_SIZE (ext w1) of
          (None, x) \<Rightarrow> Done ((d1, w1\<lparr>ext := x\<rparr>), Err Unknown)
        | (Some bufs, x) \<Rightarrow>
          let w2 = w1\<lparr>ext := x, mbufs := mbufs w1 ++ map_of bufs\<rparr>; d2 = d1\<lparr>tx_bufs := map fst bufs\<rparr> in
          (case rte_eth_macaddr_get api port x of
             None \<Rightarrow> Done ((d2, w2), Err Unknown)
           | Some mac \<Rightarrow> Done ((d2, w2), Ok (MacAddr_from_bytes mac))))) = Done ((d, w'), Ok mac)"
    unfolding Dpdk_init_def andthen_eq_Done by blast
  have "\<exists>x1. w1 = w\<lparr>ext := x1, port_ready := True\<rparr> \<and> (if port_ready w then x1 = ext w else port_init pa port nq (ext w) = Done x1)"
    using pi by (cases "port_ready w") auto
  then obtain x1 where w1: "w1 = w\<lparr>ext := x1, port_ready := True\<rparr>"
    and x1: "if port_ready w then x1 = ext w else port_init pa port nq (ext w) = Done x1" by blast
  from rest obtain pool where pool: "rte_mempool_lookup api (pool_name port) (ext w1) = Some pool" by (auto split: option.splits)
  obtain ob x where ob: "rte_pktmbuf_alloc_bulk api pool DPDK_BURST_SIZE x1 = (ob, x)" by fastforce
  from rest pool ob obtain bufs where "ob = Some bufs" by (cases ob) (auto simp: w1)
  with ob have al: "rte_pktmbuf_alloc_bulk api pool DPDK_BURST_SIZE x1 = (Some bufs, x)" by simp
  have w': "w' = w\<lparr>ext := x, mbufs := mbufs w ++ map_of bufs, port_ready := True\<rparr>"
    and d: "tx_bufs d = map fst bufs" "tx_idx d = tx_idx d0"
    and m: "\<exists>bs. rte_eth_macaddr_get api port x = Some bs \<and> mac = MacAddr_from_bytes bs"
    using rest pool al by (auto simp: w1 Let_def split: option.splits)
  show ?thesis using x1 al w' d m by blast
qed

lemma Dpdk_init_good:
  assumes nl: "nic_laws api held wire" and pl: "nic_pool_laws api held avail" and laws: "port_laws pa api avail"
    and good: "dpdk_good held avail P ctx ds w" and first: "port_ready w \<or> ds = []"
    and ok: "Dpdk_init api pa ctx nic port nq queue Dpdk_new w = Done ((d, w'), Ok mac)"
  shows "dpdk_good held avail P ctx (ds @ [d]) w' \<and> port_ready w' \<and> length (raw mac) = 6"
proof -
  from Dpdk_init_Ok[OF ok] obtain x1 pool bufs x where
      x1: "if port_ready w then x1 = ext w else port_init pa port nq (ext w) = Done x1"
    and al: "rte_pktmbuf_alloc_bulk api pool DPDK_BURST_SIZE x1 = (Some bufs, x)"
    and w': "w' = w\<lparr>ext := x, mbufs := mbufs w ++ map_of bufs, port_ready := True\<rparr>"
    and d: "tx_bufs d = map fst bufs" "tx_idx d = tx_idx Dpdk_new"
    and m: "\<exists>bs. rte_eth_macaddr_get api port x = Some bs \<and> mac = MacAddr_from_bytes bs" by blast
  note b = alloc_bulk_law(1)[OF nl al]
  have av: "avail (ext w') = avail (ext w)"
    using x1 port_init_avail[OF laws] nic_pool_lawsD(3)[OF pl al] by (auto simp: w' split: if_splits)
  have own: "set (concat (map tx_bufs ds)) \<subseteq> dom (mbufs w) - held x1" if "ds \<noteq> []"
    using good first that x1 unfolding dpdk_good_def dpdk_ok_def by auto
  then have sep: "set (concat (map tx_bufs ds)) \<inter> set (map fst bufs) = {}" using b by (cases "ds = []") auto
  have dm: "dom (mbufs w') = dom (mbufs w) \<union> set (map fst bufs)" by (auto simp: w' dom_map_of_conv_image_fst)
  have "dpdk_ok held ds w'" using good own b dm by (cases "ds = []") (auto simp: dpdk_good_def dpdk_ok_def w')
  moreover have "dpdk_wf d" using d b by (simp add: dpdk_wf_def DPDK_BURST_SIZE_def Dpdk_new_def)
  moreover have "set (tx_bufs d) \<subseteq> dom (mbufs w') - held (ext w')" using d b dm by (auto simp: w')
  ultimately have "dpdk_ok held (ds @ [d]) w'" using d b sep by (intro dpdk_ok_append) auto
  moreover have same: "mempools w' = mempools w" "slots w' = slots w" "objhdrs w' = objhdrs w" "privs w' = privs w" "pkts w' = pkts w" "idle w' = idle w"
    by (simp_all add: w')
  ultimately have "dpdk_good held avail P ctx (ds @ [d]) w'"
    using good av pool_ready_cong[OF same(1,2)] pool_known_cong[OF same(3,4,2)] by (simp add: dpdk_good_def free_ok_def)
  moreover have "length (raw mac) = 6" using m laws by (auto simp: port_laws_def MacAddr_from_bytes_def)
  ultimately show ?thesis by (simp add: w')
qed

section \<open>Starting the modules\<close>

lemma IoNode_init_loop_adapters:
  "IoNode_init_loop fac aops ctx num_queues queue_id i nics io w = Done (io', w') \<Longrightarrow>
    length (io_adapters io') = length (io_adapters io) + length nics"
proof (induction fac aops ctx num_queues queue_id i nics io w rule: IoNode_init_loop.induct)
  case (2 fac aops ctx num_queues queue_id i nic nics io w)
  then show ?case by (auto split: result.splits if_splits)
qed simp

lemma module_init_Ok:
  assumes "module_init sn ctx m w = Done ((m', w'), Ok ())" and "get_stack_config (sn_cfg sn) (ctx_stack_name ctx) = Some sc"
  shows "case m of
      MIo io \<Rightarrow> \<exists>io'. m' = MIo io' \<and> length (io_adapters io') = length (io_adapters io) + length (sc_nics sc)
    | MIpv4Sender table \<Rightarrow> m' = MIpv4Sender (table @ sc_routes sc)
    | _ \<Rightarrow> m' = m"
  using assms
  by (auto simp: module_init_def IoNode_init_def Ipv4Sender_init_def default_init_def Let_def split: module_obj.splits if_splits
      dest!: IoNode_init_loop_adapters)

lemma init_nodes_Ok:
  "init_nodes ops ctx pre nds poll w = Done ((nds', polls, w'), Ok ()) \<Longrightarrow> \<exists>ms. length ms = length nds \<and>
    map nd_module nds' = map nd_module pre @ ms \<and> map links_to nds' = map links_to pre @ map links_to nds \<and>
    polls = poll @ filter (\<lambda>i. capa_contains (op_capability ops (ms ! (i - length pre))) CAPA_POLL) [length pre..<length pre + length nds] \<and>
    list_all2 (\<lambda>nd m. \<exists>v v'. op_init ops ctx (nd_module nd) v = Done ((m, v'), Ok ())) nds ms"
proof (induction nds arbitrary: pre poll w)
  case (Cons nd nds)
  from Cons.prems obtain m w1 r where i0: "op_init ops ctx (nd_module nd) w = Done ((m, w1), r)" by auto
  have "r = Ok ()" using Cons.prems i0 by (cases r) (auto simp: Let_def)
  with i0 have ini: "op_init ops ctx (nd_module nd) w = Done ((m, w1), Ok ())" by simp
  with Cons.prems have rest: "init_nodes ops ctx (pre @ [nd\<lparr>nd_module := m\<rparr>]) nds
      (if capa_contains (op_capability ops m) CAPA_POLL then poll @ [length pre] else poll) w1 = Done ((nds', polls, w'), Ok ())"
    by (auto simp: Let_def split: if_splits)
  from Cons.IH[OF rest] obtain ms where ms: "length ms = length nds" "map nd_module nds' = map nd_module pre @ m # ms"
    "map links_to nds' = map links_to pre @ map links_to (nd # nds)"
    "polls = (if capa_contains (op_capability ops m) CAPA_POLL then poll @ [length pre] else poll) @
      filter (\<lambda>i. capa_contains (op_capability ops (ms ! (i - Suc (length pre)))) CAPA_POLL) [Suc (length pre)..<Suc (length pre) + length nds]"
    "list_all2 (\<lambda>nd m. \<exists>v v'. op_init ops ctx (nd_module nd) v = Done ((m, v'), Ok ())) nds ms" by auto
  have "filter (\<lambda>i. capa_contains (op_capability ops ((m # ms) ! (i - length pre))) CAPA_POLL) [Suc (length pre)..<Suc (length pre) + length nds] =
    filter (\<lambda>i. capa_contains (op_capability ops (ms ! (i - Suc (length pre)))) CAPA_POLL) [Suc (length pre)..<Suc (length pre) + length nds]"
    by (intro filter_cong refl) (auto simp: nth_Cons' Suc_diff_le)
  moreover have "[length pre..<length pre + length (nd # nds)] = length pre # [Suc (length pre)..<Suc (length pre) + length nds]"
    by (subst upt_conv_Cons) auto
  ultimately have "polls = poll @ filter (\<lambda>i. capa_contains (op_capability ops ((m # ms) ! (i - length pre))) CAPA_POLL)
      [length pre..<length pre + length (nd # nds)]" using ms(4) by simp
  then show ?case using ms(1-3,5) ini by (intro exI[of _ "m # ms"] conjI) auto
qed simp

lemma io_inv_add:
  assumes inv: "io_inv io" and len: "length (io_adapters io) < NUM_ADAPTER_MAX" and mac: "length (raw mac) = 6"
  shows "io_inv (io\<lparr>nic_to_mac := (nic_to_mac io)[i := mac], io_adapters := io_adapters io @ [a]\<rparr>)"
proof -
  have "\<forall>m\<in>set ((nic_to_mac io)[i := mac]). length (raw m) = 6"
    using inv mac set_update_subset_insert[of "nic_to_mac io" i mac] unfolding io_inv_def by blast
  then show ?thesis using inv len by (auto simp: io_inv_def queued_def less_SucI)
qed

lemma IoNode_init_loop_good:
  assumes laws: "nic_laws api held wire" "nic_pool_laws api held avail" "port_laws pa api avail"
  shows "IoNode_init_loop stack_adapters (dpdk_ops fuel prof api pa) ctx nq queue i nics io w = Done (io', w') \<Longrightarrow>
    io_inv io \<Longrightarrow> dpdk_good held avail P ctx (io_adapters io) w \<Longrightarrow> port_ready w \<or> io_adapters io = [] \<Longrightarrow>
    io_inv io' \<and> dpdk_good held avail P ctx (io_adapters io') w' \<and> length (io_adapters io') = length (io_adapters io) + length nics"
proof (induction nics arbitrary: i io w)
  case (Cons nic nics)
  from Cons.prems(1) obtain a d w1 r where a: "build_adapter stack_adapters (nc_adapter_name nic) = Done a"
    and ini: "Dpdk_init api pa ctx (of_nat i) (nc_port nic) nq queue a w = Done ((d, w1), r)" by (auto simp: dpdk_ops_def)
  have new: "a = Dpdk_new" using a
    by (auto simp: build_adapter_def stack_adapters_def adapter_register_def unwrap_def split: option.splits if_splits)
  from Cons.prems(1) a ini obtain mac where r: "r = Ok mac" by (cases r) (auto simp: dpdk_ops_def)
  let ?io = "io\<lparr>nic_to_mac := (nic_to_mac io)[i := mac], io_adapters := io_adapters io @ [d]\<rparr>"
  from Cons.prems(1) a ini r have len: "length (io_adapters io) < NUM_ADAPTER_MAX"
    and rest: "IoNode_init_loop stack_adapters (dpdk_ops fuel prof api pa) ctx nq queue (Suc i) nics ?io w1 = Done (io', w')"
    by (auto simp: dpdk_ops_def split: if_splits)
  note g = Dpdk_init_good[OF laws Cons.prems(3,4) ini[unfolded new r]]
  from Cons.IH[OF rest io_inv_add[OF Cons.prems(2) len]] g show ?case by auto
qed simp

lemma io_inv_new: "io_inv IoNode_new"
  by (auto simp: io_inv_def IoNode_new_def queued_def raw_MacAddr_new)

lemma udp_nodes_started:
  assumes "Graph_new (build_module stack_modules) gid udp_graph cpu = Done g"
    and "get_stack_config (sn_cfg sn) (ctx_stack_name ctx) = Some sc"
    and "init_nodes (stack_ops sn) ctx [] (gr_nodes g) [] w = Done ((nds, polls, w'), Ok ())"
  shows "polls = [0, 7] \<and> (\<exists>io. udp_nodes nds io (sc_routes sc) UserNode_new \<and> length (io_adapters io) = length (sc_nics sc))"
proof -
  from udp_graph_built[of gid cpu] assms(1) have g: "udp_nodes (gr_nodes g) IoNode_new Ipv4Sender_new UserNode_new" by auto
  define ms where "ms = map nd_module nds"
  have ms: "length ms = length (gr_nodes g)" "map nd_module nds = ms" "map links_to nds = map links_to (gr_nodes g)"
    "polls = filter (\<lambda>i. capa_contains (module_capability (ms ! i)) CAPA_POLL) [0..<length (gr_nodes g)]"
    "list_all2 (\<lambda>nd m. \<exists>v v'. module_init sn ctx (nd_module nd) v = Done ((m, v'), Ok ())) (gr_nodes g) ms"
    using init_nodes_Ok[OF assms(3)] by (auto simp: stack_ops_def ms_def)
  have "list_all2 (\<lambda>m0 m. \<exists>v v'. module_init sn ctx m0 v = Done ((m, v'), Ok ())) (map nd_module (gr_nodes g)) ms"
    using ms(5) by (simp add: list_all2_map1)
  then have "list_all2 (\<lambda>m0 m. case m0 of
      MIo io \<Rightarrow> \<exists>io'. m = MIo io' \<and> length (io_adapters io') = length (io_adapters io) + length (sc_nics sc)
    | MIpv4Sender table \<Rightarrow> m = MIpv4Sender (table @ sc_routes sc) | _ \<Rightarrow> m = m0) (map nd_module (gr_nodes g)) ms"
    using module_init_Ok[OF _ assms(2)] by (elim list_all2_mono) blast
  then obtain io where io: "ms = [MIo io, MEthSender, MEthReceiver, MIpv4Sender (sc_routes sc), MIpv4Receiver, MUdpSender, MUdpReceiver,
      MUser UserNode_new]" "length (io_adapters io) = length (sc_nics sc)"
    using g by (auto simp: udp_nodes_def list_all2_Cons1 Ipv4Sender_new_def IoNode_new_def)
  have "[0..<length (gr_nodes g)] = [0, 1, 2, 3, 4, 5, 6, 7]" using ms(1) io(1) by (simp add: upt_rec flip: ms(1))
  then have "polls = [0, 7]" using ms(4) io(1)
    by (simp add: module_capability_def default_capability_def capa_contains_def CAPA_PROCESS_def CAPA_POLL_def)
  moreover have "udp_nodes nds io (sc_routes sc) UserNode_new" using ms(2,3) io(1) g by (simp add: udp_nodes_def)
  ultimately show ?thesis using io(2) by blast
qed

lemma init_nodes_world:
  assumes "\<And>nd v m v'. nd \<in> set nds \<Longrightarrow> op_init ops ctx (nd_module nd) v = Done ((m, v'), Ok ()) \<Longrightarrow> v' = v"
  shows "init_nodes ops ctx pre nds poll w = Done ((nds', polls, w'), Ok ()) \<Longrightarrow> w' = w"
  using assms
proof (induction nds arbitrary: pre poll w)
  case (Cons nd nds)
  from Cons.prems(1) obtain m w1 r where i0: "op_init ops ctx (nd_module nd) w = Done ((m, w1), r)" by auto
  have "r = Ok ()" using Cons.prems(1) i0 by (cases r) (auto simp: Let_def)
  with i0 Cons.prems(2)[of nd w m w1] have "op_init ops ctx (nd_module nd) w = Done ((m, w), Ok ())" by simp
  with Cons.prems(1) have "init_nodes ops ctx (pre @ [nd\<lparr>nd_module := m\<rparr>]) nds
      (if capa_contains (op_capability ops m) CAPA_POLL then poll @ [length pre] else poll) w = Done ((nds', polls, w'), Ok ())"
    by (auto simp: Let_def split: if_splits)
  from Cons.IH[OF this] Cons.prems(2) show ?case by auto
qed simp

lemma module_init_world:
  "module_init sn ctx m w = Done ((m', w'), Ok ()) \<Longrightarrow> \<forall>io. m \<noteq> MIo io \<Longrightarrow> w' = w"
  by (auto simp: module_init_def default_init_def split: module_obj.splits)

text \<open>The first node is the I/O node, and only its initialisation touches the world.\<close>

lemma udp_init_io:
  assumes nodes: "udp_nodes nds0 IoNode_new table q" and ini: "init_nodes (stack_ops sn) ctx [] nds0 [] w = Done ((nds, polls, w'), Ok ())"
  shows "\<exists>io. IoNode_init (sn_cfg sn) stack_adapters (io_ops sn) ctx IoNode_new w = Done ((io, w'), Ok ()) \<and> nd_module (nds ! 0) = MIo io"
proof -
  from nodes obtain n0 rest where n0: "nds0 = n0 # rest" "nd_module n0 = MIo IoNode_new" and oth: "\<forall>nd\<in>set rest. \<forall>io. nd_module nd \<noteq> MIo io"
    by (auto simp: udp_nodes_def Cons_eq_map_conv map_eq_Cons_conv)
  from ini n0 obtain m w1 r where i0: "module_init sn ctx (MIo IoNode_new) w = Done ((m, w1), r)" by (auto simp: stack_ops_def)
  have "r = Ok ()" using ini n0 i0 by (cases r) (auto simp: Let_def stack_ops_def)
  with ini n0 i0 obtain poll where rest: "init_nodes (stack_ops sn) ctx [n0\<lparr>nd_module := m\<rparr>] rest poll w1 = Done ((nds, polls, w'), Ok ())"
    by (auto simp: Let_def stack_ops_def split: if_splits)
  have "w' = w1" using oth by (intro init_nodes_world[OF _ rest]) (auto simp: stack_ops_def dest: module_init_world)
  moreover obtain ms where "map nd_module nds = m # ms" using init_nodes_Ok[OF rest] by auto
  then have "nd_module (nds ! 0) = m" by (cases nds) auto
  ultimately show ?thesis using i0 \<open>r = Ok ()\<close> by (auto simp: module_init_def)
qed

lemma started:
  assumes env: "nic_env (sn_fuel sn) (sn_prof sn) (sn_api sn) held wire avail" "port_laws (sn_port sn) (sn_api sn) avail"
    and pool: "free_ok avail w" "pool_ready (ctx_pktpool ctx) w" "avail (ext w) \<subseteq> P" "pool_known P (ctx_thread_id ctx) w"
    and g: "Graph_new (build_module stack_modules) gid udp_graph cpu = Done g"
    and sc: "get_stack_config (sn_cfg sn) (ctx_stack_name ctx) = Some sc" "unat (route_nic (sc_routes sc)) < length (sc_nics sc)"
    and ini: "init_nodes (stack_ops sn) ctx [] (gr_nodes g) [] w = Done ((nds, polls, w'), Ok ())"
  shows "polls = [0, 7] \<and> (\<exists>io. udp_nodes nds io (sc_routes sc) UserNode_new \<and> length (io_adapters io) = length (sc_nics sc)) \<and>
    stack_good sn ctx held wire avail P nds [] w'"
proof -
  from udp_nodes_started[OF g sc(1) ini] obtain io where polls: "polls = [0, 7]" and nodes: "udp_nodes nds io (sc_routes sc) UserNode_new"
    and len: "length (io_adapters io) = length (sc_nics sc)" by blast
  from udp_graph_built[of gid cpu] g have "udp_nodes (gr_nodes g) IoNode_new Ipv4Sender_new UserNode_new" by auto
  from udp_init_io[OF this ini] udp_nodes_nth(3)[OF nodes, of 0]
  have "IoNode_init (sn_cfg sn) stack_adapters (io_ops sn) ctx IoNode_new w = Done ((io, w'), Ok ())" by auto
  then obtain nq queue where lp: "IoNode_init_loop stack_adapters (io_ops sn) ctx nq queue 0 (sc_nics sc) IoNode_new
      (w\<lparr>next_queue := queue + 1\<rparr>) = Done (io, w')" using sc(1) by (auto simp: IoNode_init_def Let_def split: if_splits)
  let ?w = "w\<lparr>next_queue := queue + 1\<rparr>"
  have "dpdk_good held avail P ctx [] ?w"
    using pool pool_ready_cong[of ?w w] pool_known_cong[of ?w w] by (simp add: dpdk_good_def dpdk_ok_def free_ok_def)
  then have "dpdk_good held avail P ctx (io_adapters IoNode_new) ?w" "port_ready ?w \<or> io_adapters IoNode_new = []"
    by (simp_all add: IoNode_new_def)
  from IoNode_init_loop_good[OF _ _ env(2) lp[unfolded io_ops_def] io_inv_new this] env(1)
  have "io_inv io" "dpdk_good held avail P ctx (io_adapters io) w'" by (auto simp: nic_env_def)
  moreover have "length UserNode_new = 32" by (simp add: UserNode_new_def USER_BURST_SIZE_def)
  ultimately have "stack_good sn ctx held wire avail P nds [] w'"
    unfolding stack_good_def using env(1) nodes len sc(2)
    by (intro conjI exI[of _ io] exI[of _ "sc_routes sc"] exI[of _ UserNode_new]) (simp_all add: tasks_good_def rx_own_def)
  then show ?thesis using polls nodes len by blast
qed

text \<open>C5. The start of a worker.  Suppose that the stack's selected route names one of its configured NICs (the code does not check
  that), that NIC and ports obey the laws \<open>nic_env\<close> and \<open>port_laws\<close>, and that the packet pool is as
  \<^verbatim>\<open>PacketPool::get_or_create\<close> leaves it: its free packets have reference count one, it has a cache for this thread, and its
  packets lie apart in memory and can be given back.  If the initialisation of the modules of the shipped UDP graph then succeeds, the
  nodes are the configured ones, the I/O node has one adapter per configured NIC and the IPv4 sender the
  configured routes in order; the nodes that are polled are the I/O node and the user node, in this
  order; and the invariant of the run loop holds for the empty task array: every adapter owns 64 buffers
  that no other adapter and no NIC has.\<close>

theorem udp_stack_started:
  assumes env: "nic_env (sn_fuel sn) (sn_prof sn) (sn_api sn) held wire avail" "port_laws (sn_port sn) (sn_api sn) avail"
    and pool: "free_ok avail w" "pool_ready (ctx_pktpool ctx) w" "avail (ext w) \<subseteq> P" "pool_known P (ctx_thread_id ctx) w"
    and g: "Graph_new (build_module stack_modules) gid udp_graph cpu = Done g"
    and sc: "get_stack_config (sn_cfg sn) (ctx_stack_name ctx) = Some sc" "unat (route_nic (sc_routes sc)) < length (sc_nics sc)"
    and ini: "init_nodes (stack_ops sn) ctx [] (gr_nodes g) [] w = Done ((nds, polls, w'), Ok ())"
  shows "polls = [0, 7] \<and> (\<exists>io. udp_nodes nds io (sc_routes sc) UserNode_new \<and> length (io_adapters io) = length (sc_nics sc)) \<and>
    stack_good sn ctx held wire avail P nds [] w'"
  using assms by (rule started)

end
