(* ===== verification/Stack_Run.thy ===== *)
theory Stack_Run
  imports Stack_Start
begin

text \<open>
  The run loop of a worker with the shipped graph: both polls establish the invariant of the modules for
  the packets they bring, and so every round of the loop is free of panics and of accesses outside the
  objects, and its inner loop ends.
\<close>

section \<open>New tasks\<close>

text \<open>A chain of new packets of the pool, each ready for the node \<open>l\<close>, queued on top of the tasks.\<close>

lemma tasks_good_add:
  assumes "tasks_good prof held avail P ds ts w" and "distinct ps" and "set ps \<subseteq> P - avail (ext w)"
    and "set ps \<inter> set (map snd ts) = {}" and "\<forall>p\<in>set ps. task_ok prof (length ds) w (l, p)"
    and "distinct (concat (map (mbuf_of w) ps))"
    and "set (concat (map (mbuf_of w) ps)) \<inter> (held (ext w) \<union> set (concat (map tx_bufs ds)) \<union> set (concat (map (mbuf_of w) (map snd ts)))) = {}"
  shows "tasks_good prof held avail P ds (rev (map (\<lambda>p. (l, p)) ps) @ ts) w"
  using assms
proof (induction ps rule: rev_induct)
  case (snoc p ps)
  then have g: "tasks_good prof held avail P ds (rev (map (\<lambda>p. (l, p)) ps) @ ts) w" by auto
  have "set (mbuf_of w p) \<inter> (held (ext w) \<union> set (concat (map tx_bufs ds)) \<union>
      set (concat (map (mbuf_of w) (map snd (rev (map (\<lambda>p. (l, p)) ps) @ ts))))) = {}"
    using snoc.prems(6,7) by (auto simp: rev_map comp_def)
  with tasks_good_cons[OF g, of p l] snoc.prems(2-5) show ?case by (auto simp: rev_map comp_def)
qed simp

text \<open>Tasks stay good when only other packets of the pool are taken.\<close>

lemma tasks_good_cong:
  assumes good: "tasks_good prof held avail P ds ts w" and same: "bytes w' = bytes w" "mbufs w' = mbufs w" "held (ext w') = held (ext w)"
    and pk: "\<forall>p\<in>set (map snd ts). pkts w' p = pkts w p" and av: "avail (ext w') \<subseteq> avail (ext w)"
  shows "tasks_good prof held avail P ds ts w'"
proof -
  have "task_ok prof (length ds) w' t" if "t \<in> set ts" for t
  proof -
    have "stage prof n N p pkt w' = stage prof n N p pkt w" for n N p pkt by (simp add: stage_def rx_base_def same)
    then show ?thesis using good pk that by (auto simp: tasks_good_def task_ok_def)
  qed
  moreover have "map (mbuf_of w') (map snd ts) = map (mbuf_of w) (map snd ts)" using pk by (simp add: mbuf_of_def)
  then have "rx_own held ds (map snd ts) w' = rx_own held ds (map snd ts) w" unfolding rx_own_def same by metis
  ultimately show ?thesis using good av by (auto simp: tasks_good_def)
qed

section \<open>The poll of the I/O node\<close>

lemma received_tasks:
  assumes rc: "received Release held avail P ds p w" and good: "dpdk_good held avail P ctx ds w"
  shows "\<exists>ps. chain w (Some p) ps \<and> distinct ps \<and> length ps \<le> DPDK_BURST_SIZE \<and>
    tasks_good Release held avail P ds (rev (map (\<lambda>p. (2, p)) ps)) w"
proof -
  from rc obtain ps ms nic where ps: "chain w (Some p) ps" "distinct ps" "length ps \<le> DPDK_BURST_SIZE" "set ps \<subseteq> P - avail (ext w)"
    and rx: "list_all2 (rx_ok Release nic w) ps ms" and ms: "distinct ms" "set ms \<inter> (held (ext w) \<union> set (concat (map tx_bufs ds))) = {}"
    and room: "\<forall>mp\<in>set ms. \<exists>m. mbufs w mp = Some m \<and> rx_room m" unfolding received_def by blast
  have mb: "map (mbuf_of w) ps = map (\<lambda>m. [m]) ms"
    using rx by (intro nth_equalityI) (auto simp: list_all2_conv_all_nth rx_ok_def mbuf_of_def)
  have own: "concat (map (mbuf_of w) ps) = ms" unfolding mb by (induction ms) auto
  have ok: "task_ok Release (length ds) w (2, q)" if "q \<in> set ps" for q
  proof -
    from that rx obtain m where m: "rx_ok Release nic w q m" "m \<in> set ms" by (metis in_set_conv_nth list_all2_conv_all_nth)
    then show ?thesis using room
      by (fastforce simp: rx_ok_def task_ok_def stage_def rx_base_def rx_room_def)
  qed
  have "tasks_good Release held avail P ds [] w" by (simp add: tasks_good_def rx_own_def)
  from tasks_good_add[OF this ps(2,4), of 2] ok ms show ?thesis using ps by (auto simp: own)
qed

lemma stack_io_poll:
  assumes good: "stack_good sn ctx held wire avail P nds [] w" and rel: "sn_prof sn = Release"
  shows "\<exists>m w' r. op_poll (stack_ops sn) ctx (nd_module (nds ! 0)) w = Done ((m, w'), r) \<and>
    (case r of
       Ok p \<Rightarrow> \<exists>ps. chain w' (Some p) ps \<and> distinct ps \<and> length ps \<le> DPDK_BURST_SIZE \<and>
         stack_good sn ctx held wire avail P (at_node nds 0 m) (rev (map (\<lambda>p. (2, p)) ps)) w'
     | Err e \<Rightarrow> e = Nop \<longrightarrow> stack_good sn ctx held wire avail P (at_node nds 0 m) [] w')"
proof -
  from good obtain io table q where env: "nic_env (sn_fuel sn) (sn_prof sn) (sn_api sn) held wire avail"
    and nodes: "udp_nodes nds io table q" "length q = 32" and inv: "io_inv io" and nic: "unat (route_nic table) < length (io_adapters io)"
    and dg: "dpdk_good held avail P ctx (io_adapters io) w" unfolding stack_good_def by blast
  have "nic_env (sn_fuel sn) (sn_prof sn) (sn_api sn) held wire avail \<and> dpdk_good held avail P ctx (io_adapters io) w" using env dg by simp
  from dpdk_io.poll_total[OF inv this, of "sn_prof sn" "sn_port sn"] obtain io' w' r where
      pl: "IoNode_poll (sn_prof sn) (io_ops sn) ctx io w = Done ((io', w'), r)" "io_inv io'" "length (io_adapters io') = length (io_adapters io)"
    and nop: "r = Err Nop \<Longrightarrow> dpdk_good held avail P ctx (io_adapters io') w'"
    and ok: "\<And>p. r = Ok p \<Longrightarrow> dpdk_good held avail P ctx (io_adapters io') w' \<and> received (sn_prof sn) held avail P (io_adapters io') p w'"
    unfolding io_ops_def by blast
  have sg: "stack_good sn ctx held wire avail P (at_node nds 0 (MIo io')) ts w'"
    if "dpdk_good held avail P ctx (io_adapters io') w'" "tasks_good (sn_prof sn) held avail P (io_adapters io') ts w'" for ts
    unfolding stack_good_def using env udp_nodes_io[OF nodes(1), of io'] nodes(2) pl(2,3) nic that
    by (intro conjI exI[of _ io'] exI[of _ table] exI[of _ q]) auto
  have m: "op_poll (stack_ops sn) ctx (nd_module (nds ! 0)) w = Done ((MIo io', w'), r)"
    using udp_nodes_nth(3)[OF nodes(1), of 0] pl(1) by (simp add: stack_ops_def module_poll_def)
  show ?thesis
  proof (cases r)
    case (Ok p)
    note o = ok[OF this]
    from received_tasks[of held avail P "io_adapters io'" p w' ctx] o rel obtain ps where
      "chain w' (Some p) ps \<and> distinct ps \<and> length ps \<le> DPDK_BURST_SIZE \<and>
        tasks_good (sn_prof sn) held avail P (io_adapters io') (rev (map (\<lambda>p. (2, p)) ps)) w'" by auto
    then show ?thesis using m Ok sg o by auto
  next
    case (Err e)
    have "tasks_good (sn_prof sn) held avail P (io_adapters io') [] w'" by (simp add: tasks_good_def rx_own_def)
    then show ?thesis using m Err sg nop by auto
  qed
qed

section \<open>The poll of the user node\<close>

lemma allocate_burst:
  assumes env: "nic_env fuel prof api held wire avail" and good: "dpdk_good held avail P ctx ds w"
  shows "\<exists>w1 r. allocate_many api (ctx_pktpool ctx) 32 32 w = Done (w1, r) \<and> held (ext w1) = held (ext w) \<and> free_ok avail w1 \<and>
    (case r of Err e \<Rightarrow> True
     | Ok objs \<Rightarrow> distinct objs \<and> length objs = 32 \<and> set objs \<subseteq> avail (ext w) \<and> avail (ext w1) = avail (ext w) - set objs \<and>
         w1 = hand_out objs (w\<lparr>ext := ext w1\<rparr>) \<and> (\<forall>p. p \<notin> set objs \<longrightarrow> pkts w1 p = pkts w p) \<and>
         (\<forall>p\<in>set objs. \<exists>pkt. pkts w1 p = Some pkt \<and> p_refcnt pkt = 1))"
proof -
  have laws: "mempool_laws api avail" "nic_pool_laws api held avail" using env by (simp_all add: nic_env_def)
  have ok: "free_ok avail w" and rd: "pool_ready (ctx_pktpool ctx) w" using good by (simp_all add: dpdk_good_def)
  let ?pool = "ctx_pktpool ctx"
  from pool_ready_cache[OF rd] obtain c mp where c: "get_cache (pp_mp ?pool) (pp_thread_id ?pool) w = Done c"
    "deref_pool (pp_mp ?pool) w = Done mp"
    by blast
  obtain ob x' where g: "rte_mempool_generic_get api (mp_mp mp) 32 c (ext w) = (ob, x')" by fastforce
  obtain w1 r where al: "MemoryPool_allocate api (pp_mp ?pool) 32 32 (pp_thread_id ?pool) w = Done (w1, r)"
    using c g by (cases ob) (auto simp: MemoryPool_allocate_def)
  show ?thesis
    using al free_ok_allocate[OF laws(1) ok al] MemoryPool_allocate_held[OF laws(2) al]
    by (intro exI[of _ w1] exI[of _ r]) (auto simp: allocate_many_def split: result.splits)
qed

lemma filled_stage: "filled pkt p \<Longrightarrow> stage prof N 5 p pkt w"
  by (simp add: filled_def stage_def tx_base_def pkt_sizes word_le_nat_alt)

lemma filled_task: "pkts w p = Some pkt \<Longrightarrow> filled pkt p \<Longrightarrow> task_ok prof N w (5, p) \<and> mbuf_of w p = []"
  using filled_stage[of pkt p] by (auto simp: task_ok_def mbuf_of_def filled_def)

text \<open>What is good before the burst stays good when the packets of the burst are filled, and they are tasks for the UDP
  sender.\<close>

lemma burst_good:
  assumes dg: "dpdk_good held avail P ctx ds w" and tg: "tasks_good prof held avail P ds ts w"
    and ps: "distinct ps" "set ps \<subseteq> avail (ext w)" "avail (ext w1) = avail (ext w) - set ps" "held (ext w1) = held (ext w)"
    and ok: "free_ok avail w1" and w1: "w1 = hand_out ps (w\<lparr>ext := ext w1\<rparr>)" and w': "w' = w1\<lparr>pkts := pkts w'\<rparr>"
    and old: "\<forall>p. p \<notin> set ps \<longrightarrow> pkts w1 p = pkts w p"
    and oth: "\<forall>p. p \<notin> set ps \<longrightarrow> pkts w' p = pkts w1 p" and fill: "\<forall>p\<in>set ps. \<exists>pkt. pkts w' p = Some pkt \<and> filled pkt p"
  shows "dpdk_good held avail P ctx ds w' \<and> tasks_good prof held avail P ds (rev (map (\<lambda>p. (5, p)) ps) @ ts) w'"
proof
  have same: "ext w' = ext w1" "bytes w' = bytes w" "mbufs w' = mbufs w" "mempools w' = mempools w" "slots w' = slots w"
    "objhdrs w' = objhdrs w" "privs w' = privs w" "idle w' = idle w1" by (subst w', simp, (subst w1, simp)?)+
  have av: "avail (ext w') = avail (ext w) - set ps" "held (ext w') = held (ext w)" using ps(3,4) by (simp_all add: same)
  have "free_ok avail w'" using ok oth ps(3) by (auto simp: free_ok_def same)
  moreover have "dpdk_ok held ds w'" using dg av(2) by (simp add: dpdk_good_def dpdk_ok_def same)
  moreover have "pool_ready (ctx_pktpool ctx) w'" using dg pool_ready_cong[OF same(4,5)] by (simp add: dpdk_good_def)
  moreover have "pool_known P (ctx_thread_id ctx) w'" using dg pool_known_cong[OF same(6,7,5)] by (simp add: dpdk_good_def)
  ultimately show "dpdk_good held avail P ctx ds w'" using dg av(1) by (auto simp: dpdk_good_def)
  have new: "set ps \<inter> set (map snd ts) = {}" using tg ps(2) by (auto simp: tasks_good_def)
  then have "\<forall>p\<in>set (map snd ts). pkts w' p = pkts w p" using old oth by auto
  with tasks_good_cong[OF tg same(2,3) av(2)] av(1) have tg': "tasks_good prof held avail P ds ts w'" by blast
  have tk: "task_ok prof N w' (5, p) \<and> mbuf_of w' p = []" if "p \<in> set ps" for p N using fill that filled_task by metis
  then have mb: "concat (map (mbuf_of w') ps) = []" by simp
  have "set ps \<subseteq> P - avail (ext w')" using ps(2) av(1) dg by (auto simp: dpdk_good_def)
  from tasks_good_add[OF tg' ps(1) this new, of 5] tk mb
  show "tasks_good prof held avail P ds (rev (map (\<lambda>p. (5, p)) ps) @ ts) w'" by auto
qed

lemma stack_user_poll:
  assumes good: "stack_good sn ctx held wire avail P nds ts w"
  shows "\<exists>m w' r. op_poll (stack_ops sn) ctx (nd_module (nds ! 7)) w = Done ((m, w'), r) \<and>
    (case r of
       Ok p \<Rightarrow> \<exists>ps. chain w' (Some p) ps \<and> distinct ps \<and> length ps = 32 \<and>
         stack_good sn ctx held wire avail P (at_node nds 7 m) (rev (map (\<lambda>p. (5, p)) ps) @ ts) w'
     | Err e \<Rightarrow> e \<noteq> Nop)"
proof -
  from good obtain io table q where env: "nic_env (sn_fuel sn) (sn_prof sn) (sn_api sn) held wire avail"
    and nodes: "udp_nodes nds io table q" "length q = 32" and inv: "io_inv io" and nic: "unat (route_nic table) < length (io_adapters io)"
    and dg: "dpdk_good held avail P ctx (io_adapters io) w" and tg: "tasks_good (sn_prof sn) held avail P (io_adapters io) ts w"
    unfolding stack_good_def by blast
  from allocate_burst[OF env dg] obtain w1 r where al: "allocate_many (sn_api sn) (ctx_pktpool ctx) 32 32 w = Done (w1, r)"
    "held (ext w1) = held (ext w)" "free_ok avail w1"
    and cs: "case r of Err e \<Rightarrow> True | Ok objs \<Rightarrow> distinct objs \<and> length objs = 32 \<and> set objs \<subseteq> avail (ext w) \<and>
      avail (ext w1) = avail (ext w) - set objs \<and> w1 = hand_out objs (w\<lparr>ext := ext w1\<rparr>) \<and> (\<forall>p. p \<notin> set objs \<longrightarrow> pkts w1 p = pkts w p) \<and>
      (\<forall>p\<in>set objs. \<exists>pkt. pkts w1 p = Some pkt \<and> p_refcnt pkt = 1)" by blast
  have m: "nd_module (nds ! 7) = MUser q" using udp_nodes_nth(3)[OF nodes(1), of 7] by simp
  show ?thesis
  proof (cases r)
    case (Err e)
    then have "UserNode_poll (sn_prof sn) (sn_api sn) ctx q w = Done ((q, w1), Err (MemoryError e))"
      using al(1) nodes(2) by (simp add: UserNode_poll_def USER_BURST_SIZE_def)
    then show ?thesis using m by (simp add: stack_ops_def module_poll_def)
  next
    case (Ok ps)
    with cs have ps: "distinct ps" "length ps = 32" "set ps \<subseteq> avail (ext w)" "avail (ext w1) = avail (ext w) - set ps"
      "\<forall>p\<in>set ps. \<exists>pkt. pkts w1 p = Some pkt \<and> p_refcnt pkt = 1" and w1: "w1 = hand_out ps (w\<lparr>ext := ext w1\<rparr>)"
      and old: "\<forall>p. p \<notin> set ps \<longrightarrow> pkts w1 p = pkts w p" by simp_all
    from UserNode_poll_ok[of "sn_api sn" ctx q w w1 ps "sn_prof sn"] al(1) nodes(2) ps Ok obtain w2 where
        pl: "UserNode_poll (sn_prof sn) (sn_api sn) ctx q w = Done ((ps, w2), Ok (hd ps))" "chain w2 (Some (hd ps)) ps"
      and fill: "\<forall>p\<in>set ps. \<exists>pkt. pkts w2 p = Some pkt \<and> filled pkt p" and w2: "w2 = w1\<lparr>pkts := pkts w2\<rparr>"
      and oth: "\<forall>p. p \<notin> set ps \<longrightarrow> pkts w2 p = pkts w1 p" by auto
    from burst_good[OF dg tg ps(1,3,4) al(2,3) w1 w2 old oth fill]
    have "stack_good sn ctx held wire avail P (at_node nds 7 (MUser ps)) (rev (map (\<lambda>p. (5, p)) ps) @ ts) w2"
      unfolding stack_good_def using env udp_nodes_user[OF nodes(1), of ps] ps(2) inv nic by blast
    then show ?thesis using pl m ps by (auto simp: stack_ops_def module_poll_def)
  qed
qed

section \<open>A round of the loop\<close>

lemma poll_node_represents:
  assumes rep: "represents st ts" and n: "n < length (es_nodes st)" "links_to (es_nodes st ! n) = [l]"
    and pl: "op_poll ops ctx (nd_module (es_nodes st ! n)) (es_world st) = Done ((m, w), Ok p)" and ch: "chain w (Some p) ps"
    and fit: "length ts + length ps \<le> TASK_QUEUE_SIZE"
  shows "\<exists>st'. poll_node ops ctx n st = Done (st', Ok ()) \<and> represents st' (rev (map (\<lambda>p. (l, p)) ps) @ ts) \<and>
    es_nodes st' = at_node (es_nodes st) n m \<and> es_world st' = w"
proof -
  have wf: "wf_es st" and ix: "es_index st = length ts" using rep represents_index[OF rep] by (simp_all add: represents_def)
  have "es_index st + length (links_to (es_nodes st ! n)) * length ps \<le> TASK_QUEUE_SIZE" using fit ix n(2) by simp
  from poll_node_ok[OF wf n(1) pl ch this] obtain st' where st': "poll_node ops ctx n st = Done (st', Ok ())" "wf_es st'" "es_world st' = w"
    "es_nodes st' = at_node (es_nodes st) n m"
    "tasks_of (es_queue st', es_index st') = poll_tasks [l] ps @ tasks_of (es_queue st, es_index st)" unfolding n(2) by blast
  have "poll_tasks [l] ps = map (apsnd Some) (rev (map (\<lambda>p. (l, p)) ps))" by (simp add: rev_map)
  then show ?thesis using st' rep by (simp add: represents_def)
qed

lemma poll_node_fails:
  assumes "n < length (es_nodes st)" and "op_poll ops ctx (nd_module (es_nodes st ! n)) (es_world st) = Done ((m, w), Err e)"
  shows "poll_node ops ctx n st = Done (st\<lparr>es_nodes := at_node (es_nodes st) n m, es_world := w\<rparr>, if e = Nop then Ok () else Err e)"
  using assms by (cases e) (simp_all add: poll_node_def Let_def at_node_def)

lemma stack_good_nodes:
  assumes "stack_good sn ctx held wire avail P nds ts w"
  shows "length nds = 8" and "n < 8 \<Longrightarrow> links_to (nds ! n) = udp_links ! n"
  using assms udp_nodes_nth(1,2)[of nds] unfolding stack_good_def by blast+

lemma poll_io_represents:
  assumes rep: "represents st []" and good: "stack_good sn ctx held wire avail P (es_nodes st) [] (es_world st)" and rel: "sn_prof sn = Release"
  shows "\<exists>st' r. poll_node (stack_ops sn) ctx 0 st = Done (st', r) \<and>
    (r = Ok () \<longrightarrow> (\<exists>ps. length ps \<le> 64 \<and> represents st' (rev (map (\<lambda>p. (2, p)) ps)) \<and>
      stack_good sn ctx held wire avail P (es_nodes st') (rev (map (\<lambda>p. (2, p)) ps)) (es_world st')))"
proof -
  note sz = stack_good_nodes[OF good]
  have n: "0 < length (es_nodes st)" "links_to (es_nodes st ! 0) = [2]" using sz(1) sz(2)[of 0] by (simp_all add: udp_links_def)
  from stack_io_poll[OF good rel] obtain m w' r where pl: "op_poll (stack_ops sn) ctx (nd_module (es_nodes st ! 0)) (es_world st) = Done ((m, w'), r)"
    and cs: "case r of
       Ok p \<Rightarrow> \<exists>ps. chain w' (Some p) ps \<and> distinct ps \<and> length ps \<le> DPDK_BURST_SIZE \<and>
         stack_good sn ctx held wire avail P (at_node (es_nodes st) 0 m) (rev (map (\<lambda>p. (2, p)) ps)) w'
     | Err e \<Rightarrow> e = Nop \<longrightarrow> stack_good sn ctx held wire avail P (at_node (es_nodes st) 0 m) [] w'" by blast
  show ?thesis
  proof (cases r)
    case (Ok p)
    with cs obtain ps where ps: "chain w' (Some p) ps" "length ps \<le> 64"
      "stack_good sn ctx held wire avail P (at_node (es_nodes st) 0 m) (rev (map (\<lambda>p. (2, p)) ps)) w'" by (auto simp: DPDK_BURST_SIZE_def)
    from poll_node_represents[OF rep n pl[unfolded Ok] ps(1)] ps(2) obtain st' where
      "poll_node (stack_ops sn) ctx 0 st = Done (st', Ok ())" "represents st' (rev (map (\<lambda>p. (2, p)) ps))"
      "es_nodes st' = at_node (es_nodes st) 0 m" "es_world st' = w'" by (auto simp: TASK_QUEUE_SIZE_def)
    with ps(2,3) show ?thesis by (intro exI[of _ st'] exI[of _ "Ok ()"]) (auto intro!: exI[of _ ps])
  next
    case (Err e)
    let ?st = "st\<lparr>es_nodes := at_node (es_nodes st) 0 m, es_world := w'\<rparr>"
    have "represents ?st []" using rep by (simp add: represents_def wf_es_def)
    then show ?thesis using poll_node_fails[OF n(1) pl[unfolded Err]] cs Err
      by (intro exI[of _ ?st] exI[of _ "if e = Nop then Ok () else Err e"]) (auto intro!: exI[of _ "[]"])
  qed
qed

lemma poll_user_represents:
  assumes rep: "represents st ts" and good: "stack_good sn ctx held wire avail P (es_nodes st) ts (es_world st)" and fit: "length ts \<le> 64"
  shows "\<exists>st' r. poll_node (stack_ops sn) ctx 7 st = Done (st', r) \<and>
    (r = Ok () \<longrightarrow> (\<exists>ps. length ps = 32 \<and> represents st' (rev (map (\<lambda>p. (5, p)) ps) @ ts) \<and>
      stack_good sn ctx held wire avail P (es_nodes st') (rev (map (\<lambda>p. (5, p)) ps) @ ts) (es_world st')))"
proof -
  note sz = stack_good_nodes[OF good]
  have n: "7 < length (es_nodes st)" "links_to (es_nodes st ! 7) = [5]" using sz(1) sz(2)[of 7] by (simp_all add: udp_links_def)
  from stack_user_poll[OF good] obtain m w' r where pl: "op_poll (stack_ops sn) ctx (nd_module (es_nodes st ! 7)) (es_world st) = Done ((m, w'), r)"
    and cs: "case r of
       Ok p \<Rightarrow> \<exists>ps. chain w' (Some p) ps \<and> distinct ps \<and> length ps = 32 \<and>
         stack_good sn ctx held wire avail P (at_node (es_nodes st) 7 m) (rev (map (\<lambda>p. (5, p)) ps) @ ts) w'
     | Err e \<Rightarrow> e \<noteq> Nop" by blast
  show ?thesis
  proof (cases r)
    case (Ok p)
    with cs obtain ps where ps: "chain w' (Some p) ps" "length ps = 32"
      "stack_good sn ctx held wire avail P (at_node (es_nodes st) 7 m) (rev (map (\<lambda>p. (5, p)) ps) @ ts) w'" by auto
    from poll_node_represents[OF rep n pl[unfolded Ok] ps(1)] ps(2) fit obtain st' where
      "poll_node (stack_ops sn) ctx 7 st = Done (st', Ok ())" "represents st' (rev (map (\<lambda>p. (5, p)) ps) @ ts)"
      "es_nodes st' = at_node (es_nodes st) 7 m" "es_world st' = w'" by (auto simp: TASK_QUEUE_SIZE_def)
    with ps(2,3) show ?thesis by (intro exI[of _ st'] exI[of _ "Ok ()"]) (auto intro!: exI[of _ ps])
  next
    case (Err e)
    then show ?thesis using poll_node_fails[OF n(1) pl[unfolded Err]] cs by simp
  qed
qed

text \<open>At most 96 packets a round, each 85 steps of the inner loop at most.\<close>

definition round_fuel :: nat where "round_fuel = 96 * 85"

lemma fits_short: "length ts \<le> 96 \<Longrightarrow> fits udp_rank ts"
  by (induction ts) (auto simp: udp_rank_def TASK_QUEUE_SIZE_def)

lemma fuel_short:
  assumes "length ts \<le> 96"
  shows "fuel_for udp_rank ts \<le> round_fuel"
proof -
  have r: "rounds_of_rank (udp_rank n) \<le> 85" for n by (simp add: udp_rank_def numeral_eq_Suc)
  have "fuel_for udp_rank ts \<le> length ts * 85"
    by (induction ts) (use r in \<open>auto simp: fuel_for_def intro: add_mono\<close>)
  with assms show ?thesis by (simp add: round_fuel_def)
qed

lemma polls_represent:
  assumes rep: "represents st []" and good: "stack_good sn ctx held wire avail P (es_nodes st) [] (es_world st)" and rel: "sn_prof sn = Release"
  shows "\<exists>st' r. poll_nodes (stack_ops sn) ctx [0, 7] st = Done (st', r) \<and>
    (r = Ok () \<longrightarrow> (\<exists>ts. length ts \<le> 96 \<and> represents st' ts \<and> stack_good sn ctx held wire avail P (es_nodes st') ts (es_world st')))"
proof -
  from poll_io_represents[OF assms] obtain st1 r1 where p1: "poll_node (stack_ops sn) ctx 0 st = Done (st1, r1)"
    and ok1: "r1 = Ok () \<longrightarrow> (\<exists>ps. length ps \<le> 64 \<and> represents st1 (rev (map (\<lambda>p. (2, p)) ps)) \<and>
      stack_good sn ctx held wire avail P (es_nodes st1) (rev (map (\<lambda>p. (2, p)) ps)) (es_world st1))" by blast
  show ?thesis
  proof (cases r1)
    case (Ok u)
    with ok1 obtain ps where ps: "length ps \<le> 64" "represents st1 (rev (map (\<lambda>p. (2, p)) ps))"
      "stack_good sn ctx held wire avail P (es_nodes st1) (rev (map (\<lambda>p. (2, p)) ps)) (es_world st1)" by auto
    from poll_user_represents[OF ps(2,3)] ps(1) obtain st2 r2 where p2: "poll_node (stack_ops sn) ctx 7 st1 = Done (st2, r2)"
      and ok2: "r2 = Ok () \<longrightarrow> (\<exists>qs. length qs = 32 \<and> represents st2 (rev (map (\<lambda>p. (5, p)) qs) @ rev (map (\<lambda>p. (2, p)) ps)) \<and>
        stack_good sn ctx held wire avail P (es_nodes st2) (rev (map (\<lambda>p. (5, p)) qs) @ rev (map (\<lambda>p. (2, p)) ps)) (es_world st2))" by auto
    have "\<exists>ts. length ts \<le> 96 \<and> represents st2 ts \<and> stack_good sn ctx held wire avail P (es_nodes st2) ts (es_world st2)" if "r2 = Ok ()"
    proof -
      from ok2 that obtain qs where "length qs = 32" "represents st2 (rev (map (\<lambda>p. (5, p)) qs) @ rev (map (\<lambda>p. (2, p)) ps))"
        "stack_good sn ctx held wire avail P (es_nodes st2) (rev (map (\<lambda>p. (5, p)) qs) @ rev (map (\<lambda>p. (2, p)) ps)) (es_world st2)" by blast
      with ps(1) show ?thesis by (intro exI[of _ "rev (map (\<lambda>p. (5, p)) qs) @ rev (map (\<lambda>p. (2, p)) ps)"]) simp
    qed
    moreover have "poll_nodes (stack_ops sn) ctx [0, 7] st = Done (st2, r2)" using p1 p2 Ok by (cases r2) simp_all
    ultimately show ?thesis by blast
  next
    case (Err e)
    then show ?thesis using p1 by simp
  qed
qed

lemma rounds_total:
  assumes rel: "sn_prof sn = Release" and fuel: "round_fuel \<le> fuel"
  shows "represents st [] \<Longrightarrow> stack_good sn ctx held wire avail P (es_nodes st) [] (es_world st) \<Longrightarrow>
    \<exists>st' r. run_rounds k fuel (stack_ops sn) (sn_prof sn) ctx [0, 7] st = Done (st', r) \<and>
      (r = Ok () \<longrightarrow> represents st' [] \<and> stack_good sn ctx held wire avail P (es_nodes st') [] (es_world st'))"
proof (induction k arbitrary: st)
  case (Suc k)
  from polls_represent[OF Suc.prems rel] obtain st1 r1 where p: "poll_nodes (stack_ops sn) ctx [0, 7] st = Done (st1, r1)"
    and ok1: "r1 = Ok () \<longrightarrow> (\<exists>ts. length ts \<le> 96 \<and> represents st1 ts \<and> stack_good sn ctx held wire avail P (es_nodes st1) ts (es_world st1))"
    by blast
  show ?case
  proof (cases r1)
    case (Ok u)
    with ok1 obtain ts where ts: "length ts \<le> 96" "represents st1 ts" "stack_good sn ctx held wire avail P (es_nodes st1) ts (es_world st1)" by auto
    have "fuel_for udp_rank ts \<le> fuel" using fuel_short[OF ts(1)] fuel by simp
    from udp_stack.drain_total[OF ts(2,3) fits_short[OF ts(1)] this] obtain st2 r2 where
        d: "drain fuel (stack_ops sn) (sn_prof sn) ctx st1 = Done (st2, r2)"
      and ok2: "r2 = Ok () \<longrightarrow> represents st2 [] \<and> stack_good sn ctx held wire avail P (es_nodes st2) [] (es_world st2)" by blast
    show ?thesis
    proof (cases r2)
      case (Ok v)
      then show ?thesis using Suc.IH[of st2] ok2 p d \<open>r1 = Ok u\<close> by simp
    next
      case (Err e)
      then show ?thesis using p d \<open>r1 = Ok u\<close> by simp
    qed
  next
    case (Err e)
    then show ?thesis using p by simp
  qed
qed simp

section \<open>A worker\<close>

lemma destroy_nodes_rest:
  "\<forall>nd\<in>set nds. \<forall>io. nd_module nd \<noteq> MIo io \<Longrightarrow> destroy_nodes (stack_ops sn) ctx nds w = Done (nds, w)"
  by (induction nds) (auto simp: stack_ops_def module_destroy_def default_destroy_def split: module_obj.splits)

lemma stack_destroyed:
  assumes good: "stack_good sn ctx held wire avail P nds ts w"
  shows "\<exists>nds' w' io. destroy_nodes (stack_ops sn) ctx nds w = Done (nds', w') \<and> nd_module (nds' ! 0) = MIo io \<and>
    (\<forall>d\<in>set (io_adapters io). tx_idx d = 0)"
proof -
  from good obtain io table q where env: "nic_env (sn_fuel sn) (sn_prof sn) (sn_api sn) held wire avail"
    and nodes: "udp_nodes nds io table q" and dg: "dpdk_good held avail P ctx (io_adapters io) w" unfolding stack_good_def by blast
  from nodes obtain n0 rest where n0: "nds = n0 # rest" "nd_module n0 = MIo io" and oth: "\<forall>nd\<in>set rest. \<forall>io. nd_module nd \<noteq> MIo io"
    by (auto simp: udp_nodes_def Cons_eq_map_conv map_eq_Cons_conv)
  have "nic_laws (sn_api sn) held wire" "dpdk_ok held (io_adapters io) w" and prog: "nic_progress (sn_api sn)" "DPDK_BURST_SIZE \<le> sn_fuel sn"
    using env dg by (simp_all add: nic_env_def dpdk_good_def)
  from destroy_loop_sends[OF this(1,2), of "sn_fuel sn" "sn_prof sn" "sn_port sn" ctx] prog obtain ds w' where
    "IoNode_destroy_loop (io_ops sn) ctx (io_adapters io) w = Done (ds, w')" "\<forall>d\<in>set ds. tx_idx d = 0" unfolding io_ops_def by blast
  then show ?thesis using destroy_nodes_rest[OF oth, of sn ctx w'] n0
    by (auto simp: stack_ops_def module_destroy_def IoNode_destroy_def)
qed

text \<open>C1. A worker with the shipped UDP graph never goes wrong.  The conditions are: a release build; a stack whose selected route names
  one of its configured NICs (the code does not check it, and indexes the adapters unchecked); a NIC that obeys \<open>nic_env\<close>, that
  is, DPDK's laws of bursts and pools, at least one frame taken of every burst offered (which DPDK does not promise), and received buffers
  with room for an Ethernet and an IPv4 header; ports that obey \<open>port_laws\<close>; and a packet pool that is as
  \<^verbatim>\<open>PacketPool::get_or_create\<close> leaves it.  Then, once the modules
  are initialised, \<^verbatim>\<open>Worker::run\<close> returns for every number of rounds until it is told to stop.  It does not
  panic, it reads and writes no object or array entry that is not there, it uses or frees no packet that is back in its pool and
  no mbuf that was given to the NIC or freed, and its inner loop ends, in at most 8160 steps a round, whatever the network
  delivers.  It fails only with an error of a module, and if it does not, no adapter has anything left to
  send.  (The callbacks by which DPDK gives sent packets back are no part of the run; they are the steps of the property on
  the life of a sent packet.)\<close>

theorem udp_worker_runs:
  assumes rel: "sn_prof sn = Release" and fuel: "round_fuel \<le> fuel"
    and env: "nic_env (sn_fuel sn) (sn_prof sn) (sn_api sn) held wire avail" "port_laws (sn_port sn) (sn_api sn) avail"
    and wk: "Graph_new (build_module stack_modules) gid udp_graph cpu = Done g" "Worker_new wid stack gid (gr_nodes g) cpu = Done wk"
    and sc: "get_stack_config (sn_cfg sn) stack = Some sc" "unat (route_nic (sc_routes sc)) < length (sc_nics sc)"
    and ent: "enter_thread entered = Ok tid" "PacketPool_get_or_create (sn_prof sn) (sn_api sn) socket_id tid w = Done (w1, pool)"
    and pool: "free_ok avail w1" "pool_ready pool w1" "avail (ext w1) \<subseteq> P" "pool_known P tid w1"
    and ini: "init_nodes (stack_ops sn) \<lparr>ctx_pktpool = pool, ctx_cpu = cpu, ctx_worker_id = wid, ctx_thread_id = tid, ctx_graph_id = gid,
        ctx_stack_name = stack\<rparr> [] (wk_nodes wk) [] w1 = Done (s1, r1)"
  shows "\<exists>wk' cells' w' r. Worker_run (sn_prof sn) (sn_api sn) (stack_ops sn) entered socket_id rounds fuel t wk (cells, w) =
      Done ((wk', cells', w'), r) \<and>
    (r = Ok () \<longrightarrow> (\<exists>io. nd_module (wk_nodes wk' ! 0) = MIo io \<and> (\<forall>d\<in>set (io_adapters io). tx_idx d = 0)))"
proof -
  let ?ctx = "\<lparr>ctx_pktpool = pool, ctx_cpu = cpu, ctx_worker_id = wid, ctx_thread_id = tid, ctx_graph_id = gid, ctx_stack_name = stack\<rparr>"
  have f: "wk_nodes wk = gr_nodes g" "wk_poll wk = []" "wk_cpu wk = cpu" "wk_id wk = wid" "wk_graph_id wk = gid" "wk_stack_name wk = stack"
    "wk_queue wk = replicate TASK_QUEUE_SIZE task_default" using wk(2) by (auto simp: Worker_new_def split: if_splits)
  obtain nds polls w2 where s1: "s1 = (nds, polls, w2)" by (metis prod.exhaust)
  show ?thesis
  proof (cases r1)
    case (Err e)
    then show ?thesis using ent ini by (simp add: Worker_run_def Let_def f s1)
  next
    case (Ok u)
    from ini s1 Ok f(1) have "init_nodes (stack_ops sn) ?ctx [] (gr_nodes g) [] w1 = Done ((nds, polls, w2), Ok ())" by simp
    then have st: "polls = [0, 7]" "stack_good sn ?ctx held wire avail P nds [] w2"
      using started[OF env pool(1), of ?ctx P gid cpu g sc nds polls w2] pool wk(1) sc by simp_all
    let ?st = "\<lparr>es_nodes = nds, es_queue = wk_queue wk, es_index = 0, es_world = w2\<rparr>"
    have "represents ?st []" by (simp add: represents_def wf_es_def tasks_of_def f)
    from rounds_total[OF rel fuel this, of ?ctx held wire avail P rounds] st(2) obtain st' r where
        rr: "run_rounds rounds fuel (stack_ops sn) (sn_prof sn) ?ctx [0, 7] ?st = Done (st', r)"
      and ok: "r = Ok () \<longrightarrow> stack_good sn ?ctx held wire avail P (es_nodes st') [] (es_world st')" by auto
    show ?thesis
    proof (cases r)
      case (Err e)
      then show ?thesis using ent ini rr \<open>r1 = Ok u\<close> by (simp add: Worker_run_def Let_def f s1 st(1))
    next
      case (Ok v)
      with ok stack_destroyed[of sn ?ctx held wire avail P "es_nodes st'" "[]" "es_world st'"] obtain nds3 w3 io where
        "destroy_nodes (stack_ops sn) ?ctx (es_nodes st') (es_world st') = Done (nds3, w3)" "nd_module (nds3 ! 0) = MIo io"
        "\<forall>d\<in>set (io_adapters io). tx_idx d = 0" by auto
      then show ?thesis using ent ini rr \<open>r1 = Ok u\<close> Ok by (simp add: Worker_run_def Let_def f s1 st(1))
    qed
  qed
qed

end
