(* ===== verification/Stack_Sim.thy ===== *)
theory Stack_Sim
  imports Stack_Run
begin

text \<open>
  The shipped configuration on the simulated DPDK: one worker with one NIC, 64 mbufs and a packet pool with
  one packet.  It meets the hypotheses of the theorems on the start and the run of a worker.
\<close>

definition demo_env :: "(unit, unit, sim) stack_env" where
  "demo_env = \<lparr>sn_fuel = 64, sn_prof = Release, sn_api = sim_api, sn_port = sim_port,
     sn_cfg = \<lparr>graph_configs = [udp_graph], stack_configs = [udp_stack]\<rparr>\<rparr>"

definition boot_world :: "sim world" where
  "boot_world = sim_world (sim_init\<lparr>sim_pool := Some (7, [(4096, \<lparr>oh_mp = 7, oh_iova = 0\<rparr>, blank_packet)]), sim_free := [4096],
     sim_mbufs := map (\<lambda>i. (i, blank_mbuf)) [1..<65]\<rparr>)"

abbreviation "demo_held \<equiv> (\<lambda>x. fst ` set (sim_mbufs x)) :: sim \<Rightarrow> ptr set"
abbreviation "demo_avail \<equiv> (\<lambda>x. set (sim_free x)) :: sim \<Rightarrow> ptr set"

lemma demo_env_laws:
  "nic_env (sn_fuel demo_env) (sn_prof demo_env) (sn_api demo_env) demo_held sim_tx demo_avail"
  "port_laws (sn_port demo_env) (sn_api demo_env) demo_avail"
  "get_stack_config (sn_cfg demo_env) ''UDP'' = Some udp_stack" "sn_prof demo_env = Release" "sn_api demo_env = sim_api"
  using sim_nic_env by (simp_all add: demo_env_def port_laws_def sim_port_def sim_api_def get_stack_config_def udp_stack_def)

lemma demo_route: "unat (route_nic (sc_routes udp_stack)) < length (sc_nics udp_stack)"
proof -
  have "route_nic (sc_routes udp_stack) = 0" by (simp add: route_nic_def udp_stack_def)
  then show ?thesis by (simp add: udp_stack_def)
qed

lemma boot_pool:
  "\<exists>w1 pool. PacketPool_get_or_create Release sim_api 0 3 boot_world = Done (w1, pool) \<and> free_ok demo_avail w1 \<and> pool_ready pool w1 \<and>
    demo_avail (ext w1) \<subseteq> {4096} \<and> pool_known {4096} 3 w1 \<and> port_ready w1 = False \<and> sim_pool (ext w1) = sim_pool (ext boot_world) \<and>
    sim_mbufs (ext w1) = sim_mbufs (ext boot_world)"
proof -
  have "show_dec 0 = ''0''" by code_simp
  then show ?thesis
    by (simp add: PacketPool_get_or_create_def MemoryPool_get_or_create_def create_cache_def deref_pool_def boot_world_def
        sim_api_def sim_world_def sim_init_def no_nul_def Let_def cache_table_def align_offset_def free_ok_def pool_ready_def
        pool_known_def pool_obj_def add_objects_def packet_init_def pkt_sizes del: upt_rec_numeral)
qed

lemma boot_mbufs: "length (uniq (sim_mbufs (ext boot_world))) = 64"
proof -
  have "map fst (sim_mbufs (ext boot_world)) = [1..<65]"
    by (simp add: boot_world_def sim_world_def sim_init_def comp_def del: upt_rec_numeral)
  then have "length (uniq (sim_mbufs (ext boot_world))) = length (remdups [1..<65::nat])" unfolding uniq_def by (simp del: upt_rec_numeral)
  then show ?thesis by (simp only: distinct_remdups_id distinct_upt length_upt)
qed

lemma boot_adapter:
  assumes "port_ready w = False" "sim_pool (ext w) = sim_pool (ext boot_world)" "sim_mbufs (ext w) = sim_mbufs (ext boot_world)"
  shows "\<exists>d w' mac. Dpdk_init sim_api sim_port ctx 0 0 1 queue Dpdk_new w = Done ((d, w'), Ok mac)"
proof -
  have "rte_mempool_lookup sim_api nm (ext w) = Some 7" for nm
    by (simp add: assms sim_api_def boot_world_def sim_world_def)
  moreover have "\<exists>bufs x. rte_pktmbuf_alloc_bulk sim_api 7 DPDK_BURST_SIZE (ext w) = (Some bufs, x)"
    using boot_mbufs by (simp add: sim_alloc_bulk assms DPDK_BURST_SIZE_def Let_def)
  moreover have "rte_eth_macaddr_get sim_api 0 x = Some [2, 0, 0, 0, 0, 1]" for x by (simp add: sim_api_def)
  moreover have "port_init sim_port 0 1 (ext w) = Done (ext w)"
    by (simp add: port_init_def sim_port_def must_def default_rx_conf_def default_tx_conf_def)
  ultimately show ?thesis using assms(1) by (auto simp: Dpdk_init_def)
qed

lemma boot_io:
  assumes "port_ready w = False" "sim_pool (ext w) = sim_pool (ext boot_world)" "sim_mbufs (ext w) = sim_mbufs (ext boot_world)"
    and ctx: "ctx_stack_name ctx = ''UDP''" "ctx_graph_id ctx = 0"
  shows "\<exists>io w'. IoNode_init (sn_cfg demo_env) stack_adapters (io_ops demo_env) ctx IoNode_new w = Done ((io, w'), Ok ())"
proof -
  let ?q = "next_queue w"
  from boot_adapter[of "w\<lparr>next_queue := ?q + 1\<rparr>" ctx ?q] assms obtain d w' mac where
    "Dpdk_init sim_api sim_port ctx 0 0 1 ?q Dpdk_new (w\<lparr>next_queue := ?q + 1\<rparr>) = Done ((d, w'), Ok mac)" by auto
  then show ?thesis using demo_env_laws(3) ctx
    by (simp add: IoNode_init_def Let_def udp_stack_def io_ops_def dpdk_ops_def demo_env_def build_adapter_def stack_adapters_def
        adapter_register_def IoNode_new_def)
qed

lemma boot_init:
  assumes "port_ready w = False" "sim_pool (ext w) = sim_pool (ext boot_world)" "sim_mbufs (ext w) = sim_mbufs (ext boot_world)"
    and ctx: "ctx_stack_name ctx = ''UDP''" "ctx_graph_id ctx = 0" and nodes: "udp_nodes nds0 IoNode_new Ipv4Sender_new UserNode_new"
  shows "\<exists>s. init_nodes (stack_ops demo_env) ctx [] nds0 [] w = Done (s, Ok ())"
proof -
  from boot_io[OF assms(1-5)] obtain io w' where
    io: "IoNode_init (sn_cfg demo_env) stack_adapters (io_ops demo_env) ctx IoNode_new w = Done ((io, w'), Ok ())" by blast
  have ip: "Ipv4Sender_init (sn_cfg demo_env) ctx Ipv4Sender_new = Done (sc_routes udp_stack, Ok ())"
    using demo_env_laws(3) ctx(1) by (simp add: Ipv4Sender_init_def Ipv4Sender_new_def udp_stack_def ROUTE_TABLE_CAP_def)
  show ?thesis using nodes unfolding udp_nodes_def map_eq_Cons_conv list.map_disc_iff
    by (auto simp: stack_ops_def module_init_def io ip default_init_def module_capability_def default_capability_def
        capa_contains_def CAPA_PROCESS_def CAPA_POLL_def POLL_CAP_def Let_def)
qed

theorem udp_stack_started_witness:
  "\<exists>w nds0 nds polls w' ctx. init_nodes (stack_ops demo_env) ctx [] nds0 [] w = Done ((nds, polls, w'), Ok ()) \<and>
    polls = [0, 7] \<and> stack_good demo_env ctx demo_held sim_tx demo_avail {4096} nds [] w'"
proof -
  from boot_pool obtain w1 pool where w1: "free_ok demo_avail w1" "pool_ready pool w1" "demo_avail (ext w1) \<subseteq> {4096}" "pool_known {4096} 3 w1"
    and b: "port_ready w1 = False" "sim_pool (ext w1) = sim_pool (ext boot_world)" "sim_mbufs (ext w1) = sim_mbufs (ext boot_world)" by blast
  let ?ctx = "\<lparr>ctx_pktpool = pool, ctx_cpu = 14, ctx_worker_id = 0, ctx_thread_id = 3, ctx_graph_id = 0, ctx_stack_name = ''UDP''\<rparr>"
  from udp_graph_built[of 0 14] obtain nds0 where
    g: "Graph_new (build_module stack_modules) 0 udp_graph 14 = Done \<lparr>gr_id = 0, gr_cpu = 14, gr_nodes = nds0\<rparr>"
    and nodes: "udp_nodes nds0 IoNode_new Ipv4Sender_new UserNode_new" by blast
  from boot_init[OF b _ _ nodes, of ?ctx] obtain nds polls w' where
    ini: "init_nodes (stack_ops demo_env) ?ctx [] nds0 [] w1 = Done ((nds, polls, w'), Ok ())" by auto
  from udp_stack_started[OF demo_env_laws(1,2) w1(1) _ w1(3) _ g _ demo_route, of ?ctx nds polls w'] w1(2,4) demo_env_laws(3) ini
  have "polls = [0, 7]" "stack_good demo_env ?ctx demo_held sim_tx demo_avail {4096} nds [] w'" by simp_all
  with ini show ?thesis by blast
qed

theorem udp_worker_runs_witness:
  "\<exists>wk wk' cells' w' r. wk_nodes wk \<noteq> [] \<and> Worker_run Release sim_api (stack_ops demo_env)
      (Ok \<lparr>resp_data = Ok (RespThreadEnter 3)\<rparr>) 0 1000 round_fuel 0 wk (ThreadId_cells, boot_world) = Done ((wk', cells', w'), r)"
proof -
  from boot_pool obtain w1 pool where ok: "PacketPool_get_or_create Release sim_api 0 3 boot_world = Done (w1, pool)"
    and w1: "free_ok demo_avail w1" "pool_ready pool w1" "demo_avail (ext w1) \<subseteq> {4096}" "pool_known {4096} 3 w1"
    and b: "port_ready w1 = False" "sim_pool (ext w1) = sim_pool (ext boot_world)" "sim_mbufs (ext w1) = sim_mbufs (ext boot_world)" by blast
  let ?ctx = "\<lparr>ctx_pktpool = pool, ctx_cpu = 14, ctx_worker_id = 0, ctx_thread_id = 3, ctx_graph_id = 0, ctx_stack_name = ''UDP''\<rparr>"
  from udp_graph_built[of 0 14] obtain nds0 where
    g: "Graph_new (build_module stack_modules) 0 udp_graph 14 = Done \<lparr>gr_id = 0, gr_cpu = 14, gr_nodes = nds0\<rparr>"
    and nodes: "udp_nodes nds0 IoNode_new Ipv4Sender_new UserNode_new" by blast
  from udp_nodes_nth(1)[OF nodes] obtain wk where
    wk: "Worker_new 0 ''UDP'' 0 (gr_nodes \<lparr>gr_id = 0, gr_cpu = 14, gr_nodes = nds0\<rparr>) 14 = Done wk" "wk_nodes wk = nds0" "nds0 \<noteq> []"
    by (fastforce simp: Worker_new_def NODES_CAP_def)
  from boot_init[OF b _ _ nodes, of ?ctx] wk(2) obtain s where ini: "init_nodes (stack_ops demo_env) ?ctx [] (wk_nodes wk) [] w1 = Done (s, Ok ())" by auto
  have ent: "enter_thread (Ok \<lparr>resp_data = Ok (RespThreadEnter 3)\<rparr>) = Ok 3" by (simp add: enter_thread_def)
  from udp_worker_runs[OF demo_env_laws(4) order_refl demo_env_laws(1,2) g wk(1) demo_env_laws(3) demo_route ent _ w1 ini,
      of 0 boot_world 1000 0 ThreadId_cells] ok
  show ?thesis unfolding demo_env_laws(4,5) using wk(2,3) by blast
qed

end
