(* ===== verification/Cli.thy ===== *)
theory Cli
  imports Stack
begin

text \<open>
  \<^verbatim>\<open>omnistack-cli/src/main.rs\<close>: the program, from the parsed command line to the launch of the workers.  The file
  system is a function from paths to whether there is a directory and what reading it yields.
\<close>

definition cli_main :: "profile \<Rightarrow> 'j json_api \<Rightarrow> (string \<Rightarrow> bool \<times> fs_iter option) \<Rightarrow> int \<Rightarrow> bool \<Rightarrow> bool \<Rightarrow> string \<Rightarrow> string option
    \<Rightarrow> (module_obj worker \<times> u32) list outcome" where
  "cli_main prof api fs eal handler_ok spawn_ok stack config =
     (let config_dir = (case config of Some d \<Rightarrow> d | None \<Rightarrow> ''config'') in
      andthen (assert_that (fst (fs config_dir))) (\<lambda>_.
      andthen (load_dir prof api (snd (fs config_dir)) empty_config) (\<lambda>cfg.
      Engine_run cfg (build_module stack_modules) eal handler_ok spawn_ok stack)))"

text \<open>C31. The program starts what it is configured to start.  If \<^verbatim>\<open>main\<close> gets to the launch of the workers, the
  directory was one and every file of it loaded, the stack is configured, under a name that is unique, and
  there is one worker per CPU entry of the stack, in the order of the configuration, each handed to its
  own CPU, numbered from zero without a gap, with an empty task array of 2048 entries and at most 32
  nodes: those of the graph that its entry names.\<close>

theorem cli_starts_workers:
  assumes "cli_main prof api fs eal handler_ok spawn_ok stack config = Done ws"
  shows "\<exists>dir cfg sc. dir = (case config of Some d \<Rightarrow> d | None \<Rightarrow> ''config'') \<and> fst (fs dir) \<and>
    load_dir prof api (snd (fs dir)) empty_config = Done cfg \<and> (\<forall>s. s \<in> set (stack_configs cfg) \<and> sc_name s = stack \<longleftrightarrow> s = sc) \<and>
    map snd ws = concat (map ge_cpus (sc_graphs sc)) \<and>
    (\<forall>i<length ws. wk_cpu (fst (ws ! i)) = snd (ws ! i) \<and> wk_stack_name (fst (ws ! i)) = stack \<and>
       started_as cfg (build_module stack_modules) sc i (fst (ws ! i)))"
proof -
  let ?dir = "case config of Some d \<Rightarrow> d | None \<Rightarrow> ''config''"
  from assms obtain cfg where d: "fst (fs ?dir)" and ld: "load_dir prof api (snd (fs ?dir)) empty_config = Done cfg"
    and run: "Engine_run cfg (build_module stack_modules) eal handler_ok spawn_ok stack = Done ws"
    by (auto simp: cli_main_def Let_def)
  from engine_run_workers[OF run] obtain sc where sc: "get_stack_config cfg stack = Some sc"
    and ws: "map snd ws = concat (map ge_cpus (sc_graphs sc))" "\<forall>i<length ws. wk_cpu (fst (ws ! i)) = snd (ws ! i) \<and>
       wk_stack_name (fst (ws ! i)) = stack \<and> started_as cfg (build_module stack_modules) sc i (fst (ws ! i))" by blast
  have "config_wf empty_config" by (simp add: config_wf_def empty_config_def)
  then have "config_wf cfg" using load_dir_induct(1)[where I = config_wf, OF _ _ ld] config_wf_load by blast
  then have "get_stack_config cfg stack = Some s \<longleftrightarrow> s \<in> set (stack_configs cfg) \<and> sc_name s = stack" for s
    by (simp add: config_wf_def stacks.get_unique)
  with sc have "\<forall>s. s \<in> set (stack_configs cfg) \<and> sc_name s = stack \<longleftrightarrow> s = sc" by (metis option.inject)
  with d ld ws show ?thesis by blast
qed

text \<open>The shipped configuration starts one worker, on CPU 14.\<close>

theorem cli_starts_workers_witness:
  "\<exists>ws. cli_main Release udp_api (\<lambda>d. (d = ''config'', udp_tree)) 0 True True ''UDP'' None = Done ws \<and> map snd ws = [14]"
proof -
  obtain nds where g: "Graph_new (build_module stack_modules) 0 udp_graph 14 = Done \<lparr>gr_id = 0, gr_cpu = 14, gr_nodes = nds\<rparr>"
    and n: "udp_nodes nds IoNode_new Ipv4Sender_new UserNode_new" using udp_graph_built by blast
  have "length (map links_to nds) = 8" using n by (simp add: udp_nodes_def udp_links_def)
  then have "length nds = 8" by simp
  then have "\<exists>ws. cli_main Release udp_api (\<lambda>d. (d = ''config'', udp_tree)) 0 True True ''UDP'' None = Done ws"
    using g by (simp add: cli_main_def load_udp_tree Engine_run_def process_init_def get_stack_config_def udp_stack_def get_graph_config_def
        run_workers_def Worker_new_def NODES_CAP_def) (simp add: udp_graph_def)
  then obtain ws where ws: "cli_main Release udp_api (\<lambda>d. (d = ''config'', udp_tree)) 0 True True ''UDP'' None = Done ws" by blast
  from cli_starts_workers[OF ws] obtain sc where sc: "\<forall>s. s \<in> set [udp_stack] \<and> sc_name s = ''UDP'' \<longleftrightarrow> s = sc"
    and cpus: "map snd ws = concat (map ge_cpus (sc_graphs sc))" by (auto simp: load_udp_tree)
  have "sc_name udp_stack = ''UDP''" by (simp add: udp_stack_def)
  with sc have "sc = udp_stack" by auto
  with cpus ws show ?thesis by (simp add: udp_stack_def)
qed

end
