(* ===== verification/Channel.thy ===== *)
theory Channel
  imports Memory
begin

text \<open>
  \<^verbatim>\<open>omnistack-core/src/channel.rs\<close>: a channel between processes over a ring of DPDK.  The ring calls are the
  record \<open>ring_api\<close>; what they promise is \<open>ring_laws\<close>.  A pointer in memory is eight bytes, least
  significant first.
\<close>

section \<open>The channel\<close>

datatype channel_error = WriteFull | ReadEmpty

record raw_ipc_channel =
  raw_ring :: usize

record ipc_channel =
  ch_ring :: ptr

text \<open>The calls return 0 on success.  \<open>rte_ring_mc_dequeue\<close> is given the content of the result slot and returns
  the new one.\<close>

record 'x ring_api =
  rte_ring_create :: "string \<Rightarrow> u32 \<Rightarrow> u32 \<Rightarrow> u32 \<Rightarrow> 'x \<Rightarrow> ptr \<times> 'x"
  rte_ring_mp_enqueue :: "ptr \<Rightarrow> ptr \<Rightarrow> 'x \<Rightarrow> int \<times> 'x"
  rte_ring_mc_dequeue :: "ptr \<Rightarrow> ptr \<Rightarrow> 'x \<Rightarrow> int \<times> ptr \<times> 'x"

definition IpcChannel_new :: "'x ring_api \<Rightarrow> string \<Rightarrow> u32 \<Rightarrow> u32 \<Rightarrow> 'x \<Rightarrow> (ipc_channel \<times> 'x) outcome" where
  "IpcChannel_new api name sz socket_id x =
     andthen (assert_that (no_nul name)) (\<lambda>_.
     let (r, x1) = rte_ring_create api name sz socket_id 0 x in Done (\<lparr>ch_ring = r\<rparr>, x1))"

definition from_raw :: "raw_ipc_channel \<Rightarrow> ipc_channel" where
  "from_raw raw_channel = \<lparr>ch_ring = unat (raw_ring raw_channel)\<rparr>"

definition into_raw :: "ipc_channel \<Rightarrow> raw_ipc_channel" where
  "into_raw ch = \<lparr>raw_ring = of_nat (ch_ring ch)\<rparr>"

definition channel_send :: "'x ring_api \<Rightarrow> ipc_channel \<Rightarrow> ptr \<Rightarrow> 'x \<Rightarrow> ('x \<times> (unit, channel_error) result) outcome" where
  "channel_send api ch obj x =
     (if ch_ring ch = 0 then Undef
      else let (r, x1) = rte_ring_mp_enqueue api (ch_ring ch) obj x in
        Done (x1, if r = 0 then Ok () else Err WriteFull))"

definition load_ptr :: "ptr \<Rightarrow> mem \<Rightarrow> ptr" where
  "load_ptr a m = unat (from_le (map (\<lambda>i. m (a + i)) [0..<8]) :: usize)"

text \<open>\<^verbatim>\<open>*objs.get_unchecked(0).cast()\<close> reads through the pointer in the slot.  \<open>readable\<close> are the addresses where
  eight bytes may be read.\<close>

definition channel_recv :: "'x ring_api \<Rightarrow> (ptr \<Rightarrow> bool) \<Rightarrow> mem \<Rightarrow> ipc_channel \<Rightarrow> 'x
    \<Rightarrow> ('x \<times> (ptr, channel_error) result) outcome" where
  "channel_recv api readable m ch x =
     (if ch_ring ch = 0 then Undef
      else let (r, obj, x1) = rte_ring_mc_dequeue api (ch_ring ch) 0 x in
        if r = 0 then (if readable obj then Done (x1, Ok (load_ptr obj m)) else Undef)
        else Done (x1, Err ReadEmpty))"

section \<open>Order and content of what is received\<close>

text \<open>A ring is a queue: a call that succeeds appends to it or takes its first entry, and taking fails only when
  it is empty.\<close>

definition ring_laws :: "'x ring_api \<Rightarrow> (ptr \<Rightarrow> 'x \<Rightarrow> ptr list) \<Rightarrow> bool" where
  "ring_laws api contents \<longleftrightarrow>
     (\<forall>r obj x c x'. rte_ring_mp_enqueue api r obj x = (c, x') \<longrightarrow>
        contents r x' = (if c = 0 then contents r x @ [obj] else contents r x)) \<and>
     (\<forall>r s x c obj x'. rte_ring_mc_dequeue api r s x = (c, obj, x') \<longrightarrow>
        (case contents r x of [] \<Rightarrow> c \<noteq> 0 \<and> contents r x' = [] | p # ps \<Rightarrow> c = 0 \<and> obj = p \<and> contents r x' = ps))"

fun sends :: "'x ring_api \<Rightarrow> ipc_channel \<Rightarrow> ptr list \<Rightarrow> 'x \<Rightarrow> ('x \<times> (unit, channel_error) result) outcome" where
  "sends api ch [] x = Done (x, Ok ())"
| "sends api ch (p # ps) x = qmark (channel_send api ch p x) (\<lambda>x1 _. sends api ch ps x1)"

fun recvs :: "'x ring_api \<Rightarrow> (ptr \<Rightarrow> bool) \<Rightarrow> mem \<Rightarrow> ipc_channel \<Rightarrow> nat \<Rightarrow> 'x \<Rightarrow> ('x \<times> (ptr list, channel_error) result) outcome" where
  "recvs api readable m ch 0 x = Done (x, Ok [])"
| "recvs api readable m ch (Suc n) x = qmark (channel_recv api readable m ch x) (\<lambda>x1 p.
     qmark (recvs api readable m ch n x1) (\<lambda>x2 ps. Done (x2, Ok (p # ps))))"

lemma send_contents:
  assumes "ring_laws api contents" and "channel_send api ch obj x = Done (x', Ok ())"
  shows "contents (ch_ring ch) x' = contents (ch_ring ch) x @ [obj]"
proof -
  obtain c x1 where e: "rte_ring_mp_enqueue api (ch_ring ch) obj x = (c, x1)" by fastforce
  then have "c = 0" "x' = x1" using assms(2) by (auto simp: channel_send_def split: if_splits)
  then show ?thesis using assms(1) e unfolding ring_laws_def by fastforce
qed

lemma sends_contents:
  assumes "ring_laws api contents"
  shows "sends api ch ps x = Done (x', Ok ()) \<Longrightarrow> contents (ch_ring ch) x' = contents (ch_ring ch) x @ ps"
proof (induction ps arbitrary: x)
  case (Cons p ps)
  from Cons.prems obtain x1 where "channel_send api ch p x = Done (x1, Ok ())" "sends api ch ps x1 = Done (x', Ok ())"
    by (auto simp: qmark_eq_Done)
  then show ?case using send_contents[OF assms] Cons.IH by fastforce
qed simp

lemma recv_contents:
  assumes laws: "ring_laws api contents" and ring: "ch_ring ch \<noteq> 0" and rd: "\<forall>p\<in>set (contents (ch_ring ch) x). readable p"
  shows "\<exists>x'. channel_recv api readable m ch x = Done (x', case contents (ch_ring ch) x of [] \<Rightarrow> Err ReadEmpty | p # ps \<Rightarrow> Ok (load_ptr p m)) \<and>
    contents (ch_ring ch) x' = tl (contents (ch_ring ch) x)"
proof -
  obtain c obj x' where d: "rte_ring_mc_dequeue api (ch_ring ch) 0 x = (c, obj, x')" by (metis prod.exhaust)
  with laws have "case contents (ch_ring ch) x of [] \<Rightarrow> c \<noteq> 0 \<and> contents (ch_ring ch) x' = [] | p # ps \<Rightarrow> c = 0 \<and> obj = p \<and> contents (ch_ring ch) x' = ps"
    unfolding ring_laws_def by blast
  then show ?thesis using ring rd d by (cases "contents (ch_ring ch) x") (auto simp: channel_recv_def)
qed

lemma recvs_contents:
  assumes laws: "ring_laws api contents" and ring: "ch_ring ch \<noteq> 0"
  shows "contents (ch_ring ch) x = ps @ qs \<Longrightarrow> \<forall>p\<in>set (ps @ qs). readable p \<Longrightarrow>
    \<exists>x'. recvs api readable m ch (length ps) x = Done (x', Ok (map (\<lambda>p. load_ptr p m) ps)) \<and> contents (ch_ring ch) x' = qs"
proof (induction ps arbitrary: x)
  case (Cons p ps)
  from recv_contents[OF laws ring, of x readable m] Cons.prems obtain x1 where
    x1: "channel_recv api readable m ch x = Done (x1, Ok (load_ptr p m))" "contents (ch_ring ch) x1 = ps @ qs" by auto
  from Cons.IH[OF x1(2)] Cons.prems(2) obtain x' where
    "recvs api readable m ch (length ps) x1 = Done (x', Ok (map (\<lambda>p. load_ptr p m) ps))" "contents (ch_ring ch) x' = qs" by auto
  with x1(1) show ?case by simp
qed simp

text \<open>C34. A channel is a queue, but not of what was put into it.  What is sent on an empty channel is received in
  the same order, each once, and then the channel is empty again; but \<^verbatim>\<open>recv\<close> returns the eight bytes \<^emph>\<open>at\<close> the
  address that was sent instead of the address, and reads them in the receiving process.\<close>

theorem channel_fifo:
  assumes "ring_laws api contents" and "ch_ring ch \<noteq> 0" and "contents (ch_ring ch) x = []"
    and "sends api ch objs x = Done (x1, Ok ())" and "\<forall>p\<in>set objs. readable p"
  shows "\<exists>x2 x3. recvs api readable m ch (length objs) x1 = Done (x2, Ok (map (\<lambda>p. load_ptr p m) objs)) \<and>
    channel_recv api readable m ch x2 = Done (x3, Err ReadEmpty) \<and> contents (ch_ring ch) x3 = []"
proof -
  have "contents (ch_ring ch) x1 = objs @ []" using sends_contents[OF assms(1,4)] assms(3) by simp
  from recvs_contents[OF assms(1,2) this, of readable m] assms(5) obtain x2 where
    "recvs api readable m ch (length objs) x1 = Done (x2, Ok (map (\<lambda>p. load_ptr p m) objs))" "contents (ch_ring ch) x2 = []" by auto
  moreover from recv_contents[OF assms(1,2), of x2 readable m] this(2) obtain x3 where
    "channel_recv api readable m ch x2 = Done (x3, Err ReadEmpty)" "contents (ch_ring ch) x3 = []" by auto
  ultimately show ?thesis by blast
qed

text \<open>A raw channel is the same channel in every process.\<close>

lemma from_raw_into_raw: "ch_ring ch < 2 ^ 64 \<Longrightarrow> from_raw (into_raw ch) = ch"
  by (cases ch) (simp add: from_raw_def into_raw_def unsigned_of_nat take_bit_nat_eq_self)

text \<open>Rings of a bounded size, as lists.\<close>

definition list_rings :: "nat \<Rightarrow> (ptr \<Rightarrow> ptr list) ring_api" where
  "list_rings cap = \<lparr>rte_ring_create = (\<lambda>_ _ _ _ f. (64, f(64 := []))),
     rte_ring_mp_enqueue = (\<lambda>r obj f. if length (f r) < cap then (0, f(r := f r @ [obj])) else (-105, f)),
     rte_ring_mc_dequeue = (\<lambda>r s f. case f r of [] \<Rightarrow> (-2, s, f) | p # ps \<Rightarrow> (0, p, f(r := ps)))\<rparr>"

lemma list_rings_laws: "ring_laws (list_rings cap) (\<lambda>r f. f r)"
  by (auto simp: ring_laws_def list_rings_def split: list.splits if_splits)

theorem channel_fifo_witness:
  "\<exists>x1 x2. sends (list_rings 4) \<lparr>ch_ring = 64\<rparr> [1024, 4096] (\<lambda>_. []) = Done (x1, Ok ()) \<and>
    recvs (list_rings 4) (\<lambda>p. p < 8192) (\<lambda>a. if a = 1024 then 5 else 0) \<lparr>ch_ring = 64\<rparr> 2 x1 = Done (x2, Ok [5, 0])"
proof -
  let ?m = "\<lambda>a. if a = 1024 then 5 else 0 :: u8"
  obtain x1 where s: "sends (list_rings 4) \<lparr>ch_ring = 64\<rparr> [1024, 4096] (\<lambda>_. []) = Done (x1, Ok ())"
    by (simp add: channel_send_def list_rings_def)
  have "load_ptr 1024 ?m = 5" "load_ptr 4096 ?m = 0" by (simp_all add: load_ptr_def upt_rec)
  then show ?thesis using channel_fifo[OF list_rings_laws _ _ s, of "\<lambda>p. p < 8192" ?m] s
    by (auto simp: numeral_2_eq_2 simp del: recvs.simps sends.simps)
qed

end
