(* ===== verification/Display.thy ===== *)
theory Display
  imports Protocol
begin

text \<open>
  The \<^verbatim>\<open>Debug\<close> texts of \<^verbatim>\<open>protocol.rs\<close>: a MAC address as six hexadecimal bytes, and the IPv4 and UDP headers as
  structs with their numbers in host byte order.  The text of a MAC address determines the address.
\<close>

section \<open>Hexadecimal\<close>

definition hex_digit :: "nat \<Rightarrow> char" where
  "hex_digit d = (if d < 10 then char_of (48 + d) else char_of (87 + d))"

text \<open>\<^verbatim>\<open>{:#x}\<close> of a byte: the prefix and the digits without leading zeros.\<close>

definition show_hex :: "u8 \<Rightarrow> string" where
  "show_hex b = ''0x'' @ (if unat b < 16 then [hex_digit (unat b)]
     else [hex_digit (unat b div 16), hex_digit (unat b mod 16)])"

definition show_mac :: "mac_addr \<Rightarrow> string" where
  "show_mac m = ''['' @ show_hex (raw m ! 0) @ '':'' @ show_hex (raw m ! 1) @ '':'' @ show_hex (raw m ! 2) @ '':'' @
     show_hex (raw m ! 3) @ '':'' @ show_hex (raw m ! 4) @ '':'' @ show_hex (raw m ! 5) @ '']''"

section \<open>Headers\<close>

primrec show_proto :: "ipv4_proto \<Rightarrow> string" where
  "show_proto TCP = ''TCP''"
| "show_proto UDP = ''UDP''"

text \<open>A protocol byte that is neither value is no value of the Rust enumeration.\<close>

definition show_ipv4_header :: "ipv4_header \<Rightarrow> string outcome" where
  "show_ipv4_header h =
     (case proto_decode (ip_protocol h) of
        None \<Rightarrow> Undef
      | Some proto \<Rightarrow> Done
          (''Ipv4Header { version: '' @ show_dec (unat (version h)) @ '', ihl: '' @ show_dec (unat (ihl h)) @
           '', len: '' @ show_dec (unat (ipv4_len h)) @ '', protocol: '' @ show_proto proto @
           '', src: '' @ show_ipv4 (from_be (ip_src h)) @ '', dst: '' @ show_ipv4 (from_be (ip_dst h)) @ '' }''))"

definition show_udp_header :: "udp_header \<Rightarrow> string" where
  "show_udp_header h =
     ''UdpHeader { src: '' @ show_dec (unat (bswap (udp_src h))) @ '', dst: '' @ show_dec (unat (bswap (udp_dst h))) @
     '', len: '' @ show_dec (unat (bswap (udp_len h))) @ '' }''"

section \<open>The text of a MAC address determines it\<close>

definition hex_value :: "char \<Rightarrow> nat" where
  "hex_value c = (if of_char c < (58 :: nat) then of_char c - 48 else of_char c - 87)"

definition read_hex :: "string \<Rightarrow> u8" where
  "read_hex s = of_nat (foldl (\<lambda>v c. 16 * v + hex_value c) 0 (drop 2 s))"

definition read_mac :: "string \<Rightarrow> mac_addr" where
  "read_mac s = MacAddr (map read_hex (split_on CHR '':'' (butlast (tl s))))"

lemma hex_value_digit: "d < 16 \<Longrightarrow> hex_value (hex_digit d) = d"
  by (simp add: hex_value_def hex_digit_def)

lemma hex_digit_plain: "d < 16 \<Longrightarrow> hex_digit d \<noteq> CHR '':''"
proof
  assume d: "d < 16" and "hex_digit d = CHR '':''"
  then have "(of_char (hex_digit d) :: nat) = of_char CHR '':''" by simp
  with d show False by (simp add: hex_digit_def split: if_splits)
qed

lemma unat_byte: "unat (b :: u8) < 256"
  using unsigned_less[of b, where 'a=nat] by simp

lemma read_show_hex [simp]: "read_hex (show_hex b) = b"
proof -
  have "unat b div 16 < 16" using unat_byte[of b] by (simp add: div_less_iff_less_mult)
  then have "foldl (\<lambda>v c. 16 * v + hex_value c) 0 (drop 2 (show_hex b)) = unat b"
    by (simp add: show_hex_def hex_value_digit)
  then show ?thesis by (simp add: read_hex_def)
qed

lemma show_hex_plain: "CHR '':'' \<notin> set (show_hex b)"
proof -
  have "unat b div 16 < 16" using unat_byte[of b] by (simp add: div_less_iff_less_mult)
  then show ?thesis using hex_digit_plain[of "unat b div 16"] hex_digit_plain[of "unat b mod 16"]
      hex_digit_plain[of "unat b"]
    by (auto simp: show_hex_def)
qed

lemma read_show_mac:
  assumes "length (raw m) = 6"
  shows "read_mac (show_mac m) = m"
proof -
  obtain a b c d e f where m: "m = MacAddr [a, b, c, d, e, f]"
    using assms by (cases m) (auto simp: length_Suc_conv numeral_eq_Suc)
  have "butlast (tl (show_mac m)) = show_hex a @ CHR '':'' # show_hex b @ CHR '':'' # show_hex c @ CHR '':'' #
     show_hex d @ CHR '':'' # show_hex e @ CHR '':'' # show_hex f"
    by (simp add: show_mac_def m butlast_append)
  then show ?thesis by (simp add: read_mac_def split_on_Cons split_on_plain show_hex_plain m)
qed

end
