(* ===== verification/Startup.thy ===== *)
theory Startup
  imports Engine Service
begin

text \<open>
  The threads of \<^verbatim>\<open>Engine::run\<close> (\<^verbatim>\<open>engine.rs\<close>) and \<^verbatim>\<open>Server::run\<close> (\<^verbatim>\<open>service.rs\<close>) as a step relation on the flags
  they share: the main thread waits for the control server, launches the workers one by one, joins the server and
  waits for the workers; a launched worker first asks the server for a thread id and then runs until the stop flag is set; the
  handler of Ctrl-C sets that flag.  The result of a launch is dropped, so a launch that fails leaves no worker behind.  A
  worker that fails, in particular one that finds no server, panics in a C callback, which aborts the process.  What the server
  does between its start and its
  end is \<open>Service.Server_run\<close>, what a worker does once it has its thread id is \<open>Engine.Worker_run\<close>.
\<close>

section \<open>The flags\<close>

datatype main_pc = Spinning | Launching nat | Joining | Waiting | Returned

datatype server_pc = Starting | Serving | Ended

text \<open>Of the launches made so far, \<open>launched\<close>, some are \<open>lost\<close>; of the workers, some are \<open>entering\<close> (the server has not answered
  their request yet) and some \<open>running\<close>.\<close>

record startup =
  main_at :: main_pc
  server_at :: server_pc
  up_flag :: bool
  stop_flag :: bool
  launched :: nat
  lost :: nat
  entering :: nat
  running :: nat
  aborted :: bool

definition startup_init :: startup where
  "startup_init = \<lparr>main_at = Spinning, server_at = Starting, up_flag = False, stop_flag = False, launched = 0, lost = 0,
     entering = 0, running = 0, aborted = False\<rparr>"

definition shutdown :: "startup \<Rightarrow> startup" where
  "shutdown s = s\<lparr>stop_flag := True\<rparr>"

definition should_stop :: "startup \<Rightarrow> bool" where
  "should_stop s = stop_flag s"

text \<open>The server sets its flag after it has created the poll object, bound the socket and registered it.\<close>

definition setup_ok :: "(unit, io_kind) result \<Rightarrow> (unit, io_kind) result \<Rightarrow> (unit, io_kind) result \<Rightarrow> bool" where
  "setup_ok poll_new bind register \<longleftrightarrow> poll_new = Ok () \<and> bind = Ok () \<and> register = Ok ()"

section \<open>Steps\<close>

inductive thread_step :: "nat \<Rightarrow> bool \<Rightarrow> startup \<Rightarrow> startup \<Rightarrow> bool" for n ready where
  server_up: "server_at s = Starting \<Longrightarrow> ready \<Longrightarrow> thread_step n ready s (s\<lparr>server_at := Serving, up_flag := True\<rparr>)"
| server_fails: "server_at s = Starting \<Longrightarrow> \<not> ready \<Longrightarrow> thread_step n ready s (s\<lparr>server_at := Ended\<rparr>)"
| server_stops: "server_at s = Serving \<Longrightarrow> should_stop s \<Longrightarrow> thread_step n ready s (s\<lparr>server_at := Ended\<rparr>)"
| server_error: "server_at s = Serving \<Longrightarrow> thread_step n ready s (s\<lparr>server_at := Ended\<rparr>)"
| main_spins: "main_at s = Spinning \<Longrightarrow> \<not> up_flag s \<Longrightarrow> thread_step n ready s s"
| main_goes: "main_at s = Spinning \<Longrightarrow> up_flag s \<Longrightarrow> thread_step n ready s (s\<lparr>main_at := Launching n\<rparr>)"
| main_launches: "main_at s = Launching (Suc k) \<Longrightarrow>
    thread_step n ready s (s\<lparr>main_at := Launching k, launched := Suc (launched s), entering := Suc (entering s)\<rparr>)"
| launch_fails: "main_at s = Launching (Suc k) \<Longrightarrow>
    thread_step n ready s (s\<lparr>main_at := Launching k, launched := Suc (launched s), lost := Suc (lost s)\<rparr>)"
| main_launched: "main_at s = Launching 0 \<Longrightarrow> thread_step n ready s (s\<lparr>main_at := Joining\<rparr>)"
| main_joins: "main_at s = Joining \<Longrightarrow> server_at s = Ended \<Longrightarrow> thread_step n ready s (s\<lparr>main_at := Waiting\<rparr>)"
| main_returns: "main_at s = Waiting \<Longrightarrow> entering s = 0 \<Longrightarrow> running s = 0 \<Longrightarrow> thread_step n ready s (s\<lparr>main_at := Returned\<rparr>)"
| worker_enters: "0 < entering s \<Longrightarrow> server_at s = Serving \<Longrightarrow>
    thread_step n ready s (s\<lparr>entering := entering s - 1, running := Suc (running s)\<rparr>)"
| worker_stops: "0 < running s \<Longrightarrow> should_stop s \<Longrightarrow> thread_step n ready s (s\<lparr>running := running s - 1\<rparr>)"
| worker_fails: "0 < entering s \<or> 0 < running s \<Longrightarrow> thread_step n ready s (s\<lparr>aborted := True\<rparr>)"
| ctrl_c: "thread_step n ready s (shutdown s)"

text \<open>An aborted process makes no step.\<close>

definition start_step :: "nat \<Rightarrow> bool \<Rightarrow> startup \<Rightarrow> startup \<Rightarrow> bool" where
  "start_step n ready s s' \<longleftrightarrow> \<not> aborted s \<and> thread_step n ready s s'"

section \<open>What the steps keep\<close>

primrec launched_at :: "nat \<Rightarrow> main_pc \<Rightarrow> nat \<Rightarrow> bool" where
  "launched_at n Spinning l \<longleftrightarrow> l = 0"
| "launched_at n (Launching k) l \<longleftrightarrow> l + k = n"
| "launched_at n Joining l \<longleftrightarrow> l = n"
| "launched_at n Waiting l \<longleftrightarrow> l = n"
| "launched_at n Returned l \<longleftrightarrow> l = n"

definition start_inv :: "nat \<Rightarrow> bool \<Rightarrow> startup \<Rightarrow> bool" where
  "start_inv n ready s \<longleftrightarrow> launched_at n (main_at s) (launched s) \<and> (main_at s \<noteq> Spinning \<longrightarrow> up_flag s) \<and>
     (up_flag s \<longleftrightarrow> ready \<and> server_at s \<noteq> Starting) \<and> entering s + running s + lost s \<le> launched s \<and>
     (entering s + running s + lost s < launched s \<longrightarrow> stop_flag s) \<and>
     (main_at s = Waiting \<or> main_at s = Returned \<longrightarrow> server_at s = Ended) \<and>
     (main_at s = Returned \<longrightarrow> entering s = 0 \<and> running s = 0) \<and> (aborted s \<longrightarrow> 0 < entering s + running s)"

lemma thread_step_inv: "thread_step n ready s s' \<Longrightarrow> \<not> aborted s \<Longrightarrow> start_inv n ready s \<Longrightarrow> start_inv n ready s'"
  by (induction rule: thread_step.induct) (auto simp: start_inv_def shutdown_def should_stop_def)

lemma start_inv_step: "start_step n ready s s' \<Longrightarrow> start_inv n ready s \<Longrightarrow> start_inv n ready s'"
  unfolding start_step_def using thread_step_inv by blast

lemma start_inv_init: "start_inv n ready startup_init"
  by (simp add: start_inv_def startup_init_def)

lemma start_inv_run: "(start_step n ready)\<^sup>*\<^sup>* startup_init s \<Longrightarrow> start_inv n ready s"
proof (induction rule: rtranclp_induct)
  case base
  show ?case by (rule start_inv_init)
next
  case (step s s')
  show ?case by (rule start_inv_step[OF step(2,3)])
qed

text \<open>The flag of the model is the one \<open>Server_run\<close> sets.\<close>

lemma accept_loop_up: "accept_loop conns s = (s', r) \<Longrightarrow> sv_up s' = sv_up s"
  by (induction conns s rule: accept_loop.induct) auto

lemma handle_event_up: "handle_event from_json ev s = Done ((s', res), r) \<Longrightarrow> sv_up s' = sv_up s"
  by (cases ev) (auto simp: handle_event_def Let_def dest: accept_loop_up split: prod.splits result.splits)

lemma event_loop_up: "event_loop from_json evs s = Done (s', r) \<Longrightarrow> sv_up s' = sv_up s"
proof (induction evs arbitrary: s)
  case (Cons ev evs)
  then obtain s1 res r1 where ev: "handle_event from_json ev s = Done ((s1, res), r1)" by auto
  with Cons show ?case using handle_event_up[OF ev] by (cases r1) auto
qed simp

lemma poll_loop_up: "poll_loop from_json polls s = Done (s', r) \<Longrightarrow> sv_up s' = sv_up s"
  by (induction from_json polls s rule: poll_loop.induct) (auto simp: qmark_eq_Done dest: event_loop_up)

lemma Server_run_up:
  "Server_run from_json pn b r polls server_init = Done (s', res) \<Longrightarrow> sv_up s' \<longleftrightarrow> setup_ok pn b r"
  by (cases pn; cases b; cases r)
    (auto simp: Server_run_def server_init_def setup_ok_def dest!: poll_loop_up)

section \<open>The process can end, as long as the server serves\<close>

text \<open>While the server has not ended, every worker that is launched can still enter.\<close>

fun launch_left :: "nat \<Rightarrow> main_pc \<Rightarrow> nat" where
  "launch_left n Spinning = 2 * n + 2"
| "launch_left n (Launching k) = 2 * k + 1"
| "launch_left n Joining = 0"
| "launch_left n Waiting = 0"
| "launch_left n Returned = 0"

definition before_end :: "nat \<Rightarrow> startup \<Rightarrow> nat" where
  "before_end n s = launch_left n (main_at s) + entering s + (if server_at s = Starting then 1 else 0)"

definition serving :: "nat \<Rightarrow> nat \<Rightarrow> startup \<Rightarrow> bool" where
  "serving n l s \<longleftrightarrow> start_inv n True s \<and> \<not> aborted s \<and> server_at s \<noteq> Ended \<and> lost s = l"

lemma serving_step:
  assumes "serving n l s" and "before_end n s \<noteq> 0"
  shows "\<exists>s'. start_step n True s s' \<and> serving n l s' \<and> before_end n s' < before_end n s"
proof -
  have go: ?thesis if "thread_step n True s s'" "\<not> aborted s'" "server_at s' \<noteq> Ended" "lost s' = l" "before_end n s' < before_end n s" for s'
    using that assms(1) start_inv_step[of n True s s'] by (intro exI[of _ s']) (simp add: serving_def start_step_def)
  note sv = assms(1)[unfolded serving_def start_inv_def]
  show ?thesis
  proof (cases "server_at s")
    case Starting
    show ?thesis by (rule go[OF server_up[OF Starting TrueI]]) (use sv Starting in \<open>simp_all add: before_end_def\<close>)
  next
    case Serving
    show ?thesis
    proof (cases "entering s = 0")
      case False
      then show ?thesis by (intro go[OF worker_enters]) (use sv Serving in \<open>simp_all add: before_end_def\<close>)
    next
      case True
      show ?thesis
      proof (cases "main_at s")
        case Spinning
        then show ?thesis by (intro go[OF main_goes]) (use sv Serving True in \<open>simp_all add: before_end_def\<close>)
      next
        case (Launching k)
        then show ?thesis
        proof (cases k)
          case 0
          with Launching show ?thesis by (intro go[OF main_launched]) (use sv Serving True in \<open>simp_all add: before_end_def\<close>)
        next
          case (Suc j)
          with Launching show ?thesis by (intro go[OF main_launches]) (use sv Serving True in \<open>auto simp: before_end_def\<close>)
        qed
      qed (use assms(2) sv Serving True in \<open>simp_all add: before_end_def\<close>)
    qed
  qed (use sv in simp)
qed

text \<open>All launched, none entering: from here on the process ends once it is asked to.\<close>

definition settled :: "nat \<Rightarrow> nat \<Rightarrow> startup \<Rightarrow> bool" where
  "settled n l s \<longleftrightarrow> start_inv n True s \<and> \<not> aborted s \<and> launched s = n \<and> entering s = 0 \<and> main_at s \<noteq> Spinning \<and> lost s = l"

lemma serving_settles: "serving n l s \<Longrightarrow> \<exists>s'. (start_step n True)\<^sup>*\<^sup>* s s' \<and> settled n l s'"
proof (induction "before_end n s" arbitrary: s rule: less_induct)
  case less
  show ?case
  proof (cases "before_end n s = 0")
    case True
    note sv = less.prems[unfolded serving_def start_inv_def]
    have "main_at s = Joining" using True sv by (cases "main_at s") (auto simp: before_end_def)
    then have "settled n l s" using True less.prems sv by (simp add: settled_def serving_def before_end_def)
    then show ?thesis by blast
  next
    case False
    from serving_step[OF less.prems False] obtain s1 where s1: "start_step n True s s1" "serving n l s1" "before_end n s1 < before_end n s" by blast
    from less.hyps[OF s1(3,2)] s1(1) show ?thesis by (meson converse_rtranclp_into_rtranclp)
  qed
qed

fun end_left :: "main_pc \<Rightarrow> nat" where
  "end_left (Launching k) = 3"
| "end_left Joining = 2"
| "end_left Waiting = 1"
| "end_left _ = 0"

definition to_the_end :: "startup \<Rightarrow> nat" where
  "to_the_end s = end_left (main_at s) + running s + (if server_at s = Ended then 0 else 1) + (if stop_flag s then 0 else 1)"

lemma settled_step:
  assumes st: "settled n l s" and "main_at s \<noteq> Returned"
  shows "\<exists>s'. start_step n True s s' \<and> settled n l s' \<and> to_the_end s' < to_the_end s"
proof -
  have go: ?thesis if "thread_step n True s s'" "\<not> aborted s'" "launched s' = n" "entering s' = 0" "main_at s' \<noteq> Spinning" "lost s' = l"
      "to_the_end s' < to_the_end s" for s'
    using that st start_inv_step[of n True s s'] by (intro exI[of _ s']) (simp add: settled_def start_step_def)
  note sd = st[unfolded settled_def start_inv_def]
  have pc: "main_at s = Launching 0 \<or> main_at s = Joining \<or> main_at s = Waiting"
    using sd assms(2) by (cases "main_at s") auto
  have srv: "server_at s = Serving" if "server_at s \<noteq> Ended" using that sd by (cases "server_at s") auto
  show ?thesis
  proof (cases "stop_flag s \<and> server_at s = Ended \<and> running s = 0")
    case True
    from pc show ?thesis
    proof (elim disjE)
      assume "main_at s = Launching 0"
      then show ?thesis by (intro go[OF main_launched]) (use sd in \<open>simp_all add: to_the_end_def\<close>)
    next
      assume "main_at s = Joining"
      then show ?thesis by (intro go[OF main_joins]) (use sd True in \<open>simp_all add: to_the_end_def\<close>)
    next
      assume "main_at s = Waiting"
      then show ?thesis by (intro go[OF main_returns]) (use sd True in \<open>simp_all add: to_the_end_def\<close>)
    qed
  next
    case False
    then consider "\<not> stop_flag s" | "stop_flag s" "server_at s \<noteq> Ended" | "stop_flag s" "0 < running s" by auto
    then show ?thesis
    proof cases
      case 1
      then show ?thesis by (intro go[OF ctrl_c]) (use sd in \<open>simp_all add: to_the_end_def shutdown_def\<close>)
    next
      case 2
      then show ?thesis by (intro go[OF server_stops]) (use sd srv in \<open>simp_all add: to_the_end_def should_stop_def\<close>)
    next
      case 3
      then show ?thesis by (intro go[OF worker_stops]) (use sd in \<open>simp_all add: to_the_end_def should_stop_def\<close>)
    qed
  qed
qed

lemma settled_ends:
  "settled n l s \<Longrightarrow> \<exists>s'. (start_step n True)\<^sup>*\<^sup>* s s' \<and> main_at s' = Returned \<and> lost s' = l"
proof (induction "to_the_end s" arbitrary: s rule: less_induct)
  case less
  show ?case
  proof (cases "main_at s = Returned")
    case True
    then show ?thesis using less.prems by (auto simp: settled_def)
  next
    case False
    from settled_step[OF less.prems False] obtain s1 where s1: "start_step n True s s1" "settled n l s1" "to_the_end s1 < to_the_end s" by blast
    from less.hyps[OF s1(3,2)] obtain s2 where "(start_step n True)\<^sup>*\<^sup>* s1 s2" "main_at s2 = Returned" "lost s2 = l" by blast
    with s1(1) show ?thesis by (intro exI[of _ s2]) (simp add: converse_rtranclp_into_rtranclp)
  qed
qed

lemma can_return:
  assumes inv: "start_inv n True s" and "\<not> aborted s" and "server_at s \<noteq> Ended \<or> entering s = 0 \<and> launched s = n \<and> main_at s \<noteq> Spinning"
  shows "\<exists>s'. (start_step n True)\<^sup>*\<^sup>* s s' \<and> main_at s' = Returned \<and> lost s' = lost s"
proof -
  have "\<exists>s1. (start_step n True)\<^sup>*\<^sup>* s s1 \<and> settled n (lost s) s1"
  proof (cases "server_at s = Ended")
    case True
    then have "settled n (lost s) s" using assms by (simp add: settled_def)
    then show ?thesis by blast
  next
    case False
    then show ?thesis using serving_settles[of n "lost s" s] assms by (simp add: serving_def)
  qed
  then obtain s1 where s1: "(start_step n True)\<^sup>*\<^sup>* s s1" "settled n (lost s) s1" by blast
  from settled_ends[OF s1(2)] s1(1) show ?thesis by (meson rtranclp_trans)
qed

text \<open>A worker that has not entered when the server ends never will.\<close>

lemma stranded_step: "thread_step n ready s s' \<Longrightarrow> server_at s = Ended \<and> 0 < entering s \<Longrightarrow> server_at s' = Ended \<and> 0 < entering s'"
  by (induction rule: thread_step.induct) (auto simp: shutdown_def)

lemma stranded_run: "(start_step n ready)\<^sup>*\<^sup>* s s' \<Longrightarrow> server_at s = Ended \<and> 0 < entering s \<Longrightarrow> server_at s' = Ended \<and> 0 < entering s'"
  by (induction rule: rtranclp_induct) (auto simp: start_step_def dest: stranded_step)

text \<open>C6. The start and the end of a process with n workers, for every interleaving of its threads.  No worker is
  launched before the control server listens.  \<^verbatim>\<open>run\<close> returns only after all launches were made and every worker there is has ended
  and the server has ended, and, when at least one launch succeeded, only when a stop was asked for.  As long as the server has not ended (and no worker
  has failed), and also afterwards if no worker is still to be launched or waiting to enter, the process can still get there, without a
  launch failing.  But a worker that has not got its thread id when the server ends makes that impossible: all that is left
  to it is to panic, which aborts the process.  When the server cannot be set up, the main thread waits for ever without
  launching anything, and Ctrl-C does not end it: the error of the server is lost.\<close>

theorem startup_waits:
  assumes "(start_step n (setup_ok poll_new bind register))\<^sup>*\<^sup>* startup_init s"
  shows "(0 < launched s \<longrightarrow> up_flag s \<and> setup_ok poll_new bind register) \<and>
     (main_at s = Returned \<longrightarrow> launched s = n \<and> entering s = 0 \<and> running s = 0 \<and> server_at s = Ended \<and> (lost s < n \<longrightarrow> stop_flag s)) \<and>
     (server_at s = Ended \<and> 0 < entering s \<longrightarrow>
        (\<forall>s'. (start_step n (setup_ok poll_new bind register))\<^sup>*\<^sup>* s s' \<longrightarrow> main_at s' \<noteq> Returned)) \<and>
     (if setup_ok poll_new bind register
      then \<not> aborted s \<and> (server_at s \<noteq> Ended \<or> entering s = 0 \<and> launched s = n \<and> main_at s \<noteq> Spinning) \<longrightarrow>
        (\<exists>s'. (start_step n (setup_ok poll_new bind register))\<^sup>*\<^sup>* s s' \<and> main_at s' = Returned \<and> lost s' = lost s)
      else main_at s = Spinning \<and> launched s = 0 \<and> \<not> aborted s)"
proof (intro conjI)
  let ?ready = "setup_ok poll_new bind register"
  have inv: "start_inv n ?ready s" by (rule start_inv_run[OF assms])
  then show "0 < launched s \<longrightarrow> up_flag s \<and> ?ready" by (cases "main_at s") (auto simp: start_inv_def)
  from inv show "main_at s = Returned \<longrightarrow> launched s = n \<and> entering s = 0 \<and> running s = 0 \<and> server_at s = Ended \<and> (lost s < n \<longrightarrow> stop_flag s)"
    by (auto simp: start_inv_def)
  have "main_at s' \<noteq> Returned" if "server_at s = Ended \<and> 0 < entering s" "(start_step n ?ready)\<^sup>*\<^sup>* s s'" for s'
  proof -
    have "(start_step n ?ready)\<^sup>*\<^sup>* startup_init s'" using assms that(2) by (rule rtranclp_trans)
    from start_inv_run[OF this] stranded_run[OF that(2,1)] show ?thesis by (auto simp: start_inv_def)
  qed
  then show "server_at s = Ended \<and> 0 < entering s \<longrightarrow> (\<forall>s'. (start_step n ?ready)\<^sup>*\<^sup>* s s' \<longrightarrow> main_at s' \<noteq> Returned)" by blast
  show "if ?ready then \<not> aborted s \<and> (server_at s \<noteq> Ended \<or> entering s = 0 \<and> launched s = n \<and> main_at s \<noteq> Spinning) \<longrightarrow>
        (\<exists>s'. (start_step n ?ready)\<^sup>*\<^sup>* s s' \<and> main_at s' = Returned \<and> lost s' = lost s)
      else main_at s = Spinning \<and> launched s = 0 \<and> \<not> aborted s"
  proof (cases ?ready)
    case True
    then show ?thesis using can_return[of n s] inv by simp
  next
    case False
    with inv have "main_at s = Spinning" "launched_at n (main_at s) (launched s)" "entering s + running s \<le> launched s"
      "aborted s \<longrightarrow> 0 < entering s + running s" by (auto simp: start_inv_def)
    then show ?thesis using False by auto
  qed
qed

text \<open>One worker, launched; the server stops before it has answered.\<close>

theorem startup_waits_witness:
  "\<exists>s. (start_step 1 True)\<^sup>*\<^sup>* startup_init s \<and> launched s = 1 \<and> server_at s = Ended \<and> (\<forall>s'. (start_step 1 True)\<^sup>*\<^sup>* s s' \<longrightarrow> main_at s' \<noteq> Returned)"
proof -
  let ?s1 = "startup_init\<lparr>server_at := Serving, up_flag := True\<rparr>"
  let ?s2 = "?s1\<lparr>main_at := Launching 1\<rparr>"
  let ?s3 = "?s2\<lparr>main_at := Launching 0, launched := Suc (launched ?s2), entering := Suc (entering ?s2)\<rparr>"
  let ?s4 = "?s3\<lparr>server_at := Ended\<rparr>"
  have "start_step 1 True startup_init ?s1" unfolding start_step_def by (intro conjI server_up) (simp_all add: startup_init_def)
  moreover have "start_step 1 True ?s1 ?s2" unfolding start_step_def by (intro conjI main_goes) (simp_all add: startup_init_def)
  moreover have "start_step 1 True ?s2 ?s3" unfolding start_step_def by (intro conjI main_launches) (simp_all add: startup_init_def)
  moreover have "start_step 1 True ?s3 ?s4" unfolding start_step_def by (intro conjI server_error) (simp_all add: startup_init_def)
  ultimately have run: "(start_step 1 True)\<^sup>*\<^sup>* startup_init ?s4"
    by (meson converse_rtranclp_into_rtranclp rtranclp.rtrancl_refl)
  have ready: "setup_ok (Ok ()) (Ok ()) (Ok ())" by (simp add: setup_ok_def)
  from startup_waits[of 1 "Ok ()" "Ok ()" "Ok ()" ?s4] run ready
  have "\<forall>s'. (start_step 1 True)\<^sup>*\<^sup>* ?s4 s' \<longrightarrow> main_at s' \<noteq> Returned" by simp
  with run show ?thesis by (intro exI[of _ ?s4]) (simp add: startup_init_def)
qed

end
