(* ===== verification/Derive.thy ===== *)
theory Derive
  imports Omni_Prelude
begin

text \<open>
  The derive macros of \<^verbatim>\<open>omnistack-proc\<close>: the tokens they put beside a struct of the given name.  The lookup of the
  crate in the manifest is the parameter \<open>crate_name\<close>; what \<^verbatim>\<open>paste!\<close> and \<^verbatim>\<open>#[constructor]\<close> make of the tokens is the
  registration of \<open>Registry\<close>.
\<close>

datatype found_crate = Itself | Name string

type_synonym tokens = "string list"

definition import_crate :: "(string \<Rightarrow> found_crate option) \<Rightarrow> string \<Rightarrow> tokens outcome" where
  "import_crate crate_name name =
     andthen (unwrap (crate_name name)) (\<lambda>found. case found of
       Itself \<Rightarrow> Done [''crate'']
     | Name ident \<Rightarrow> Done [''::'', ident])"

definition register_module_derive :: "(string \<Rightarrow> found_crate option) \<Rightarrow> string \<Rightarrow> tokens outcome" where
  "register_module_derive crate_name struct_name =
     andthen (import_crate crate_name ''omnistack-core'') (\<lambda>my_crate. Done (
       my_crate @ [''::'', ''paste'', ''!'', ''{''] @
         [''mod'', ''['', ''<'', ''__priv_'', struct_name, '':'', ''lower'', ''>'', '']'', ''{''] @
           [''#'', ''!'', ''['', ''allow'', ''('', ''non_upper_case_globals'', '')'', '']''] @
           [''use'', ''super'', ''::'', struct_name, '';''] @
           [''#'', ''[''] @ my_crate @ [''::'', ''constructor'', '']''] @
           [''extern'', ''\"C\"'', ''fn'', ''['', ''<'', struct_name, '':'', ''lower'', ''>'', '']'', ''('', '')'', ''{''] @
             my_crate @ [''::'', ''module'', ''::'', ''register'', ''(''] @
               [''stringify'', ''!'', ''('', struct_name, '')'', '','', struct_name, ''::'', ''new'', '')''] @
           [''}''] @
         [''}''] @
       [''}'']))"

definition register_adapter_derive :: "(string \<Rightarrow> found_crate option) \<Rightarrow> string \<Rightarrow> tokens outcome" where
  "register_adapter_derive crate_name struct_name =
     andthen (import_crate crate_name ''omnistack-core'') (\<lambda>my_crate. Done (
       my_crate @ [''::'', ''paste'', ''!'', ''{''] @
         [''mod'', ''['', ''<'', ''__priv_'', struct_name, '':'', ''lower'', ''>'', '']'', ''{''] @
           [''#'', ''!'', ''['', ''allow'', ''('', ''non_upper_case_globals'', '')'', '']''] @
           [''use'', ''super'', ''::'', struct_name, '';''] @
           [''#'', ''[''] @ my_crate @ [''::'', ''constructor'', '']''] @
           [''extern'', ''\"C\"'', ''fn'', ''['', ''<'', struct_name, '':'', ''lower'', ''>'', '']'', ''('', '')'', ''{''] @
             my_crate @ [''::'', ''nio'', ''::'', ''register'', ''(''] @
               [''stringify'', ''!'', ''('', struct_name, '')'', '','', struct_name, ''::'', ''new'', '')''] @
           [''}''] @
         [''}''] @
       [''}'']))"

section \<open>The tokens are well bracketed\<close>

text \<open>The brackets that are open after the tokens, or \<open>None\<close> when one closes that was not opened.\<close>

fun open_brackets :: "tokens \<Rightarrow> tokens \<Rightarrow> tokens option" where
  "open_brackets st [] = Some st"
| "open_brackets st (tk # tks) =
     (if tk = ''{'' then open_brackets (''}'' # st) tks
      else if tk = ''('' then open_brackets ('')'' # st) tks
      else if tk = ''['' then open_brackets ('']'' # st) tks
      else if tk \<in> {''}'', '')'', '']''} then
        (case st of [] \<Rightarrow> None | b # st' \<Rightarrow> if b = tk then open_brackets st' tks else None)
      else open_brackets st tks)"

definition is_ident :: "string \<Rightarrow> bool" where
  "is_ident tk \<longleftrightarrow> tk \<notin> {''{'', ''('', ''['', ''}'', '')'', '']''}"

lemma derive_balanced:
  assumes "crate_name ''omnistack-core'' = Some found" and "\<forall>n. found = Name n \<longrightarrow> is_ident n" and "is_ident struct_name"
  shows "\<exists>m a. register_module_derive crate_name struct_name = Done m \<and> register_adapter_derive crate_name struct_name = Done a \<and>
    open_brackets [] m = Some [] \<and> open_brackets [] a = Some []"
  using assms
  by (cases found) (simp_all add: register_module_derive_def register_adapter_derive_def import_crate_def is_ident_def unwrap_def)

lemma derive_panics:
  "crate_name ''omnistack-core'' = None \<Longrightarrow>
     register_module_derive crate_name struct_name = Panic \<and> register_adapter_derive crate_name struct_name = Panic"
  by (simp add: register_module_derive_def register_adapter_derive_def import_crate_def unwrap_def)

end
