(* ===== verification/Build_Text.thy ===== *)
theory Build_Text
  imports Protocol "HOL-Library.Char_ord" "HOL-Library.List_Lexorder" "HOL-Library.Product_Lexorder"
    "HOL-Library.Multiset" "HOL-Library.Sublist"
begin

text \<open>
  What the build script of the DPDK crate uses of Rust's standard library: strings, paths and sorted
  vectors.  A \<open>string\<close> is its bytes.  The patterns that the script searches for, splits at or trims are ASCII, so
  on valid UTF-8 the functions on bytes agree with those on characters.  A path is the list of its
  components, which is what \<^verbatim>\<open>PathBuf\<close> compares and orders by; all paths of the script are absolute.
\<close>

named_theorems text_simps \<open>evaluation of the string functions on known shapes\<close>

section \<open>Strings\<close>

abbreviation newline :: string where
  "newline \<equiv> [CHR 0x0A]"

abbreviation tab :: string where
  "tab \<equiv> [CHR 0x09]"

definition byte :: "char \<Rightarrow> nat" where
  "byte c = of_char c"

definition utf8_cont :: "char \<Rightarrow> bool" where
  "utf8_cont c \<longleftrightarrow> 128 \<le> byte c \<and> byte c \<le> 191"

text \<open>\<^verbatim>\<open>str::from_utf8\<close>: the well-formed byte sequences of Unicode (no overlong forms, no surrogates).\<close>

fun is_utf8 :: "string \<Rightarrow> bool" where
  "is_utf8 [] \<longleftrightarrow> True"
| "is_utf8 (a # s) \<longleftrightarrow>
     (if byte a < 128 then is_utf8 s
      else if 194 \<le> byte a \<and> byte a \<le> 223 then
        (case s of b # t \<Rightarrow> utf8_cont b \<and> is_utf8 t | _ \<Rightarrow> False)
      else if 224 \<le> byte a \<and> byte a \<le> 239 then
        (case s of b # c # t \<Rightarrow>
           utf8_cont b \<and> utf8_cont c \<and> (byte a = 224 \<longrightarrow> 160 \<le> byte b) \<and> (byte a = 237 \<longrightarrow> byte b \<le> 159) \<and>
           is_utf8 t
         | _ \<Rightarrow> False)
      else if 240 \<le> byte a \<and> byte a \<le> 244 then
        (case s of b # c # d # t \<Rightarrow>
           utf8_cont b \<and> utf8_cont c \<and> utf8_cont d \<and> (byte a = 240 \<longrightarrow> 144 \<le> byte b) \<and>
           (byte a = 244 \<longrightarrow> byte b \<le> 143) \<and> is_utf8 t
         | _ \<Rightarrow> False)
      else False)"

text \<open>\<^verbatim>\<open>OsStr::to_str().unwrap()\<close> and \<^verbatim>\<open>String::from_utf8(..).unwrap()\<close>.\<close>

definition to_str :: "string \<Rightarrow> string outcome" where
  "to_str s = (if is_utf8 s then Done s else Panic)"

definition starts_with :: "string \<Rightarrow> string \<Rightarrow> bool" where
  "starts_with s p \<longleftrightarrow> prefix p s"

definition ends_with :: "string \<Rightarrow> string \<Rightarrow> bool" where
  "ends_with s p \<longleftrightarrow> suffix p s"

text \<open>\<^verbatim>\<open>str::replace\<close>: from the left, non-overlapping, inserted text is not looked at again.\<close>

function replace_str :: "string \<Rightarrow> string \<Rightarrow> string \<Rightarrow> string" where
  "replace_str pat rep [] = (if pat = [] then rep else [])"
| "replace_str pat rep (c # s) =
     (if pat = [] then rep @ c # replace_str pat rep s
      else if prefix pat (c # s) then rep @ replace_str pat rep (drop (length pat) (c # s))
      else c # replace_str pat rep s)"
  by pat_completeness auto

termination
  by (relation "measure (\<lambda>(_, _, s). length s)") auto

fun join_with :: "string \<Rightarrow> string list \<Rightarrow> string" where
  "join_with sep [] = []"
| "join_with sep [x] = x"
| "join_with sep (x # y # xs) = x @ sep @ join_with sep (y # xs)"

definition trim_matches :: "(char \<Rightarrow> bool) \<Rightarrow> string \<Rightarrow> string" where
  "trim_matches P s = rev (dropWhile P (rev (dropWhile P s)))"

function trim_start_matches :: "string \<Rightarrow> string \<Rightarrow> string" where
  "trim_start_matches pat s =
     (if pat \<noteq> [] \<and> prefix pat s then trim_start_matches pat (drop (length pat) s) else s)"
  by pat_completeness auto

termination
  by (relation "measure (\<lambda>(_, s). length s)") (auto simp: prefix_def)

declare trim_start_matches.simps [simp del]

text \<open>\<^verbatim>\<open>str::trim\<close> removes Unicode white space; \<open>white_space\<close> lists its characters in UTF-8.\<close>

definition white_space :: "string list" where
  "white_space = map (map char_of)
     ([[9], [10], [11], [12], [13], [32], [194, 133], [194, 160], [225, 154, 128]] @
      map (\<lambda>n. [226, 128, 128 + n]) [0..<11] @
      [[226, 128, 168], [226, 128, 169], [226, 128, 175], [226, 129, 159], [227, 128, 128 :: nat]])"

function strip_front :: "string list \<Rightarrow> string \<Rightarrow> string" where
  "strip_front ws s =
     (case List.find (\<lambda>w. w \<noteq> [] \<and> prefix w s) ws of
        None \<Rightarrow> s
      | Some w \<Rightarrow> strip_front ws (drop (length w) s))"
  by pat_completeness auto

termination
  by (relation "measure (\<lambda>(_, s). length s)") (auto dest!: find_Some_set simp: prefix_def)

declare strip_front.simps [simp del]

definition trim :: "string \<Rightarrow> string" where
  "trim s = rev (strip_front (map rev white_space) (rev (strip_front white_space s)))"

text \<open>\<^verbatim>\<open>str::lines\<close>: a line ends with a newline, a carriage return before it is dropped as well.\<close>

definition strip_cr :: "string \<Rightarrow> string" where
  "strip_cr l = (if l \<noteq> [] \<and> last l = CHR 0x0D then butlast l else l)"

definition lines :: "string \<Rightarrow> string list" where
  "lines s = (let ls = split_on (CHR 0x0A) s
     in map strip_cr (butlast ls) @ (if last ls = [] then [] else [last ls]))"

definition parse_u64 :: "string \<Rightarrow> u64 option" where
  "parse_u64 s =
     (let ds = (case s of c # cs \<Rightarrow> if c = CHR ''+'' then cs else s | [] \<Rightarrow> s)
      in if ds \<noteq> [] \<and> list_all is_digit ds \<and> dec_value ds < 2 ^ 64
         then Some (of_nat (dec_value ds)) else None)"

definition to_ascii_uppercase :: "string \<Rightarrow> string" where
  "to_ascii_uppercase s =
     map (\<lambda>c. if 97 \<le> byte c \<and> byte c \<le> 122 then char_of (byte c - 32) else c) s"

section \<open>Vectors\<close>

text \<open>\<^verbatim>\<open>v.sort(); v.dedup();\<close>\<close>

definition sort_dedup :: "'a::linorder list \<Rightarrow> 'a list" where
  "sort_dedup xs = remdups_adj (sort xs)"

text \<open>A loop that pushes what each element gives; it stops at the first panic.\<close>

fun collect :: "('a \<Rightarrow> 'b list outcome) \<Rightarrow> 'a list \<Rightarrow> 'b list outcome" where
  "collect f [] = Done []"
| "collect f (x # xs) = andthen (f x) (\<lambda>ys. andthen (collect f xs) (\<lambda>zs. Done (ys @ zs)))"

text \<open>The elements whose key has not occurred before.\<close>

fun first_by :: "('a \<Rightarrow> 'b) \<Rightarrow> 'a list \<Rightarrow> 'a list" where
  "first_by f [] = []"
| "first_by f (x # xs) = x # filter (\<lambda>y. f y \<noteq> f x) (first_by f xs)"

section \<open>Paths\<close>

type_synonym path = "string list"

definition path_of_str :: "string \<Rightarrow> path" where
  "path_of_str s = filter (\<lambda>c. c \<noteq> [] \<and> c \<noteq> ''.'') (split_on CHR ''/'' s)"

definition path_str :: "path \<Rightarrow> string" where
  "path_str p = ''/'' @ join_with ''/'' p"

definition file_name :: "path \<Rightarrow> string option" where
  "file_name p = (if p = [] \<or> last p = ''..'' then None else Some (last p))"

text \<open>The name split at its last dot, unless there is none or only a leading one.\<close>

definition split_dot :: "string \<Rightarrow> string \<times> string option" where
  "split_dot n =
     (let e = takeWhile (\<lambda>c. c \<noteq> CHR ''.'') (rev n); r = dropWhile (\<lambda>c. c \<noteq> CHR ''.'') (rev n)
      in if r = [] \<or> tl r = [] then (n, None) else (rev (tl r), Some (rev e)))"

definition file_stem :: "path \<Rightarrow> string option" where
  "file_stem p = map_option (fst \<circ> split_dot) (file_name p)"

definition extension :: "path \<Rightarrow> string option" where
  "extension p = Option.bind (file_name p) (snd \<circ> split_dot)"

section \<open>Lemmas\<close>

lemma to_str_eq [simp]: "to_str s = Done t \<longleftrightarrow> is_utf8 s \<and> t = s" "to_str s = Panic \<longleftrightarrow> \<not> is_utf8 s"
  by (auto simp: to_str_def)

lemma to_str_utf8 [exec_simps]: "is_utf8 s \<Longrightarrow> to_str s = Done s"
  by simp

lemma ascii_utf8: "list_all (\<lambda>c. byte c < 128) s \<Longrightarrow> is_utf8 s"
  by (induction s) auto

lemma is_utf8_append: "is_utf8 s \<Longrightarrow> is_utf8 t \<Longrightarrow> is_utf8 (s @ t)"
proof (induction s rule: is_utf8.induct)
  case (2 a s)
  show ?case
  proof (cases "byte a < 128")
    case True
    with 2 show ?thesis by simp
  next
    case False
    then obtain b s1 where s: "s = b # s1" using "2.prems" by (auto split: list.splits if_splits)
    show ?thesis
    proof (cases "byte a \<le> 223")
      case True
      with False 2 s show ?thesis by (simp split: if_splits)
    next
      case big: False
      then obtain c s2 where s1: "s1 = c # s2" using False "2.prems" s by (auto split: list.splits if_splits)
      show ?thesis
      proof (cases "byte a \<le> 239")
        case True
        with False big 2 s s1 show ?thesis by (simp split: if_splits)
      next
        case huge: False
        then obtain d s3 where "s2 = d # s3" using False big "2.prems" s s1 by (auto split: list.splits if_splits)
        with False big huge 2 s s1 show ?thesis by (simp split: if_splits)
      qed
    qed
  qed
qed simp

lemma sorted_remdups_adj_distinct: "sorted xs \<Longrightarrow> distinct (remdups_adj xs)"
proof (induction xs rule: remdups_adj.induct)
  case (3 x y xs)
  then have "x \<noteq> y \<Longrightarrow> x \<notin> set (y # xs)" by auto
  with 3 show ?case by auto
qed auto

lemma sort_dedup_set [simp]: "set (sort_dedup xs) = set xs"
  by (simp add: sort_dedup_def)

lemma sort_dedup_sorted [simp]: "sorted (sort_dedup xs)" "distinct (sort_dedup xs)"
  by (simp_all add: sort_dedup_def sorted_remdups_adj sorted_remdups_adj_distinct)

lemma sort_dedup_eq: "sort_dedup xs = sorted_list_of_set (set xs)"
  by (rule sorted_distinct_set_unique) simp_all

lemma sort_dedup_cong: "set xs = set ys \<Longrightarrow> sort_dedup xs = sort_dedup ys"
  by (simp add: sort_dedup_eq)

lemma sort_dedup_Nil [simp]: "sort_dedup xs = [] \<longleftrightarrow> xs = []"
  using sort_dedup_set[of xs] by (metis set_empty)

lemma collect_Done: "(\<And>x. x \<in> set xs \<Longrightarrow> f x = Done (g x)) \<Longrightarrow> collect f xs = Done (concat (map g xs))"
  by (induction xs) simp_all

lemma collect_set:
  assumes "\<And>x. x \<in> set xs \<Longrightarrow> \<exists>ys. f x = Done ys \<and> set ys = G x"
  shows "\<exists>ys. collect f xs = Done ys \<and> set ys = (\<Union>x\<in>set xs. G x)"
  using assms
proof (induction xs)
  case (Cons x xs)
  obtain ys where "f x = Done ys" "set ys = G x" using Cons.prems by auto
  moreover obtain zs where "collect f xs = Done zs" "set zs = (\<Union>x\<in>set xs. G x)"
    using Cons by auto
  ultimately show ?case by simp
qed simp

lemma collect_not_Undef: "(\<And>x. f x \<noteq> Undef) \<Longrightarrow> collect f xs \<noteq> Undef"
  by (induction xs) simp_all

lemma concat_map_if: "concat (map (\<lambda>x. if P x then [f x] else []) xs) = map f (filter P xs)"
  by (induction xs) simp_all

lemma image_filter_neq: "f ` {y \<in> A. f y \<noteq> c} = f ` A - {c}"
  by auto

lemma set_first_by: "set (first_by f xs) \<subseteq> set xs" "f ` set (first_by f xs) = f ` set xs"
  by (induction xs) (auto simp: image_filter_neq)

lemma distinct_first_by: "distinct (map f (first_by f xs))"
  by (induction xs) (auto simp: distinct_map inj_on_def distinct_filter)

lemma first_by_append:
  "first_by f (xs @ ys) = first_by f xs @ filter (\<lambda>y. f y \<notin> f ` set xs) (first_by f ys)"
  by (induction xs) (auto intro: filter_cong)

lemma first_by_snoc: "first_by f (xs @ [x]) = first_by f xs @ (if f x \<in> f ` set xs then [] else [x])"
  by (simp add: first_by_append)

lemma replace_skip [text_simps]:
  "pat \<noteq> [] \<Longrightarrow> hd pat \<notin> set pre \<Longrightarrow> replace_str pat rep (pre @ s) = pre @ replace_str pat rep s"
  by (induction pre) (auto simp: neq_Nil_conv)

lemma replace_hit [text_simps]:
  "pat \<noteq> [] \<Longrightarrow> replace_str pat rep (pat @ s) = rep @ replace_str pat rep s"
  by (cases pat) auto

lemma replace_none [text_simps]: "pat \<noteq> [] \<Longrightarrow> hd pat \<notin> set s \<Longrightarrow> replace_str pat rep s = s"
  using replace_skip[of pat s rep "[]"] by simp

lemma replace_absent: "pat \<noteq> [] \<Longrightarrow> \<not> sublist pat s \<Longrightarrow> replace_str pat rep s = s"
  by (induction s) (auto simp: sublist_Cons_right)

lemma replace_char: "replace_str [c] rep s = concat (map (\<lambda>x. if x = c then rep else [x]) s)"
  by (induction s) auto

lemma set_join: "set (join_with sep xs) \<subseteq> set sep \<union> \<Union> (set ` set xs)"
  by (induction sep xs rule: join_with.induct) auto

lemma split_dot_ext: "n \<noteq> [] \<Longrightarrow> CHR ''.'' \<notin> set e \<Longrightarrow> split_dot (n @ ''.'' @ e) = (n, Some e)"
proof -
  assume n: "n \<noteq> []" and e: "CHR ''.'' \<notin> set e"
  have "takeWhile (\<lambda>c. c \<noteq> CHR ''.'') (rev (n @ ''.'' @ e)) = rev e"
    "dropWhile (\<lambda>c. c \<noteq> CHR ''.'') (rev (n @ ''.'' @ e)) = CHR ''.'' # rev n"
    using e by (auto simp: takeWhile_append dropWhile_append)
  with n show ?thesis unfolding split_dot_def by (simp only: Let_def) simp
qed

lemma split_dot_Some: "split_dot n = (m, Some e) \<Longrightarrow> n = m @ ''.'' @ e \<and> CHR ''.'' \<notin> set e"
proof -
  assume s: "split_dot n = (m, Some e)"
  let ?P = "\<lambda>c. c \<noteq> CHR ''.''"
  obtain c r where r: "dropWhile ?P (rev n) = c # r" and m: "m = rev r"
    and e: "e = rev (takeWhile ?P (rev n))"
    using s by (cases "dropWhile ?P (rev n)") (auto simp: split_dot_def Let_def split: if_splits)
  have "c = CHR ''.''" using hd_dropWhile[of ?P "rev n"] r by simp
  then have "rev n = takeWhile ?P (rev n) @ CHR ''.'' # r"
    using takeWhile_dropWhile_id[of ?P "rev n"] r by simp
  then have "n = rev r @ ''.'' @ rev (takeWhile ?P (rev n))"
    by (metis append_Cons append_Nil append_assoc rev.simps(2) rev_append rev_rev_ident)
  with m e show ?thesis using set_takeWhileD[of _ ?P "rev n"] by auto
qed

lemma file_name_snoc [simp]: "file_name (d @ [n]) = (if n = ''..'' then None else Some n)"
  by (simp add: file_name_def)

lemma stem_ext:
  assumes "extension (d @ [n]) = Some e"
  shows "file_name (d @ [n]) = Some n" "file_stem (d @ [n]) = Some (fst (split_dot n))"
    "n = fst (split_dot n) @ ''.'' @ e" "CHR ''.'' \<notin> set e"
  using assms split_dot_Some[of n "fst (split_dot n)" e]
  by (auto simp: extension_def file_stem_def prod_eq_iff split: if_splits)

end
