(* ===== verification/Build_Headers.thy ===== *)
theory Build_Headers
  imports Build_Text
begin

text \<open>
  The build script of the DPDK crate (\<^verbatim>\<open>rust-dpdk-sys/build.rs\<close>), first part: its state, the host it runs on, the
  search for DPDK and its libraries, and the header that includes all others.

  \<open>bworld\<close> is what the script changes outside itself: the files, and the lines it prints for cargo.  \<open>host\<close> is what
  it only asks: the environment, directory listings (in the order of the operating system, with
  entries that could not be read), the programs it runs, libclang, the C compiler, the crates
  \<^verbatim>\<open>regex\<close>, \<^verbatim>\<open>bindgen\<close>, \<^verbatim>\<open>cc\<close> and \<^verbatim>\<open>num_cpus\<close>, the iteration order of a \<^verbatim>\<open>HashMap\<close> and the scheduling of the threads.
\<close>

section \<open>The world\<close>

datatype fnode = FileNode string | DirNode

type_synonym fs = "path \<Rightarrow> fnode option"

record bworld =
  files :: fs
  cargo_out :: "string list"

definition println :: "string \<Rightarrow> bworld \<Rightarrow> bworld" where
  "println s w = w\<lparr>cargo_out := cargo_out w @ [s]\<rparr>"

definition is_file :: "fs \<Rightarrow> path \<Rightarrow> bool" where
  "is_file f p = (case f p of Some (FileNode _) \<Rightarrow> True | _ \<Rightarrow> False)"

section \<open>libclang\<close>

text \<open>The types of C as far as the script looks at them: each has a display name, arrays an element type.\<close>

datatype ctype =
    ConstantArray (display_name: string) ctype nat
  | IncompleteArray (display_name: string) ctype
  | VariableArray (display_name: string)
  | DependentSizedArray (display_name: string)
  | OtherType (display_name: string)

datatype storage_class = Static | OtherStorage

datatype entity_kind = FunctionDecl | MacroDefinition | OtherKind

record carg =
  arg_display_name :: "string option"
  arg_type :: "ctype option"

record entity =
  e_kind :: entity_kind
  e_name :: "string option"
  e_storage :: "storage_class option"
  e_result_type :: "ctype option"
  e_is_declaration :: bool
  e_is_inline :: bool
  e_comment :: "string option"
  e_arguments :: "carg list option"
  e_is_builtin :: bool
  e_is_function_like :: bool

text \<open>What running the compiler gives: it could not be started, it failed, or it wrote a program.\<close>

datatype cc_result = CcNotRun | CcFailed | CcOk string

datatype cc_option = CcFile path | CcStaticFlag bool | CcSharedFlag bool | CcOptLevel nat | CcInclude path | CcFlag string

record host =
  env_var :: "string \<Rightarrow> string option"
  current_dir :: "path option"
  canonicalize :: "string \<Rightarrow> path option"
  read_dir :: "path \<Rightarrow> string option list option"
  bash_stdout :: "string \<Rightarrow> string option"
  dumpmachine :: "string option"
  can_create :: "path \<Rightarrow> bool"
  disk_write :: "path \<Rightarrow> string \<Rightarrow> string"
  clang_available :: bool
  clang_parse :: "fs \<Rightarrow> path \<Rightarrow> bool \<Rightarrow> string list \<Rightarrow> (nat \<times> entity list) option"
  hash_order :: "nat \<Rightarrow> (string \<times> string) list \<Rightarrow> (string \<times> string) list"
  re_is_match :: "string \<Rightarrow> string \<Rightarrow> bool"
  re_captures :: "string \<Rightarrow> string \<Rightarrow> string option"
  cc_path :: "string option"
  cc_run :: "fs \<Rightarrow> string list \<Rightarrow> cc_result"
  exec_program :: "string \<Rightarrow> string option"
  num_cpus :: nat
  worker_of :: "nat \<Rightarrow> nat"
  start_millis :: nat
  compile_seconds :: string
  bindgen :: "fs \<Rightarrow> string \<Rightarrow> string list \<Rightarrow> string list \<Rightarrow> string option"
  cc_compile :: "fs \<Rightarrow> cc_option list \<Rightarrow> string \<Rightarrow> string list option"

text \<open>\<^verbatim>\<open>File::open(p).unwrap()\<close> and \<^verbatim>\<open>read_to_string(..).ok()\<close>: a text that is not UTF-8, or a directory, is read as the
  empty string; \<^verbatim>\<open>File::create(p).unwrap()\<close> and \<^verbatim>\<open>write_fmt(..).ok()\<close>: the file holds what reached the disk.\<close>

definition read_template :: "path \<Rightarrow> bworld \<Rightarrow> string outcome" where
  "read_template p w =
     (case files w p of
        None \<Rightarrow> Panic
      | Some DirNode \<Rightarrow> Done []
      | Some (FileNode s) \<Rightarrow> Done (if is_utf8 s then s else []))"

definition write_target :: "host \<Rightarrow> path \<Rightarrow> string \<Rightarrow> bworld \<Rightarrow> bworld outcome" where
  "write_target h p s w =
     (if can_create h p then Done (w\<lparr>files := (files w)(p \<mapsto> FileNode (disk_write h p s))\<rparr>) else Panic)"

section \<open>The state\<close>

record build_state =
  project_path :: path
  out_path :: path
  system_include_path :: "string list"
  include_path :: "path option"
  library_path :: "path option"
  dpdk_headers :: "string list"
  dpdk_links :: "path list"
  dpdk_config :: "path option"
  eal_function_use_defs :: "string list"
  global_eal_function_use_defs :: "string list"
  static_functions :: "string list"
  static_constants :: string

definition PREFIX :: string where
  "PREFIX = ''prefix_8a9f682d_''"

definition strip_comments :: "string \<Rightarrow> string" where
  "strip_comments comment =
     join_with newline
       (map (\<lambda>line. ''/// '' @ line)
         (map (\<lambda>line. replace_str tab ''    ''
                  (trim_matches (\<lambda>c. c = CHR '' '' \<or> c = CHR ''/'' \<or> c = CHR ''*'') line))
           (split_on (CHR 0x0A) comment)))"

definition State_new :: "host \<Rightarrow> build_state outcome" where
  "State_new h =
     andthen (unwrap (current_dir h)) (\<lambda>project.
     andthen (unwrap (env_var h ''OUT_DIR'')) (\<lambda>dir.
     andthen (unwrap (canonicalize h dir)) (\<lambda>out.
     Done \<lparr>project_path = project, out_path = out, system_include_path = [], include_path = None,
       library_path = None, dpdk_headers = [], dpdk_links = [], dpdk_config = None,
       eal_function_use_defs = [], global_eal_function_use_defs = [], static_functions = [],
       static_constants = []\<rparr>)))"

text \<open>The arguments of the parser; the paths are printed with \<^verbatim>\<open>to_str().unwrap()\<close>.\<close>

definition trans_unit_from_header :: "host \<Rightarrow> build_state \<Rightarrow> bworld \<Rightarrow> path \<Rightarrow> bool \<Rightarrow> entity list outcome" where
  "trans_unit_from_header h st w header_path do_macro =
     andthen (unwrap (include_path st)) (\<lambda>inc.
     andthen (to_str (path_str inc)) (\<lambda>inc_str.
     andthen (to_str (path_str (out_path st))) (\<lambda>out_str.
     andthen (unwrap (dpdk_config st)) (\<lambda>cfg.
     andthen (to_str (path_str cfg)) (\<lambda>cfg_str.
     let argument = [''-march=native'', ''-I'' @ inc_str, ''-I'' @ out_str, ''-imacros'', cfg_str] @
           map (\<lambda>p. ''-I'' @ p) (system_include_path st)
     in andthen (unwrap (clang_parse h (files w) header_path do_macro argument)) (\<lambda>(fatal, es).
     if fatal > 0 then Panic else Done es))))))"

definition check_os :: "build_state \<Rightarrow> unit outcome" where
  "check_os st = Done ()"

definition search_command :: string where
  "search_command = ''clang -march=native -Wp,-v -x c - -fsyntax-only < /dev/null 2>&1 | sed -e '' @
     [CHR 0x27] @ ''/^#include <...>/,/^End of search/{ //!b };d'' @ [CHR 0x27]"

definition check_compiler :: "host \<Rightarrow> build_state \<Rightarrow> build_state outcome" where
  "check_compiler h st =
     andthen (unwrap (bash_stdout h search_command)) (\<lambda>output.
     andthen (to_str output) (\<lambda>message.
     Done (st\<lparr>system_include_path := system_include_path st @ map trim (lines message)\<rparr>)))"

definition config_header :: path where
  "config_header = [''usr'', ''local'', ''include'', ''rte_config.h'']"

definition build_config_header :: path where
  "build_config_header = [''usr'', ''local'', ''include'', ''rte_build_config.h'']"

definition print_template :: "path \<Rightarrow> string \<Rightarrow> string list outcome" where
  "print_template dir n =
     (if extension (dir @ [n]) = Some ''template''
      then andthen (to_str (path_str (dir @ [n]))) (\<lambda>s. Done [''cargo:rerun-if-changed='' @ s])
      else Done [])"

definition find_dpdk :: "host \<Rightarrow> build_state \<Rightarrow> bworld \<Rightarrow> (build_state \<times> bworld) outcome" where
  "find_dpdk h st w =
     andthen (unwrap (dumpmachine h)) (\<lambda>output.
     andthen (to_str output) (\<lambda>text.
     let machine_string = trim text in
     if files w config_header \<noteq> None \<and> files w build_config_header \<noteq> None
     then
       let st1 = st\<lparr>include_path := Some [''usr'', ''local'', ''include''],
                    library_path := Some (path_of_str (''/usr/local/lib/'' @ machine_string))\<rparr>;
           gen = project_path st @ [''gen'']
       in andthen (unwrap (read_dir h gen)) (\<lambda>entries.
          andthen (collect (print_template gen) (List.map_filter id entries)) (\<lambda>temps.
          Done (st1\<lparr>dpdk_config := Some config_header\<rparr>,
            fold println
              ([''cargo:rerun-if-changed='' @ path_str config_header,
                ''cargo:rerun-if-changed='' @ path_str build_config_header] @ temps @
               [''cargo:rerun-if-env-changed=RTE_SDK'', ''cargo:rerun-if-env-changed=RTE_TARGET'']) w)))
     else Panic))"

section \<open>Libraries\<close>

text \<open>The body of the loop over the library directory: the path that is pushed, if any.\<close>

definition link_lib :: "fs \<Rightarrow> path \<Rightarrow> string option \<Rightarrow> path list outcome" where
  "link_lib f lib_dir entry =
     (case entry of
        None \<Rightarrow> Done []
      | Some n \<Rightarrow>
        let p = lib_dir @ [n] in
        if \<not> is_file f p then Done []
        else (case extension p of
          None \<Rightarrow> Done []
        | Some ext \<Rightarrow>
          if ext \<noteq> ''a'' then Done []
          else (case file_stem p of
            None \<Rightarrow> Done []
          | Some stem \<Rightarrow>
            andthen (to_str stem) (\<lambda>s. Done (if starts_with s ''librte_'' then [p] else [])))))"

definition find_link_libs :: "host \<Rightarrow> build_state \<Rightarrow> bworld \<Rightarrow> build_state outcome" where
  "find_link_libs h st w =
     andthen (unwrap (library_path st)) (\<lambda>lib_dir.
     andthen (unwrap (read_dir h lib_dir)) (\<lambda>entries.
     andthen (collect (link_lib (files w) lib_dir) entries) (\<lambda>libs.
     if libs = [] then Panic else Done (st\<lparr>dpdk_links := sort_dedup libs\<rparr>))))"

section \<open>The header of all headers\<close>

definition header_file :: "fs \<Rightarrow> path \<Rightarrow> path \<Rightarrow> string option \<Rightarrow> path list outcome" where
  "header_file f include_dir config entry =
     (case entry of
        None \<Rightarrow> Done []
      | Some n \<Rightarrow>
        let p = include_dir @ [n];
            rest = (case extension p of
                      None \<Rightarrow> []
                    | Some ext \<Rightarrow> if ext \<noteq> ''h'' then [] else if p = config then [] else [p])
        in if \<not> is_file f p then Done []
           else (case file_stem p of
                   None \<Rightarrow> Done rest
                 | Some stem \<Rightarrow>
                   andthen (to_str stem) (\<lambda>s. Done (if starts_with s ''rte_pmd_'' then [] else rest))))"

definition stem_str :: "path \<Rightarrow> string outcome" where
  "stem_str p = andthen (unwrap (file_stem p)) to_str"

definition platform_set :: "string list" where
  "platform_set = [''x86'', ''x86_64'', ''x64'', ''arm'', ''arm32'', ''arm64'', ''amd64'', ''generic'', ''gfni'',
     ''32'', ''64'']"

definition blacklist_prefix :: "string list" where
  "blacklist_prefix = [''rte_acc_'']"

definition keep_header :: "string list \<Rightarrow> path \<Rightarrow> path list outcome" where
  "keep_header name_set p =
     andthen (stem_str p) (\<lambda>name.
     Done (if list_ex (\<lambda>prev. starts_with name (prev @ ''_'')) name_set then []
           else if list_ex (\<lambda>platform. ends_with name (''_'' @ platform)) platform_set then []
           else if list_ex (starts_with name) blacklist_prefix then []
           else [p]))"

text \<open>The comparison of \<^verbatim>\<open>sort_by\<close>: first the number of parts between underscores, then the stem.  Every path
  compared has passed \<^verbatim>\<open>file_stem().unwrap().to_str().unwrap()\<close> before.\<close>

definition header_key :: "path \<Rightarrow> nat \<times> string" where
  "header_key p = (case file_stem p of Some s \<Rightarrow> (length (split_on CHR ''_'' s), s) | None \<Rightarrow> (0, []))"

definition header_name :: "path \<Rightarrow> string list outcome" where
  "header_name p =
     andthen (unwrap (file_name p)) (\<lambda>n. andthen (to_str n) (\<lambda>x.
     Done (if x \<noteq> ''rte_config.h'' \<or> x \<noteq> ''rte_common.h'' then [x] else [])))"

definition include_line :: "string \<Rightarrow> string" where
  "include_line header = ''#include '' @ [CHR 0x22] @ header @ [CHR 0x22] @ newline"

text \<open>The template and the target are opened before the template is read; they are different files.\<close>

definition make_all_in_one_header :: "host \<Rightarrow> build_state \<Rightarrow> bworld \<Rightarrow> (build_state \<times> bworld) outcome" where
  "make_all_in_one_header h st w =
     andthen (unwrap (include_path st)) (\<lambda>include_dir.
     andthen (unwrap (dpdk_config st)) (\<lambda>config.
     andthen (unwrap (read_dir h include_dir)) (\<lambda>entries.
     andthen (collect (header_file (files w) include_dir config) entries) (\<lambda>found.
     let headers = sort_dedup found in
     andthen (assert_that (headers \<noteq> [])) (\<lambda>_.
     andthen (collect (\<lambda>p. andthen (stem_str p) (\<lambda>s. Done [s])) headers) (\<lambda>name_set.
     andthen (collect (keep_header name_set) headers) (\<lambda>kept.
     let new_vec = sort_key header_key kept in
     andthen (collect header_name new_vec) (\<lambda>names.
     let header_names = ''rte_common.h'' # ''rte_config.h'' # sort_dedup names;
         st1 = st\<lparr>dpdk_headers := header_names\<rparr> in
     andthen (read_template (project_path st @ [''gen'', ''dpdk.h.template'']) w) (\<lambda>template_string.
     let headers_string = concat (map include_line header_names);
         formatted_string = replace_str ''%header_list%'' headers_string template_string
     in andthen (write_target h (out_path st @ [''dpdk.h'']) formatted_string w) (\<lambda>w1.
        Done (st1, w1)))))))))))"

section \<open>What the steps fill in\<close>

text \<open>A host on which the generated files reach the disk.\<close>

definition disk_ok :: "host \<Rightarrow> bool" where
  "disk_ok h \<longleftrightarrow> (\<forall>p s. can_create h p \<and> disk_write h p s = s)"

definition set_file :: "path \<Rightarrow> string \<Rightarrow> bworld \<Rightarrow> bworld" where
  "set_file p s w = w\<lparr>files := (files w)(p \<mapsto> FileNode s)\<rparr>"

lemma write_target_ok [exec_simps]: "disk_ok h \<Longrightarrow> write_target h p s w = Done (set_file p s w)"
  by (simp add: disk_ok_def write_target_def set_file_def)

lemma set_file_simps [simp]:
  "files (set_file p s w) = (files w)(p \<mapsto> FileNode s)" "cargo_out (set_file p s w) = cargo_out w"
  by (simp_all add: set_file_def)

lemma read_template_file [exec_simps]:
  "files w p = Some (FileNode s) \<Longrightarrow> is_utf8 s \<Longrightarrow> read_template p w = Done s"
  by (simp add: read_template_def)

text \<open>What reading a template gives, if it can be opened, and the world after a file was created and what reached the disk was written.\<close>

definition template_text :: "fs \<Rightarrow> path \<Rightarrow> string" where
  "template_text f p = (case f p of Some (FileNode s) \<Rightarrow> if is_utf8 s then s else [] | _ \<Rightarrow> [])"

definition written :: "host \<Rightarrow> path \<Rightarrow> string \<Rightarrow> bworld \<Rightarrow> bworld" where
  "written h p s w = set_file p (disk_write h p s) w"

lemma read_template_eq: "read_template p w = (if files w p = None then Panic else Done (template_text (files w) p))"
  by (simp add: read_template_def template_text_def split: option.split fnode.split)

lemma write_target_eq: "write_target h p s w = (if can_create h p then Done (written h p s w) else Panic)"
  by (simp add: write_target_def written_def set_file_def)

lemma written_ok [exec_simps]: "disk_ok h \<Longrightarrow> written h p s w = set_file p s w"
  by (simp add: disk_ok_def written_def)

lemma files_written [simp]: "files (written h p s w) = (files w)(p \<mapsto> FileNode (disk_write h p s))"
  by (simp add: written_def)

lemma files_println [simp]: "files (println s w) = files w"
  by (simp add: println_def)

lemma files_fold_println [simp]: "files (fold println ss w) = files w"
  by (induction ss arbitrary: w) simp_all

lemma cargo_fold_println [simp]: "cargo_out (fold println ss w) = cargo_out w @ ss"
  by (induction ss arbitrary: w) (simp_all add: println_def)

section \<open>Libraries: exactly those found\<close>

definition is_rte_lib :: "fs \<Rightarrow> path \<Rightarrow> string \<Rightarrow> bool" where
  "is_rte_lib f lib_dir n \<longleftrightarrow>
     is_file f (lib_dir @ [n]) \<and> (\<exists>m. n = ''librte_'' @ m @ ''.a'')"

definition names_utf8 :: "string option list \<Rightarrow> bool" where
  "names_utf8 entries \<longleftrightarrow> (\<forall>n. Some n \<in> set entries \<longrightarrow> is_utf8 (fst (split_dot n)))"

lemma ext_iff:
  "CHR ''.'' \<notin> set e \<Longrightarrow> e \<noteq> [] \<Longrightarrow> extension (d @ [n]) = Some e \<longleftrightarrow> (\<exists>m. m \<noteq> [] \<and> n = m @ ''.'' @ e)"
  (is "?e \<Longrightarrow> ?ne \<Longrightarrow> ?l \<longleftrightarrow> ?r")
proof
  assume "?e" "?ne" "?r"
  then obtain m where m: "m \<noteq> []" "n = m @ ''.'' @ e" by auto
  with \<open>?e\<close> have "split_dot n = (m, Some e)" using split_dot_ext by simp
  moreover have "n \<noteq> ''..''"
  proof
    assume "n = ''..''"
    then have "last (m @ ''.'' @ e) = CHR ''.''" using m by simp
    then have "last e = CHR ''.''" using \<open>?ne\<close> by simp
    with \<open>?e\<close> \<open>?ne\<close> show False using last_in_set[of e] by simp
  qed
  ultimately show "?l" by (simp add: extension_def)
next
  assume "?e" "?ne" "?l"
  then have n: "n = fst (split_dot n) @ ''.'' @ e" "snd (split_dot n) = Some e"
    using stem_ext[of d n e] by (auto simp: extension_def split: if_splits)
  moreover have "fst (split_dot n) \<noteq> []"
    using n(2) by (auto simp: split_dot_def Let_def split: if_splits)
  ultimately show "?r" by metis
qed

lemma append_cut: "m @ e = p @ k @ e \<longleftrightarrow> m = p @ k"
  by (simp flip: append_assoc)

lemma librte_iff:
  assumes "extension (d @ [n]) = Some ''a''" "file_stem (d @ [n]) = Some m"
  shows "starts_with m ''librte_'' \<longleftrightarrow> (\<exists>k. n = ''librte_'' @ k @ ''.a'')"
proof -
  have n: "n = m @ ''.a''" using stem_ext[OF assms(1)] assms(2) by simp
  show ?thesis unfolding starts_with_def prefix_def n
    by (simp only: append_cut)
qed

lemma link_lib_eq:
  assumes "\<And>n. entry = Some n \<Longrightarrow> is_utf8 (fst (split_dot n))"
  shows "link_lib f d entry =
     Done (case entry of None \<Rightarrow> [] | Some n \<Rightarrow> if is_rte_lib f d n then [d @ [n]] else [])"
proof (cases entry)
  case None
  then show ?thesis by (simp add: link_lib_def)
next
  case (Some n)
  note utf8 = assms[OF Some]
  have no_ext: "extension (d @ [n]) \<noteq> Some ''a'' \<Longrightarrow> \<not> is_rte_lib f d n"
    using ext_iff[of "''a''" d n] by (auto simp: is_rte_lib_def)
  show ?thesis
  proof (cases "extension (d @ [n]) = Some ''a''")
    case True
    have stem: "file_stem (d @ [n]) = Some (fst (split_dot n))" using stem_ext[OF True] by simp
    show ?thesis using Some True utf8 stem librte_iff[OF True stem]
      by (auto simp: link_lib_def is_rte_lib_def to_str_def Let_def)
  next
    case False
    then show ?thesis using Some no_ext by (auto simp: link_lib_def Let_def split: option.splits)
  qed
qed

definition rte_libs_in :: "fs \<Rightarrow> path \<Rightarrow> string option list \<Rightarrow> path set" where
  "rte_libs_in f d entries = {d @ [n] | n. Some n \<in> set entries \<and> is_rte_lib f d n}"

lemma collect_link_lib:
  assumes "names_utf8 entries"
  shows "\<exists>libs. collect (link_lib f d) entries = Done libs \<and> set libs = rte_libs_in f d entries"
proof -
  let ?g = "\<lambda>e. case e of None \<Rightarrow> [] | Some n \<Rightarrow> if is_rte_lib f d n then [d @ [n]] else []"
  have "collect (link_lib f d) entries = Done (concat (map ?g entries))"
    by (rule collect_Done, rule link_lib_eq) (use assms in \<open>auto simp: names_utf8_def\<close>)
  moreover have "set (concat (map ?g entries)) = rte_libs_in f d entries"
    by (auto simp: rte_libs_in_def split: option.splits if_splits)
  ultimately show ?thesis by blast
qed

text \<open>\<^verbatim>\<open>find_link_libs\<close> on a readable library directory whose names are UTF-8: it panics exactly when there is no
  regular file \<^verbatim>\<open>librte_*.a\<close>; otherwise \<^verbatim>\<open>dpdk_links\<close> lists these files, each once and in ascending order, whatever
  order the directory is read in and whichever entries fail, and nothing else of the state changes.\<close>

lemma find_link_libs_run:
  assumes "library_path st = Some d" and "read_dir h d = Some entries" and "names_utf8 entries"
  shows "find_link_libs h st w =
     (if rte_libs_in (files w) d entries = {} then Panic
      else Done (st\<lparr>dpdk_links := sorted_list_of_set (rte_libs_in (files w) d entries)\<rparr>))"
proof -
  obtain libs where libs: "collect (link_lib (files w) d) entries = Done libs"
    "set libs = rte_libs_in (files w) d entries"
    using collect_link_lib[OF assms(3)] by blast
  show ?thesis using assms libs by (auto simp: find_link_libs_def sort_dedup_eq)
qed

lemma finite_rte_libs_in [simp]: "finite (rte_libs_in f d entries)"
  by (rule finite_subset[of _ "(\<lambda>e. d @ [the e]) ` set entries"]) (force simp: rte_libs_in_def)+

section \<open>Headers: exactly those selected\<close>

definition stem_of :: "string \<Rightarrow> string" where
  "stem_of n = fst (split_dot n)"

definition headers_in :: "fs \<Rightarrow> path \<Rightarrow> path \<Rightarrow> string option list \<Rightarrow> string set" where
  "headers_in f d config entries =
     {n. Some n \<in> set entries \<and> is_file f (d @ [n]) \<and> extension (d @ [n]) = Some ''h'' \<and>
         d @ [n] \<noteq> config \<and> \<not> prefix ''rte_pmd_'' (stem_of n)}"

text \<open>A header is left out when its stem extends that of another header by an underscore and more, when it ends
  with the name of a platform, or when it is black-listed.\<close>

definition selected_header :: "string set \<Rightarrow> string \<Rightarrow> bool" where
  "selected_header S n \<longleftrightarrow> n \<in> S \<and> (\<forall>k\<in>S. \<not> prefix (stem_of k @ ''_'') (stem_of n)) \<and>
     (\<forall>p\<in>set platform_set. \<not> suffix (''_'' @ p) (stem_of n)) \<and> \<not> prefix ''rte_acc_'' (stem_of n)"

definition selected_headers :: "fs \<Rightarrow> path \<Rightarrow> path \<Rightarrow> string option list \<Rightarrow> string set" where
  "selected_headers f d config entries = Collect (selected_header (headers_in f d config entries))"

lemma stem_of_ext:
  assumes "extension (d @ [n]) = Some e"
  shows "file_name (d @ [n]) = Some n" "file_stem (d @ [n]) = Some (stem_of n)" "n = stem_of n @ ''.'' @ e"
  using stem_ext[OF assms] by (simp_all add: stem_of_def)

lemma file_stem_snoc: "file_stem (d @ [n]) = (if n = ''..'' then None else Some (stem_of n))"
  by (simp add: file_stem_def stem_of_def)

lemma header_file_eq:
  assumes "\<And>n. entry = Some n \<Longrightarrow> is_utf8 (stem_of n)"
  shows "\<exists>ps. header_file f d config entry = Done ps \<and>
     set ps = (\<lambda>n. d @ [n]) ` headers_in f d config [entry]"
proof (cases entry)
  case None
  then show ?thesis by (auto simp: header_file_def headers_in_def)
next
  case (Some n)
  then have utf8: "is_utf8 (stem_of n)" using assms by blast
  have "extension (d @ [''..'']) = None" by (simp add: extension_def)
  with Some utf8 show ?thesis
    by (cases "extension (d @ [n])") (auto simp: header_file_def headers_in_def file_stem_snoc Let_def starts_with_def)
qed

lemma collect_header_file:
  assumes "names_utf8 entries"
  shows "\<exists>ps. collect (header_file f d config) entries = Done ps \<and>
     set ps = (\<lambda>n. d @ [n]) ` headers_in f d config entries"
proof -
  have "\<exists>ps. collect (header_file f d config) entries = Done ps \<and>
     set ps = (\<Union>e\<in>set entries. (\<lambda>n. d @ [n]) ` headers_in f d config [e])"
    by (rule collect_set, rule header_file_eq) (use assms in \<open>auto simp: names_utf8_def stem_of_def\<close>)
  moreover have "headers_in f d config entries = (\<Union>e\<in>set entries. headers_in f d config [e])"
    by (auto simp: headers_in_def)
  ultimately show ?thesis by (simp add: image_UN)
qed

lemma stem_str_header:
  assumes "n \<in> headers_in f d config entries" "names_utf8 entries"
  shows "stem_str (d @ [n]) = Done (stem_of n)" "is_utf8 n" "file_name (d @ [n]) = Some n"
proof -
  have ext: "extension (d @ [n]) = Some ''h''" and utf8: "is_utf8 (stem_of n)"
    using assms by (auto simp: headers_in_def names_utf8_def stem_of_def)
  note n = stem_of_ext[OF ext]
  show "stem_str (d @ [n]) = Done (stem_of n)" "file_name (d @ [n]) = Some n"
    using n(1,2) utf8 by (simp_all add: stem_str_def)
  have "is_utf8 ''.h''" by (simp add: byte_def)
  then show "is_utf8 n" using n(3) is_utf8_append[OF utf8, of "''.h''"] by simp
qed

lemma keep_header_eq:
  assumes "n \<in> headers_in f d config entries" "names_utf8 entries"
    and "set names = stem_of ` headers_in f d config entries"
  shows "keep_header names (d @ [n]) =
     Done (if n \<in> selected_headers f d config entries then [d @ [n]] else [])"
  using assms
  by (simp add: keep_header_def stem_str_header selected_headers_def selected_header_def starts_with_def
      ends_with_def list_ex_iff blacklist_prefix_def)

lemma header_name_eq:
  assumes "n \<in> headers_in f d config entries" "names_utf8 entries"
  shows "header_name (d @ [n]) = Done [n]"
proof -
  have "(n \<noteq> ''rte_config.h'' \<or> n \<noteq> ''rte_common.h'') = True" by auto
  then show ?thesis using stem_str_header(2,3)[OF assms]
    unfolding header_name_def by (simp only: exec_simps to_str_utf8 if_True)
qed

lemma snoc_image_if:
  assumes "T \<subseteq> S"
  shows "(\<Union>p\<in>(\<lambda>n. d @ [n]) ` S. if last p \<in> T then {p} else {}) = (\<lambda>n. d @ [n]) ` T"
proof -
  have "(\<Union>p\<in>(\<lambda>n. d @ [n]) ` S. if last p \<in> T then {p} else {}) = {p \<in> (\<lambda>n. d @ [n]) ` S. last p \<in> T}"
    by (rule set_eqI) simp
  also have "\<dots> = (\<lambda>n. d @ [n]) ` T" using assms by auto
  finally show ?thesis .
qed

lemma assert_panic: "andthen (assert_that b) (\<lambda>_. Panic) = Panic"
  by (cases b) simp_all

lemma make_header_run:
  assumes "include_path st = Some d" and "dpdk_config st = Some config" and "read_dir h d = Some entries"
    and "names_utf8 entries"
  shows "make_all_in_one_header h st w =
     (if headers_in (files w) d config entries = {} \<or> files w (project_path st @ [''gen'', ''dpdk.h.template'']) = None \<or>
         \<not> can_create h (out_path st @ [''dpdk.h'']) then Panic
      else let hs = ''rte_common.h'' # ''rte_config.h'' #
                    sorted_list_of_set (selected_headers (files w) d config entries)
           in Done (st\<lparr>dpdk_headers := hs\<rparr>,
                written h (out_path st @ [''dpdk.h''])
                  (replace_str ''%header_list%'' (concat (map include_line hs))
                    (template_text (files w) (project_path st @ [''gen'', ''dpdk.h.template'']))) w))"
proof -
  let ?S = "headers_in (files w) d config entries" and ?sel = "selected_headers (files w) d config entries"
  let ?p = "\<lambda>n. d @ [n]"
  have sub: "?sel \<subseteq> ?S" by (auto simp: selected_headers_def selected_header_def)
  obtain found where found: "collect (header_file (files w) d config) entries = Done found" "set found = ?p ` ?S"
    using collect_header_file[OF assms(4)] by blast
  have set: "set (sort_dedup found) = ?p ` ?S" using found(2) by simp
  have "\<exists>ns. collect (\<lambda>p. andthen (stem_str p) (\<lambda>s. Done [s])) (sort_dedup found) = Done ns \<and>
     set ns = (\<Union>p\<in>set (sort_dedup found). {stem_of (last p)})"
    by (rule collect_set) (use set stem_str_header assms(4) in auto)
  then obtain ns where ns: "collect (\<lambda>p. andthen (stem_str p) (\<lambda>s. Done [s])) (sort_dedup found) = Done ns"
    "set ns = stem_of ` ?S"
    using set by (auto simp: UNION_singleton_eq_range image_image)
  have "\<exists>kept. collect (keep_header ns) (sort_dedup found) = Done kept \<and>
     set kept = (\<Union>p\<in>set (sort_dedup found). if last p \<in> ?sel then {p} else {})"
    by (rule collect_set) (use set keep_header_eq[OF _ assms(4) ns(2)] in auto)
  then obtain kept where kept: "collect (keep_header ns) (sort_dedup found) = Done kept"
    "set kept = ?p ` ?sel"
    unfolding set snoc_image_if[OF sub] by (elim exE conjE)
  have "header_name x = Done [last x]" if "x \<in> set (sort_key header_key kept)" for x
  proof -
    from that kept(2) obtain n where x: "x = d @ [n]" and "n \<in> ?sel" by auto
    with sub have "n \<in> ?S" by blast
    from header_name_eq[OF this assms(4)] x show ?thesis by simp
  qed
  then have "collect header_name (sort_key header_key kept) = Done (concat (map (\<lambda>x. [last x]) (sort_key header_key kept)))"
    by (rule collect_Done)
  moreover have "set (concat (map (\<lambda>x. [last x]) (sort_key header_key kept))) = ?sel"
    using kept(2) by (auto simp: image_image)
  ultimately obtain names where "collect header_name (sort_key header_key kept) = Done names" "set names = ?sel"
    by blast
  with assms found set ns kept show ?thesis
    by (auto simp: make_all_in_one_header_def Let_def sort_dedup_eq read_template_eq write_target_eq assert_panic)
qed

text \<open>C18. \<^verbatim>\<open>make_all_in_one_header\<close> on a readable include directory whose names are UTF-8: it panics exactly when
  there is no candidate header, the template is missing or \<^verbatim>\<open>dpdk.h\<close> cannot be created; otherwise it lists \<^verbatim>\<open>rte_common.h\<close>,
  \<^verbatim>\<open>rte_config.h\<close> and then exactly the selected
  headers, each once and in ascending order, independently of the order of the directory, and fills
  the template with one include line per entry; \<^verbatim>\<open>dpdk.h\<close> holds what reached the disk of that text, as a failed write is ignored, and a
  template that is not UTF-8 counts as empty.  The filter that was to keep the first two from being
  listed again never removes anything, and the order by number of parts is lost in the final sort.\<close>

theorem make_header_exact:
  assumes "include_path st = Some d" and "dpdk_config st = Some config" and "read_dir h d = Some entries"
    and "names_utf8 entries"
  shows "if headers_in (files w) d config entries = {} \<or> files w (project_path st @ [''gen'', ''dpdk.h.template'']) = None \<or>
       \<not> can_create h (out_path st @ [''dpdk.h''])
     then make_all_in_one_header h st w = Panic
     else \<exists>hs text. make_all_in_one_header h st w = Done (st\<lparr>dpdk_headers := ''rte_common.h'' # ''rte_config.h'' # hs\<rparr>,
            w\<lparr>files := (files w)(out_path st @ [''dpdk.h''] \<mapsto> FileNode (disk_write h (out_path st @ [''dpdk.h'']) text))\<rparr>) \<and>
          text = replace_str ''%header_list%'' (concat (map include_line (''rte_common.h'' # ''rte_config.h'' # hs)))
            (template_text (files w) (project_path st @ [''gen'', ''dpdk.h.template''])) \<and>
          sorted hs \<and> distinct hs \<and> set hs = selected_headers (files w) d config entries"
proof -
  have "finite (selected_headers (files w) d config entries)"
    by (rule finite_subset[of _ "the ` set entries"])
      (force simp: selected_headers_def selected_header_def headers_in_def)+
  with make_header_run[OF assms] show ?thesis by (auto simp: Let_def written_def set_file_def)
qed

section \<open>Loops over declarations\<close>

text \<open>Two steps of the script run over the declarations of \<^verbatim>\<open>dpdk.h\<close> and collect something for each eligible function
  whose name has not been collected before.  \<open>state_of fs\<close> is the state after collecting for \<open>fs\<close>.\<close>

locale first_declaration =
  fixes loop :: "entity list \<Rightarrow> 's \<Rightarrow> 's outcome"
    and step :: "entity \<Rightarrow> 's \<Rightarrow> 's outcome"
    and state_of :: "entity list \<Rightarrow> 's"
    and well_typed :: "entity \<Rightarrow> bool"
    and eligible :: "entity \<Rightarrow> bool"
  assumes loop_Nil: "loop [] s = Done s"
    and loop_Cons: "loop (f # fs) s = andthen (if e_kind f = FunctionDecl then step f s else Done s) (loop fs)"
    and eligible_function: "eligible f \<Longrightarrow> e_kind f = FunctionDecl \<and> e_name f \<noteq> None"
    and step_eq: "well_typed f \<Longrightarrow> e_kind f = FunctionDecl \<Longrightarrow> \<forall>g\<in>set fs. e_name g \<noteq> None \<Longrightarrow>
      step f (state_of fs) =
        Done (state_of (if eligible f \<and> e_name f \<notin> e_name ` set fs then fs @ [f] else fs))"
begin

lemma loop_from:
  assumes "\<forall>f\<in>set es. well_typed f" and "\<forall>g\<in>set fs. e_name g \<noteq> None"
  shows "loop es (state_of fs) =
     Done (state_of (fs @ filter (\<lambda>f. e_name f \<notin> e_name ` set fs) (first_by e_name (filter eligible es))))"
  using assms
proof (induction es arbitrary: fs)
  case Nil
  then show ?case by (simp add: loop_Nil)
next
  case (Cons f es)
  let ?fs = "if eligible f \<and> e_name f \<notin> e_name ` set fs then fs @ [f] else fs"
  have step: "(if e_kind f = FunctionDecl then step f (state_of fs) else Done (state_of fs)) = Done (state_of ?fs)"
    using Cons.prems eligible_function[of f] by (auto simp: step_eq)
  have "\<forall>g\<in>set ?fs. e_name g \<noteq> None" using Cons.prems(2) eligible_function by auto
  with Cons have IH: "loop es (state_of ?fs) =
     Done (state_of (?fs @ filter (\<lambda>f. e_name f \<notin> e_name ` set ?fs) (first_by e_name (filter eligible es))))"
    by simp
  have "?fs @ filter (\<lambda>f. e_name f \<notin> e_name ` set ?fs) (first_by e_name (filter eligible es)) =
      fs @ filter (\<lambda>f. e_name f \<notin> e_name ` set fs) (first_by e_name (filter eligible (f # es)))"
    by (auto intro!: filter_cong)
  with step IH show ?case by (simp only: loop_Cons andthen.simps)
qed

lemma loop_eq:
  "\<forall>f\<in>set es. well_typed f \<Longrightarrow>
     loop es (state_of []) = Done (state_of (first_by e_name (filter eligible es)))"
  using loop_from[of es "[]"] by simp

end

text \<open>When a step looks at the types of a function only if it collects something for it, the outcome of the loop is
  known for all declarations: it panics exactly when one of the functions collected for is not well typed.\<close>

locale first_declaration_strict = first_declaration loop step state_of well_typed eligible
  for loop :: "entity list \<Rightarrow> 's \<Rightarrow> 's outcome" and step state_of well_typed eligible +
  assumes step_skip: "e_kind f = FunctionDecl \<Longrightarrow> \<forall>g\<in>set fs. e_name g \<noteq> None \<Longrightarrow> \<not> (eligible f \<and> e_name f \<notin> e_name ` set fs) \<Longrightarrow>
      step f (state_of fs) = Done (state_of fs)"
    and step_panic: "\<forall>g\<in>set fs. e_name g \<noteq> None \<Longrightarrow> eligible f \<Longrightarrow> e_name f \<notin> e_name ` set fs \<Longrightarrow> \<not> well_typed f \<Longrightarrow>
      step f (state_of fs) = Panic"
begin

lemma loop_exact_from:
  assumes "\<forall>g\<in>set fs. e_name g \<noteq> None"
  shows "loop es (state_of fs) =
     (let new = filter (\<lambda>f. e_name f \<notin> e_name ` set fs) (first_by e_name (filter eligible es))
      in if \<forall>f\<in>set new. well_typed f then Done (state_of (fs @ new)) else Panic)"
  using assms
proof (induction es arbitrary: fs)
  case Nil
  then show ?case by (simp add: loop_Nil)
next
  case (Cons f es)
  let ?new = "\<lambda>fs es. filter (\<lambda>f. e_name f \<notin> e_name ` set fs) (first_by e_name (filter eligible es))"
  show ?case
  proof (cases "eligible f \<and> e_name f \<notin> e_name ` set fs")
    case False
    then have "(if e_kind f = FunctionDecl then step f (state_of fs) else Done (state_of fs)) = Done (state_of fs)"
      using step_skip[OF _ Cons.prems] by simp
    then have "loop (f # es) (state_of fs) = loop es (state_of fs)" by (simp add: loop_Cons)
    moreover have "?new fs (f # es) = ?new fs es" using False by (auto intro!: filter_cong)
    ultimately show ?thesis using Cons.IH[OF Cons.prems] by simp
  next
    case True
    then have f: "e_kind f = FunctionDecl" "e_name f \<noteq> None" using eligible_function by blast+
    have new: "?new fs (f # es) = f # ?new (fs @ [f]) es" using True by (auto intro!: filter_cong)
    show ?thesis
    proof (cases "well_typed f")
      case True
      with f \<open>eligible f \<and> _\<close> have "loop (f # es) (state_of fs) = loop es (state_of (fs @ [f]))"
        using step_eq[OF True f(1) Cons.prems] by (simp add: loop_Cons)
      moreover have "\<forall>g\<in>set (fs @ [f]). e_name g \<noteq> None" using Cons.prems f by auto
      ultimately show ?thesis using Cons.IH[of "fs @ [f]"] True unfolding new
        by (simp add: Let_def del: filter_append set_append) (auto simp: Let_def)
    next
      case False
      then have "loop (f # es) (state_of fs) = Panic"
        using step_panic[OF Cons.prems] True f by (simp add: loop_Cons)
      then show ?thesis using False unfolding new by simp
    qed
  qed
qed

lemma loop_exact:
  "loop es (state_of []) = (if \<forall>f\<in>set (first_by e_name (filter eligible es)). well_typed f
     then Done (state_of (first_by e_name (filter eligible es))) else Panic)"
  using loop_exact_from[of "[]" es] by (simp add: Let_def)

end

definition args_of :: "entity \<Rightarrow> carg list" where
  "args_of f = (case e_arguments f of Some as \<Rightarrow> as | None \<Rightarrow> [])"

end
