(* ===== verification/Build_Eal.thy ===== *)
theory Build_Eal
  imports Build_Headers
begin

text \<open>
  The build script of the DPDK crate, second part: \<^verbatim>\<open>extract_eal_apis\<close>, the trait functions for the inline
  functions of DPDK that use primitive types only.  A \<^verbatim>\<open>HashMap\<close> is the list of its entries in the order of insertion;
  the order in which \<^verbatim>\<open>values()\<close> gives them is the host's.
\<close>

definition arg_type_whitelist :: "(string \<times> string) list" where
  "arg_type_whitelist =
     [(''void'', ''()''), (''int'', ''i32''), (''unsigned int'', ''u32''), (''size_t'', ''usize''),
      (''ssize_t'', ''isize''), (''uint8_t'', ''u8''), (''uint16_t'', ''u16''), (''uint32_t'', ''u32''),
      (''uint64_t'', ''u64''), (''int8_t'', ''i8''), (''int16_t'', ''i16''), (''int32_t'', ''i32''),
      (''int64_t'', ''i64'')]"

definition rust_type :: "string \<Rightarrow> string option" where
  "rust_type c = map_of arg_type_whitelist c"

text \<open>\<^verbatim>\<open>get_display_name()\<close> of an argument, or \<^verbatim>\<open>_unnamed_arg<n>\<close>.\<close>

definition arg_name :: "nat \<Rightarrow> carg \<Rightarrow> string" where
  "arg_name counter a =
     (case arg_display_name a of Some n \<Rightarrow> n | None \<Rightarrow> ''_unnamed_arg'' @ show_dec counter)"

text \<open>The loop over the arguments: the names with their Rust types, \<open>None\<close> when a type is not primitive.\<close>

fun eal_args :: "nat \<Rightarrow> carg list \<Rightarrow> (string \<times> string) list option outcome" where
  "eal_args counter [] = Done (Some [])"
| "eal_args counter (a # as) =
     andthen (unwrap (arg_type a)) (\<lambda>type.
     case rust_type (display_name type) of
       None \<Rightarrow> Done None
     | Some t \<Rightarrow>
       andthen (eal_args (counter + 1) as) (\<lambda>rest.
       Done (map_option (\<lambda>r. (arg_name counter a, t) # r) rest)))"

text \<open>The two texts generated for a function; they differ in the \<^verbatim>\<open>&self\<close> parameter.\<close>

definition use_def :: "string \<Rightarrow> string \<Rightarrow> string \<Rightarrow> (string \<times> string) list \<Rightarrow> string \<Rightarrow> string" where
  "use_def self_arg comment name args ret_type =
     newline @ comment @ newline @ ''#[inline(always)]'' @ newline @
     ''fn '' @ trim_start_matches ''rte_'' name @ '' ( '' @ self_arg @
     join_with '', '' (map (\<lambda>(n, t). n @ '': '' @ t) args) @ '' )'' @
     (if ret_type = ''()'' then [] else '' -> '' @ ret_type) @ '' {'' @ newline @
     tab @ ''unsafe { crate::'' @ name @ ''('' @ join_with '', '' (map fst args) @ '') }'' @ newline @ ''}''"

type_synonym use_maps = "(string \<times> string) list \<times> (string \<times> string) list"

text \<open>The body of the loop over the functions; every \<^verbatim>\<open>continue\<close> leaves the maps as they are.\<close>

definition eal_function :: "entity \<Rightarrow> use_maps \<Rightarrow> use_maps outcome" where
  "eal_function f m =
     (case (e_name f, e_storage f, e_result_type f) of
        (Some name, Some storage, Some return_type) \<Rightarrow>
          let comment = (case e_comment f of Some c \<Rightarrow> strip_comments c | None \<Rightarrow> []) in
          if name \<in> fst ` set (fst m) then Done m
          else if starts_with name ''_'' then Done m
          else if storage \<noteq> Static \<or> \<not> (e_is_declaration f \<and> e_is_inline f) then Done m
          else (case rust_type (display_name return_type) of
            None \<Rightarrow> Done m
          | Some ret \<Rightarrow>
            andthen (eal_args 0 (case e_arguments f of Some as \<Rightarrow> as | None \<Rightarrow> [])) (\<lambda>args.
            case args of
              None \<Rightarrow> Done m
            | Some as \<Rightarrow>
              Done (fst m @ [(name, use_def ''&self, '' comment name as ret)],
                    snd m @ [(name, use_def [] comment name as ret)])))
      | _ \<Rightarrow> Done m)"

fun eal_functions :: "entity list \<Rightarrow> use_maps \<Rightarrow> use_maps outcome" where
  "eal_functions [] m = Done m"
| "eal_functions (f # fs) m =
     andthen (if e_kind f = FunctionDecl then eal_function f m else Done m) (eal_functions fs)"

definition extract_eal_apis :: "host \<Rightarrow> build_state \<Rightarrow> bworld \<Rightarrow> build_state outcome" where
  "extract_eal_apis h st w =
     andthen (assert_that (clang_available h)) (\<lambda>_.
     andthen (trans_unit_from_header h st w (out_path st @ [''dpdk.h'']) False) (\<lambda>es.
     andthen (eal_functions es ([], [])) (\<lambda>(use_def_map, global_use_def_map).
     Done (st\<lparr>eal_function_use_defs := map snd (hash_order h 0 use_def_map),
              global_eal_function_use_defs := map snd (hash_order h 1 global_use_def_map)\<rparr>))))"

section \<open>Exactly the functions with primitive types, each once\<close>

definition args_typed :: "entity list \<Rightarrow> bool" where
  "args_typed es \<longleftrightarrow> (\<forall>f\<in>set es. \<forall>a\<in>set (args_of f). arg_type a \<noteq> None)"

definition primitive :: "ctype option \<Rightarrow> bool" where
  "primitive t \<longleftrightarrow> (\<exists>c. t = Some c \<and> rust_type (display_name c) \<noteq> None)"

definition trivial_api :: "entity \<Rightarrow> bool" where
  "trivial_api f \<longleftrightarrow> e_kind f = FunctionDecl \<and> e_storage f = Some Static \<and> e_is_declaration f \<and> e_is_inline f \<and>
     (\<exists>n. e_name f = Some n \<and> \<not> prefix ''_'' n) \<and> primitive (e_result_type f) \<and>
     (\<forall>a\<in>set (args_of f). primitive (arg_type a))"

definition rust_args :: "nat \<Rightarrow> carg list \<Rightarrow> (string \<times> string) list" where
  "rust_args k as = map (\<lambda>(i, a). (arg_name i a, the (rust_type (display_name (the (arg_type a)))))) (enumerate k as)"

definition api_text :: "string \<Rightarrow> entity \<Rightarrow> string" where
  "api_text self_arg f =
     use_def self_arg (case e_comment f of Some c \<Rightarrow> strip_comments c | None \<Rightarrow> []) (the (e_name f))
       (rust_args 0 (args_of f)) (the (rust_type (display_name (the (e_result_type f)))))"

definition trivial_apis :: "entity list \<Rightarrow> entity list" where
  "trivial_apis es = first_by e_name (filter trivial_api es)"

definition api_map :: "string \<Rightarrow> entity list \<Rightarrow> (string \<times> string) list" where
  "api_map self_arg fs = map (\<lambda>f. (the (e_name f), api_text self_arg f)) fs"

lemma eal_args_eq:
  assumes "\<forall>a\<in>set as. arg_type a \<noteq> None"
  shows "eal_args k as = Done (if \<forall>a\<in>set as. primitive (arg_type a) then Some (rust_args k as) else None)"
  using assms by (induction as arbitrary: k) (auto simp: rust_args_def primitive_def split: option.splits)

lemma api_map_names:
  assumes "\<forall>f\<in>set fs. e_name f \<noteq> None"
  shows "n \<in> fst ` set (api_map s fs) \<longleftrightarrow> Some n \<in> e_name ` set fs"
  using assms by (force simp: api_map_def image_iff)

lemma eal_function_eq:
  assumes "\<forall>a\<in>set (args_of f). arg_type a \<noteq> None" and "e_kind f = FunctionDecl"
    and "\<forall>f\<in>set fs. e_name f \<noteq> None"
  shows "eal_function f (api_map ''&self, '' fs, api_map [] fs) =
     (let fs' = (if trivial_api f \<and> e_name f \<notin> e_name ` set fs then fs @ [f] else fs)
      in Done (api_map ''&self, '' fs', api_map [] fs'))"
proof (cases "\<exists>n s r. e_name f = Some n \<and> e_storage f = Some s \<and> e_result_type f = Some r")
  case False
  then show ?thesis
    by (auto simp: eal_function_def trivial_api_def primitive_def Let_def split: option.splits)
next
  case True
  then obtain n s r where f: "e_name f = Some n" "e_storage f = Some s" "e_result_type f = Some r" by auto
  have "eal_args 0 (case e_arguments f of Some as \<Rightarrow> as | None \<Rightarrow> []) =
     Done (if \<forall>a\<in>set (args_of f). primitive (arg_type a) then Some (rust_args 0 (args_of f)) else None)"
    using eal_args_eq[OF assms(1), of 0] by (simp add: args_of_def)
  then show ?thesis using f assms(2) api_map_names[OF assms(3)]
    by (auto simp: eal_function_def trivial_api_def primitive_def Let_def starts_with_def api_map_def
        api_text_def split: option.splits)
qed

interpretation eal: first_declaration eal_functions eal_function
  "\<lambda>fs. (api_map ''&self, '' fs, api_map [] fs)" "\<lambda>f. \<forall>a\<in>set (args_of f). arg_type a \<noteq> None" trivial_api
  by unfold_locales (auto simp: eal_function_eq Let_def trivial_api_def)

lemma eal_functions_apis:
  "args_typed es \<Longrightarrow> eal_functions es ([], []) =
     Done (api_map ''&self, '' (trivial_apis es), api_map [] (trivial_apis es))"
  using eal.loop_eq[of es] by (simp add: api_map_def args_typed_def trivial_apis_def)

definition hash_ok :: "host \<Rightarrow> bool" where
  "hash_ok h \<longleftrightarrow> (\<forall>i xs. mset (hash_order h i xs) = mset xs)"

lemma mset_map_snd_hash: "hash_ok h \<Longrightarrow> mset (map snd (hash_order h i xs)) = mset (map snd xs)"
  by (simp add: hash_ok_def)

lemma trivial_apis_names:
  "distinct (map e_name (trivial_apis es))" "e_name ` set (trivial_apis es) = e_name ` {f \<in> set es. trivial_api f}"
  "\<forall>f\<in>set (trivial_apis es). f \<in> set es \<and> trivial_api f"
  using set_first_by[of e_name "filter trivial_api es"]
  by (auto simp: trivial_apis_def distinct_first_by)

lemma extract_eal_run:
  assumes "clang_available h" and "trans_unit_from_header h st w (out_path st @ [''dpdk.h'']) False = Done es"
    and "args_typed es"
  shows "extract_eal_apis h st w =
     Done (st\<lparr>eal_function_use_defs := map snd (hash_order h 0 (api_map ''&self, '' (trivial_apis es))),
              global_eal_function_use_defs := map snd (hash_order h 1 (api_map [] (trivial_apis es)))\<rparr>)"
  using assms by (simp add: extract_eal_apis_def eal_functions_apis)

text \<open>C24. The EAL functions: one text in each trait for every non-hidden static inline function of \<^verbatim>\<open>dpdk.h\<close> whose
  result and argument types are all primitive, the first declaration of a name counting, and no other; both
  traits hold the same functions.  The order of a \<^verbatim>\<open>HashMap\<close> only permutes the texts.\<close>

theorem eal_apis_exact:
  assumes "clang_available h" and "trans_unit_from_header h st w (out_path st @ [''dpdk.h'']) False = Done es"
    and "args_typed es" and "hash_ok h"
  shows "\<exists>defs global. extract_eal_apis h st w =
       Done (st\<lparr>eal_function_use_defs := defs, global_eal_function_use_defs := global\<rparr>) \<and>
     mset defs = mset (map (api_text ''&self, '') (trivial_apis es)) \<and>
     mset global = mset (map (api_text []) (trivial_apis es)) \<and>
     distinct (map e_name (trivial_apis es)) \<and>
     e_name ` set (trivial_apis es) = e_name ` {f \<in> set es. trivial_api f}"
  using extract_eal_run[OF assms(1-3)] trivial_apis_names[of es]
    mset_map_snd_hash[OF assms(4), of 0 "api_map ''&self, '' (trivial_apis es)"]
    mset_map_snd_hash[OF assms(4), of 1 "api_map [] (trivial_apis es)"]
  by (intro exI[of _ "map snd (hash_order h 0 (api_map ''&self, '' (trivial_apis es)))"]
      exI[of _ "map snd (hash_order h 1 (api_map [] (trivial_apis es)))"])
    (simp add: api_map_def comp_def)

end
