(* ===== verification/Build_Static.thy ===== *)
theory Build_Static
  imports Build_Eal
begin

text \<open>
  The build script of the DPDK crate, third part: \<^verbatim>\<open>generate_static_impls_and_link_pmds\<close>.  It writes a wrapper for every
  inline function, and finds the values of the macros that are integer constants by compiling and running a test
  program for each, on several threads that take the names from one queue.
\<close>

section \<open>Wrappers of the inline functions\<close>

fun format_arg :: "ctype \<Rightarrow> string \<Rightarrow> string outcome" where
  "format_arg (DependentSizedArray _) name = Panic"
| "format_arg (VariableArray _) name = Panic"
| "format_arg (ConstantArray _ elem_type array_size) name =
     format_arg elem_type (name @ ''['' @ show_dec array_size @ '']'')"
| "format_arg (IncompleteArray _ elem_type) name = format_arg elem_type (name @ ''[]'')"
| "format_arg (OtherType d) name = Done (d @ '' '' @ name)"

text \<open>For every argument its declaration and its name.\<close>

fun static_args :: "nat \<Rightarrow> carg list \<Rightarrow> (string \<times> string) list outcome" where
  "static_args counter [] = Done []"
| "static_args counter (a # as) =
     andthen (unwrap (arg_type a)) (\<lambda>ty.
     andthen (format_arg ty (arg_name counter a)) (\<lambda>decl.
     andthen (static_args (counter + 1) as) (\<lambda>rest.
     Done ((decl, arg_name counter a) # rest))))"

definition static_def :: "string \<Rightarrow> string \<Rightarrow> string list \<Rightarrow> string" where
  "static_def ret name args = ret @ '' '' @ PREFIX @ name @ '' ('' @ join_with '', '' args @ '')''"

definition static_impl :: "string \<Rightarrow> string list \<Rightarrow> string" where
  "static_impl name params = ''{ return '' @ name @ ''('' @ join_with '', '' params @ ''); }''"

record static_lists =
  fn_names :: "string list"
  static_def_list :: "string list"
  static_impl_list :: "string list"

definition static_function :: "entity \<Rightarrow> static_lists \<Rightarrow> static_lists outcome" where
  "static_function f l =
     (case (e_name f, e_storage f, e_result_type f) of
        (Some name, Some storage, Some return_type) \<Rightarrow>
          if storage = Static \<and> e_is_declaration f \<and> e_is_inline f \<and> \<not> starts_with name ''_'' then
            if name \<in> set (fn_names l) then Done l
            else andthen (static_args 0 (case e_arguments f of Some as \<Rightarrow> as | None \<Rightarrow> [])) (\<lambda>as.
              Done \<lparr>fn_names = fn_names l @ [name],
                static_def_list = static_def_list l @ [static_def (display_name return_type) name (map fst as)],
                static_impl_list = static_impl_list l @ [static_impl name (map snd as)]\<rparr>)
          else Done l
      | _ \<Rightarrow> Done l)"

fun static_functions_of :: "entity list \<Rightarrow> static_lists \<Rightarrow> static_lists outcome" where
  "static_functions_of [] l = Done l"
| "static_functions_of (f # fs) l =
     andthen (if e_kind f = FunctionDecl then static_function f l else Done l) (static_functions_of fs)"

section \<open>Candidates for constants\<close>

definition macro_pattern :: string where
  "macro_pattern = ''[A-Z][A-Z0-9]*(_[A-Z][A-Z0-9]*)*''"

definition macro_candidate :: "host \<Rightarrow> entity \<Rightarrow> string list" where
  "macro_candidate h f =
     (if e_kind f \<noteq> MacroDefinition then []
      else case e_name f of
        None \<Rightarrow> []
      | Some name \<Rightarrow>
        if e_is_builtin f then []
        else if e_is_function_like f then []
        else if \<not> re_is_match h macro_pattern name then []
        else [trim name])"

definition macro_candidates :: "host \<Rightarrow> entity list \<Rightarrow> string list" where
  "macro_candidates h es = sort_dedup (concat (map (macro_candidate h) es))"

section \<open>Probing one name\<close>

type_synonym macro_const = "string \<times> string \<times> u64"

definition try_args :: "(string \<times> string) list" where
  "try_args = [(''U64_FMT'', ''u64''), (''ULL_FMT'', ''u64''), (''U32_FMT'', ''u32'')]"

record probe_paths =
  pp_cc :: string
  pp_include :: string
  pp_output :: string
  pp_config :: path
  pp_out :: path
  pp_template :: path
  pp_start :: nat

definition target_bin_path :: "probe_paths \<Rightarrow> string \<Rightarrow> path" where
  "target_bin_path pp name = pp_out pp @ [''int_test_'' @ show_dec (pp_start pp) @ ''_'' @ name]"

definition probe_args :: "probe_paths \<Rightarrow> string \<Rightarrow> string \<Rightarrow> string \<Rightarrow> string list" where
  "probe_args pp config fmt_name name =
     [pp_cc pp, ''-Wall'', ''-Wextra'', ''-Werror'', ''-std=c99'', ''-I'' @ pp_include pp, ''-I'' @ pp_output pp,
      ''-imacros'', config, ''-march=native'', ''-D__CHECK_FMT='' @ fmt_name, ''-D__CHECK_VAL='' @ name,
      ''-o'', path_str (target_bin_path pp name), path_str (pp_template pp), ''-lrte_eal'']"

text \<open>\<^verbatim>\<open>if target_bin_path.exists() { remove_file(..).unwrap() }\<close> on what is at the target.  The target is a file of its
  own for every name, so what happens to it is local to the probe.\<close>

definition remove_target :: "fnode option \<Rightarrow> fnode option outcome" where
  "remove_target cell = (if cell = Some DirNode then Panic else Done None)"

fun try_formats :: "host \<Rightarrow> fs \<Rightarrow> probe_paths \<Rightarrow> string \<Rightarrow> (string \<times> string) list \<Rightarrow> fnode option
    \<Rightarrow> (macro_const option \<times> fnode option) outcome" where
  "try_formats h f pp name [] cell = Done (None, cell)"
| "try_formats h f pp name ((fmt_name, type_name) # fmts) cell =
     andthen (remove_target cell) (\<lambda>cell1.
     andthen (to_str (path_str (pp_config pp))) (\<lambda>config.
     case cc_run h f (probe_args pp config fmt_name name) of
       CcOk bin \<Rightarrow>
         andthen (unwrap (exec_program h bin)) (\<lambda>stdout.
         andthen (to_str stdout) (\<lambda>str.
         andthen (unwrap (parse_u64 (trim str))) (\<lambda>val.
         Done (Some (to_ascii_uppercase name, type_name, val), Some (FileNode bin)))))
     | _ \<Rightarrow> try_formats h f pp name fmts cell1))"

definition probe_name :: "host \<Rightarrow> fs \<Rightarrow> probe_paths \<Rightarrow> string \<Rightarrow> macro_const option outcome" where
  "probe_name h f pp name =
     andthen (try_formats h f pp name try_args (f (target_bin_path pp name))) (\<lambda>(return_value, cell).
     andthen (remove_target cell) (\<lambda>_. Done return_value))"

section \<open>The threads\<close>

text \<open>\<open>sched i\<close> is the thread that pops the \<open>i\<close>-th name.  Every thread keeps its results in the order of its pops; the
  script joins the threads in the order of their creation.  A panic of a thread reaches the script at the join.\<close>

definition results_of :: "(nat \<Rightarrow> nat) \<Rightarrow> 'r list \<Rightarrow> nat \<Rightarrow> 'r list" where
  "results_of sched rs t = map snd (filter (\<lambda>(i, r). sched i = t) (enumerate 0 rs))"

definition all_results :: "nat \<Rightarrow> (nat \<Rightarrow> nat) \<Rightarrow> 'r list \<Rightarrow> 'r list" where
  "all_results cpus sched rs = concat (map (results_of sched rs) [0..<cpus])"

fun probe_all :: "host \<Rightarrow> fs \<Rightarrow> probe_paths \<Rightarrow> string list \<Rightarrow> macro_const option list outcome" where
  "probe_all h f pp [] = Done []"
| "probe_all h f pp (n # ns) =
     andthen (probe_name h f pp n) (\<lambda>r. andthen (probe_all h f pp ns) (\<lambda>rs. Done (r # rs)))"

section \<open>Types of the constants\<close>

definition zero_prefix :: "macro_const \<Rightarrow> (string \<times> string) list" where
  "zero_prefix c = (case c of (name, int_type, val) \<Rightarrow>
     if val = 0 \<and> int_type = ''u32'' then
       let segs = split_on CHR ''_'' name in
       if length segs \<le> 3 then [] else [(name, join_with ''_'' (butlast segs) @ ''_'')]
     else [])"

definition zero_prefix_list :: "macro_const list \<Rightarrow> (string \<times> string) list" where
  "zero_prefix_list cs = sort_dedup (concat (map zero_prefix cs))"

definition change_of :: "(string \<times> string) list \<Rightarrow> macro_const \<Rightarrow> (string \<times> string) list" where
  "change_of zeros c = (case c of (other_name, other_int_type, _) \<Rightarrow>
     case List.find (\<lambda>(name, pre).
            other_name \<noteq> name \<and> starts_with other_name pre \<and> other_int_type = ''u64'') zeros of
       Some (name, _) \<Rightarrow> [(name, other_int_type)]
     | None \<Rightarrow> [])"

definition change_list :: "macro_const list \<Rightarrow> (string \<times> string) list" where
  "change_list cs = sort_dedup (concat (map (change_of (zero_prefix_list cs)) cs))"

fun apply_changes :: "(string \<times> string) list \<Rightarrow> macro_const \<Rightarrow> bworld \<Rightarrow> macro_const \<times> bworld" where
  "apply_changes [] c w = (c, w)"
| "apply_changes ((change_name, change_int_type) # changes) (name, int_type, val) w =
     (if name = change_name
      then apply_changes changes (name, change_int_type, val)
             (println (''cargo:warning=macro '' @ name @ '':'' @ show_dec (unat val) @ '', '' @ int_type @ '' -> '' @
                change_int_type) w)
      else apply_changes changes (name, int_type, val) w)"

fun retype_all :: "(string \<times> string) list \<Rightarrow> macro_const list \<Rightarrow> bworld \<Rightarrow> macro_const list \<times> bworld" where
  "retype_all changes [] w = ([], w)"
| "retype_all changes (c # cs) w =
     (let (c1, w1) = apply_changes changes c w; (cs1, w2) = retype_all changes cs w1 in (c1 # cs1, w2))"

definition constant_line :: "macro_const \<Rightarrow> string" where
  "constant_line c = (case c of (name, int_type, val) \<Rightarrow>
     ''pub const '' @ name @ '': '' @ int_type @ '' = '' @ show_dec (unat val) @ '';'')"

definition constants_text :: "macro_const list \<Rightarrow> string" where
  "constants_text cs =
     ''pub mod constants {'' @ newline @ join_with newline (map constant_line cs) @ newline @ ''}'' @ newline"

section \<open>The whole step\<close>

definition probe_paths_of :: "host \<Rightarrow> build_state \<Rightarrow> probe_paths outcome" where
  "probe_paths_of h st =
     andthen (unwrap (cc_path h)) (\<lambda>cc. andthen (to_str cc) (\<lambda>cc_name.
     andthen (unwrap (include_path st)) (\<lambda>inc.
     andthen (unwrap (dpdk_config st)) (\<lambda>config.
     andthen (to_str (path_str inc)) (\<lambda>dpdk_include.
     andthen (to_str (path_str (out_path st))) (\<lambda>output_include.
     Done \<lparr>pp_cc = cc_name, pp_include = dpdk_include, pp_output = output_include, pp_config = config,
       pp_out = out_path st, pp_template = project_path st @ [''gen'', ''int_test.c''],
       pp_start = start_millis h\<rparr>))))))"

definition find_constants :: "host \<Rightarrow> build_state \<Rightarrow> bworld \<Rightarrow> (macro_const list \<times> bworld) outcome" where
  "find_constants h st w =
     andthen (trans_unit_from_header h st w (out_path st @ [''dpdk.h'']) True) (\<lambda>es.
     let names = macro_candidates h es in
     andthen (probe_paths_of h st) (\<lambda>pp.
     andthen (probe_all h (files w) pp names) (\<lambda>rs.
     let results = all_results (num_cpus h) (worker_of h) rs;
         constants = List.map_filter id results;
         w1 = w\<lparr>files := fold (\<lambda>n f. f(target_bin_path pp n := None)) names (files w)\<rparr>;
         w2 = println (''cargo:warning=compile time: '' @ compile_seconds h @ ''s, '' @
                show_dec (length constants) @ ''/'' @ show_dec (length results) @ '' macros processed'') w1
     in Done (retype_all (change_list constants) constants w2))))"

definition static_texts :: "host \<Rightarrow> build_state \<Rightarrow> static_lists \<Rightarrow> bworld \<Rightarrow> bworld outcome" where
  "static_texts h st l w =
     (let header_defs = join_with newline (map (\<lambda>d. d @ '';'') (static_def_list l));
          static_impls = join_with newline
            (map (\<lambda>(d, b). d @ b) (zip (static_def_list l) (static_impl_list l)))
      in andthen (read_template (project_path st @ [''gen'', ''static.h.template'']) w) (\<lambda>template.
         andthen (write_target h (out_path st @ [''static.h''])
                    (replace_str ''%header_defs%'' header_defs template) w) (\<lambda>w1.
         andthen (read_template (project_path st @ [''gen'', ''static.c.template'']) w1) (\<lambda>template.
         write_target h (out_path st @ [''static.c''])
           (replace_str ''%static_impls%'' static_impls template) w1))))"

text \<open>The text of the constants: from the cache when the feature is on, otherwise found by probing.\<close>

definition constants_stage :: "host \<Rightarrow> build_state \<Rightarrow> bworld \<Rightarrow> (string \<times> bworld) outcome" where
  "constants_stage h st w =
     (if env_var h ''CARGO_FEATURE_CONSTANTS_CACHE'' \<noteq> None
      then let w1 = println ''cargo:warning=Using cached constants data'' w in
        andthen (read_template (project_path st @ [''gen'', ''constants.rs.cache'']) w1) (\<lambda>cache. Done (cache, w1))
      else andthen (find_constants h st w) (\<lambda>(cs, w1). Done (constants_text cs, w1)))"

definition generate_static_impls_and_link_pmds :: "host \<Rightarrow> build_state \<Rightarrow> bworld \<Rightarrow> (build_state \<times> bworld) outcome" where
  "generate_static_impls_and_link_pmds h st w =
     andthen (assert_that (clang_available h)) (\<lambda>_.
     andthen (trans_unit_from_header h st w (out_path st @ [''dpdk.h'']) False) (\<lambda>es.
     andthen (static_functions_of es \<lparr>fn_names = static_functions st, static_def_list = [],
                static_impl_list = []\<rparr>) (\<lambda>l.
     let st1 = st\<lparr>static_functions := fn_names l\<rparr> in
     andthen (constants_stage h st1 w) (\<lambda>(body, w2).
     andthen (static_texts h st1 l w2) (\<lambda>w3.
     Done (st1\<lparr>static_constants := body\<rparr>, w3))))))"

section \<open>Declarations of arguments\<close>

text \<open>The base type of an array type and its dimensions from the outermost in, in the order C declares them.\<close>

primrec dims :: "ctype \<Rightarrow> nat option list" where
  "dims (ConstantArray _ t n) = Some n # dims t"
| "dims (IncompleteArray _ t) = None # dims t"
| "dims (VariableArray _) = []"
| "dims (DependentSizedArray _) = []"
| "dims (OtherType _) = []"

primrec base_name :: "ctype \<Rightarrow> string" where
  "base_name (ConstantArray _ t _) = base_name t"
| "base_name (IncompleteArray _ t) = base_name t"
| "base_name (VariableArray d) = d"
| "base_name (DependentSizedArray d) = d"
| "base_name (OtherType d) = d"

primrec constant_sized :: "ctype \<Rightarrow> bool" where
  "constant_sized (ConstantArray _ t _) = constant_sized t"
| "constant_sized (IncompleteArray _ t) = constant_sized t"
| "constant_sized (VariableArray _) = False"
| "constant_sized (DependentSizedArray _) = False"
| "constant_sized (OtherType _) = True"

definition dim_text :: "nat option \<Rightarrow> string" where
  "dim_text n = (case n of Some k \<Rightarrow> ''['' @ show_dec k @ '']'' | None \<Rightarrow> ''[]'')"

text \<open>Reading the C declaration \<^verbatim>\<open>base name[n]...[m]\<close> of a parameter.  The base, which precedes the last space, must be a type that
  is written entirely before the name: no parenthesis, bracket, comma or semicolon.  (The declaration of a pointer to a
  function or to an array has the name inside the type.)  The name is an identifier, and what follows it are dimensions: brackets
  with a number or nothing in between.\<close>

definition plain_type :: "string \<Rightarrow> bool" where
  "plain_type s \<longleftrightarrow> s \<noteq> [] \<and> set s \<inter> set ''()[]{},;'' = {}"

definition ident_char :: "char \<Rightarrow> bool" where
  "ident_char c \<longleftrightarrow> is_digit c \<or> c = CHR ''_'' \<or> (65 \<le> byte c \<and> byte c \<le> 90) \<or> (97 \<le> byte c \<and> byte c \<le> 122)"

definition c_identifier :: "string \<Rightarrow> bool" where
  "c_identifier s \<longleftrightarrow> s \<noteq> [] \<and> \<not> is_digit (hd s) \<and> list_all ident_char s"

fun read_dims :: "string option \<Rightarrow> string \<Rightarrow> nat option list option" where
  "read_dims None [] = Some []"
| "read_dims None (c # s) = (if c = CHR ''['' then read_dims (Some []) s else None)"
| "read_dims (Some ds) [] = None"
| "read_dims (Some ds) (c # s) =
     (if is_digit c then read_dims (Some (ds @ [c])) s
      else if c = CHR '']'' then map_option (Cons (if ds = [] then None else Some (dec_value ds))) (read_dims None s)
      else None)"

definition read_decl :: "string \<Rightarrow> (string \<times> string \<times> nat option list) option" where
  "read_decl s =
     (let d = rev (takeWhile (\<lambda>c. c \<noteq> CHR '' '') (rev s)); base = rev (tl (dropWhile (\<lambda>c. c \<noteq> CHR '' '') (rev s)));
          name = takeWhile ident_char d
      in case read_dims None (dropWhile ident_char d) of
           Some ds \<Rightarrow> if plain_type base \<and> c_identifier name then Some (base, name, ds) else None
         | None \<Rightarrow> None)"

lemma format_arg_eq:
  "format_arg ty name =
     (if constant_sized ty then Done (base_name ty @ '' '' @ name @ concat (map dim_text (dims ty))) else Panic)"
  by (induction ty arbitrary: name) (simp_all add: dim_text_def)

lemma digits_no_space: "c \<in> set (show_dec n) \<Longrightarrow> c \<noteq> CHR '' ''"
  using show_dec_digits[of n] by (auto simp: list_all_iff is_digit_def)

lemma dim_text_no_space: "CHR '' '' \<notin> set (concat (map dim_text ds))"
  using digits_no_space by (auto simp: dim_text_def split: option.splits)

lemma read_digits: "list_all is_digit ns \<Longrightarrow> read_dims (Some ds) (ns @ s) = read_dims (Some (ds @ ns)) s"
  by (induction ns arbitrary: ds) auto

lemma read_dims_text: "read_dims None (concat (map dim_text ds)) = Some ds"
proof (induction ds)
  case (Cons d ds)
  let ?rest = "concat (map dim_text ds)"
  have close: "\<not> is_digit (CHR '']'')" by (simp add: is_digit_def)
  have dt: "dim_text None = ''[]''" "\<And>k. dim_text (Some k) = CHR ''['' # show_dec k @ '']''" by (simp_all add: dim_text_def)
  show ?case
  proof (cases d)
    case None
    then show ?thesis using Cons.IH close by (simp add: dt)
  next
    case (Some k)
    have "list_all is_digit (show_dec k)" by (rule show_dec_digits)
    from read_digits[OF this, of "[]" "CHR '']'' # ?rest"] Some Cons.IH close show ?thesis
      by (simp add: dt)
  qed
qed simp

lemma takeWhile_rev_tail:
  assumes "P x = False" and "\<forall>c\<in>set ys. P c"
  shows "takeWhile P (rev (xs @ x # ys)) = rev ys" "dropWhile P (rev (xs @ x # ys)) = x # rev xs"
  using assms by (simp_all add: takeWhile_append dropWhile_append)


section \<open>The wrappers\<close>

definition static_api :: "entity \<Rightarrow> bool" where
  "static_api f \<longleftrightarrow> e_kind f = FunctionDecl \<and> e_storage f = Some Static \<and> e_is_declaration f \<and> e_is_inline f \<and>
     (\<exists>n. e_name f = Some n \<and> \<not> prefix ''_'' n) \<and> e_result_type f \<noteq> None"

definition static_apis :: "entity list \<Rightarrow> entity list" where
  "static_apis es = first_by e_name (filter static_api es)"

text \<open>Every argument has a type, and no array type of variable size.\<close>

definition args_declarable :: "entity \<Rightarrow> bool" where
  "args_declarable f \<longleftrightarrow> (\<forall>a\<in>set (args_of f). \<exists>t. arg_type a = Some t \<and> constant_sized t)"

definition arg_decl :: "nat \<Rightarrow> carg \<Rightarrow> string" where
  "arg_decl i a = (let t = the (arg_type a) in base_name t @ '' '' @ arg_name i a @ concat (map dim_text (dims t)))"

definition wrapper_def :: "entity \<Rightarrow> string" where
  "wrapper_def f = static_def (display_name (the (e_result_type f))) (the (e_name f))
     (map (\<lambda>(i, a). arg_decl i a) (enumerate 0 (args_of f)))"

definition wrapper_impl :: "entity \<Rightarrow> string" where
  "wrapper_impl f = static_impl (the (e_name f)) (map (\<lambda>(i, a). arg_name i a) (enumerate 0 (args_of f)))"

definition lists_of :: "entity list \<Rightarrow> static_lists" where
  "lists_of fs = \<lparr>fn_names = map (\<lambda>f. the (e_name f)) fs, static_def_list = map wrapper_def fs,
     static_impl_list = map wrapper_impl fs\<rparr>"

lemma static_args_eq:
  assumes "\<forall>a\<in>set as. \<exists>t. arg_type a = Some t \<and> constant_sized t"
  shows "static_args k as = Done (map (\<lambda>(i, a). (arg_decl i a, arg_name i a)) (enumerate k as))"
  using assms by (induction as arbitrary: k) (auto simp: format_arg_eq arg_decl_def)

lemma static_function_eq:
  assumes "args_declarable f" and "e_kind f = FunctionDecl" and "\<forall>g\<in>set fs. e_name g \<noteq> None"
  shows "static_function f (lists_of fs) =
     Done (lists_of (if static_api f \<and> e_name f \<notin> e_name ` set fs then fs @ [f] else fs))"
proof (cases "\<exists>n s r. e_name f = Some n \<and> e_storage f = Some s \<and> e_result_type f = Some r")
  case False
  then show ?thesis by (auto simp: static_function_def static_api_def split: option.splits)
next
  case True
  then obtain n s r where f: "e_name f = Some n" "e_storage f = Some s" "e_result_type f = Some r" by auto
  have args: "static_args 0 (case e_arguments f of Some as \<Rightarrow> as | None \<Rightarrow> []) =
     Done (map (\<lambda>(i, a). (arg_decl i a, arg_name i a)) (enumerate 0 (args_of f)))"
    using static_args_eq[of "args_of f" 0] assms(1) by (simp add: args_declarable_def args_of_def)
  have "n \<in> set (fn_names (lists_of fs)) \<longleftrightarrow> Some n \<in> e_name ` set fs"
    using assms(3) by (force simp: lists_of_def image_iff)
  then show ?thesis using f args assms(2)
    by (auto simp: static_function_def static_api_def starts_with_def lists_of_def wrapper_def_def
        wrapper_impl_def split_def comp_def)
qed

lemma static_args_panic: "\<not> (\<forall>a\<in>set as. \<exists>t. arg_type a = Some t \<and> constant_sized t) \<Longrightarrow> static_args k as = Panic"
proof (induction as arbitrary: k)
  case (Cons a as)
  show ?case
  proof (cases "\<exists>t. arg_type a = Some t \<and> constant_sized t")
    case True
    with Cons show ?thesis by (auto simp: format_arg_eq)
  next
    case False
    then show ?thesis by (cases "arg_type a") (auto simp: format_arg_eq)
  qed
qed simp

lemma new_name:
  assumes "\<forall>g\<in>set fs. e_name g \<noteq> None" and "e_name f = Some n"
  shows "n \<in> set (fn_names (lists_of fs)) \<longleftrightarrow> e_name f \<in> e_name ` set fs"
  using assms by (force simp: lists_of_def image_iff)

lemma static_function_skip:
  assumes "e_kind f = FunctionDecl" and "\<forall>g\<in>set fs. e_name g \<noteq> None" and "\<not> (static_api f \<and> e_name f \<notin> e_name ` set fs)"
  shows "static_function f (lists_of fs) = Done (lists_of fs)"
  using assms new_name[OF assms(2), of f]
  by (auto simp: static_function_def static_api_def starts_with_def split: option.splits)

lemma static_function_panic:
  assumes "\<forall>g\<in>set fs. e_name g \<noteq> None" and "static_api f" and "e_name f \<notin> e_name ` set fs" and "\<not> args_declarable f"
  shows "static_function f (lists_of fs) = Panic"
proof -
  have "static_args 0 (case e_arguments f of Some as \<Rightarrow> as | None \<Rightarrow> []) = Panic"
    using static_args_panic[of "args_of f" 0] assms(4) by (simp add: args_declarable_def args_of_def)
  then show ?thesis using assms(2,3) new_name[OF assms(1), of f]
    by (auto simp: static_function_def static_api_def starts_with_def)
qed

interpretation static: first_declaration_strict static_functions_of static_function lists_of args_declarable static_api
  by unfold_locales (auto simp: static_function_eq static_function_skip static_function_panic, auto simp: static_api_def)

lemma static_functions_apis:
  "static_functions_of es \<lparr>fn_names = [], static_def_list = [], static_impl_list = []\<rparr> =
     (if \<forall>f\<in>set (static_apis es). args_declarable f then Done (lists_of (static_apis es)) else Panic)"
  using static.loop_exact[of es] by (simp add: lists_of_def static_apis_def)

lemma static_apis_names:
  "distinct (fn_names (lists_of (static_apis es)))"
  "set (fn_names (lists_of (static_apis es))) = {n. \<exists>f\<in>set es. static_api f \<and> e_name f = Some n}"
proof -
  let ?fs = "static_apis es"
  have named: "\<forall>f\<in>set ?fs. e_name f = Some (the (e_name f))" and names: "e_name ` set ?fs = e_name ` {f \<in> set es. static_api f}"
    using set_first_by[of e_name "filter static_api es"] by (auto simp: static_apis_def static_api_def)
  have maps: "map e_name ?fs = map Some (fn_names (lists_of ?fs))" using named by (simp add: lists_of_def)
  have "distinct (map e_name ?fs)" by (simp add: static_apis_def distinct_first_by)
  with maps show "distinct (fn_names (lists_of ?fs))" by (metis distinct_map)
  from maps have "Some ` set (fn_names (lists_of ?fs)) = e_name ` {f \<in> set es. static_api f}"
    unfolding names[symmetric] by (metis list.set_map)
  then have "n \<in> set (fn_names (lists_of ?fs)) \<longleftrightarrow> Some n \<in> e_name ` {f \<in> set es. static_api f}" for n
    by blast
  then show "set (fn_names (lists_of ?fs)) = {n. \<exists>f\<in>set es. static_api f \<and> e_name f = Some n}"
    by (auto simp: image_iff) metis+
qed

text \<open>The three templates are files of the project, the generated files are elsewhere.\<close>

definition template_at :: "build_state \<Rightarrow> bworld \<Rightarrow> string \<Rightarrow> string \<Rightarrow> bool" where
  "template_at st w n t \<longleftrightarrow> files w (project_path st @ [''gen'', n]) = Some (FileNode t) \<and> is_utf8 t"

lemma template_read [exec_simps]:
  "template_at st w n t \<Longrightarrow> read_template (project_path st @ [''gen'', n]) w = Done t"
  by (simp add: template_at_def read_template_file)

lemma template_other: "m \<noteq> n \<Longrightarrow> template_at st (set_file (d @ [m]) s w) n t \<longleftrightarrow> template_at st w n t"
  by (auto simp: template_at_def)

text \<open>The texts of the wrappers: what \<^verbatim>\<open>static.h\<close> and \<^verbatim>\<open>static.c\<close> hold.\<close>

definition static_h_text :: "entity list \<Rightarrow> string \<Rightarrow> string" where
  "static_h_text es th = replace_str ''%header_defs%'' (join_with newline (map (\<lambda>f. wrapper_def f @ '';'') (static_apis es))) th"

definition static_c_text :: "entity list \<Rightarrow> string \<Rightarrow> string" where
  "static_c_text es tc =
     replace_str ''%static_impls%'' (join_with newline (map (\<lambda>f. wrapper_def f @ wrapper_impl f) (static_apis es))) tc"

lemma static_texts_run:
  "static_texts h st (lists_of (static_apis es)) w =
     (let f = files w; gen = project_path st @ [''gen'']; out = out_path st
      in if f (gen @ [''static.h.template'']) = None \<or> \<not> can_create h (out @ [''static.h'']) \<or>
           f (gen @ [''static.c.template'']) = None \<or> \<not> can_create h (out @ [''static.c'']) then Panic
         else Done (written h (out @ [''static.c'']) (static_c_text es (template_text f (gen @ [''static.c.template''])))
           (written h (out @ [''static.h'']) (static_h_text es (template_text f (gen @ [''static.h.template'']))) w)))"
proof -
  have "map (\<lambda>(d, b). d @ b) (zip (map wrapper_def fs) (map wrapper_impl fs)) = map (\<lambda>f. wrapper_def f @ wrapper_impl f) fs"
    for fs by (induction fs) simp_all
  moreover have "template_text (f(out_path st @ [''static.h''] \<mapsto> n)) (project_path st @ [''gen'', ''static.c.template'']) =
      template_text f (project_path st @ [''gen'', ''static.c.template''])" for f :: fs and n
    by (simp add: template_text_def)
  ultimately show ?thesis
    by (simp add: static_texts_def read_template_eq write_target_eq lists_of_def comp_def static_h_text_def static_c_text_def Let_def)
qed

text \<open>C16. The wrappers.  \<^verbatim>\<open>static.h\<close> has one prototype line and \<^verbatim>\<open>static.c\<close> one definition text with a prefixed name for every non-hidden static
  inline function of \<^verbatim>\<open>dpdk.h\<close>, the first declaration of a name counting, and no other; the body calls the
  original with the parameters of the wrapper in their order.  \<^verbatim>\<open>static_functions\<close> lists their names, each once.  (The lines are C
  unless a parameter is a pointer to a function or an array, see the property on the declarations of arguments.)  The pass over the declarations panics exactly when an
  argument of one of these functions has no type or is an array of variable or dependent size; writing the files panics exactly when one of the
  templates is missing or one of the files cannot be created.  The files hold what reached the disk of these texts.\<close>

theorem static_wrappers_exact:
  "if \<forall>f\<in>set (static_apis es). args_declarable f
   then \<exists>l h_text c_text. static_functions_of es \<lparr>fn_names = [], static_def_list = [], static_impl_list = []\<rparr> = Done l \<and>
     distinct (fn_names l) \<and> set (fn_names l) = {n. \<exists>f\<in>set es. static_api f \<and> e_name f = Some n} \<and>
     h_text = replace_str ''%header_defs%'' (join_with newline (map (\<lambda>f. wrapper_def f @ '';'') (static_apis es)))
       (template_text (files w) (project_path st @ [''gen'', ''static.h.template''])) \<and>
     c_text = replace_str ''%static_impls%'' (join_with newline (map (\<lambda>f. wrapper_def f @ wrapper_impl f) (static_apis es)))
       (template_text (files w) (project_path st @ [''gen'', ''static.c.template''])) \<and>
     static_texts h st l w =
       (if files w (project_path st @ [''gen'', ''static.h.template'']) = None \<or> \<not> can_create h (out_path st @ [''static.h'']) \<or>
          files w (project_path st @ [''gen'', ''static.c.template'']) = None \<or> \<not> can_create h (out_path st @ [''static.c'']) then Panic
        else Done (w\<lparr>files := (files w)(
          out_path st @ [''static.h''] \<mapsto> FileNode (disk_write h (out_path st @ [''static.h'']) h_text),
          out_path st @ [''static.c''] \<mapsto> FileNode (disk_write h (out_path st @ [''static.c'']) c_text))\<rparr>))
   else static_functions_of es \<lparr>fn_names = [], static_def_list = [], static_impl_list = []\<rparr> = Panic"
proof (cases "\<forall>f\<in>set (static_apis es). args_declarable f")
  case True
  then show ?thesis using static_apis_names[of es] static_texts_run[of h st es w]
    by (simp add: static_functions_apis static_h_text_def static_c_text_def Let_def written_def set_file_def)
next
  case False
  show ?thesis unfolding static_functions_apis if_not_P[OF False] by (rule refl)
qed

end
