(* ===== verification/Build_Consts.thy ===== *)
theory Build_Consts
  imports Build_Static
begin

text \<open>
  What the constants pass of the build script (\<open>Build_Static\<close>) computes: the threads as a step relation and the
  results they leave for any interleaving, and the types the constants end up with.
\<close>

section \<open>The threads\<close>

text \<open>The names still in the queue, and what each thread has collected.  A thread pops a name and pushes its result.\<close>

inductive worker_step :: "nat \<Rightarrow> ('n \<Rightarrow> 'r) \<Rightarrow> 'n list \<times> (nat \<Rightarrow> 'r list) \<Rightarrow> 'n list \<times> (nat \<Rightarrow> 'r list) \<Rightarrow> bool"
  for cpus g where
  pop: "t < cpus \<Longrightarrow> worker_step cpus g (n # ns, R) (ns, R(t := R t @ [g n]))"

inductive_cases worker_stepE: "worker_step cpus g (ns, R) s"

definition results_from :: "nat \<Rightarrow> (nat \<Rightarrow> nat) \<Rightarrow> 'r list \<Rightarrow> nat \<Rightarrow> 'r list" where
  "results_from k sched rs t = map snd (filter (\<lambda>(i, r). sched i = t) (enumerate k rs))"

lemma results_from_simps:
  "results_from k sched [] t = []"
  "results_from k sched (r # rs) t = (if sched k = t then [r] else []) @ results_from (Suc k) sched rs t"
  by (simp_all add: results_from_def)

lemma results_of_from: "results_of sched rs = results_from 0 sched rs"
  by (rule ext) (simp add: results_of_def results_from_def)

lemma results_from_shift: "results_from (Suc k) sched rs t = results_from k (\<lambda>i. sched (Suc i)) rs t"
  by (induction rs arbitrary: k) (simp_all add: results_from_simps)

lemma worker_run_sched:
  assumes "(worker_step cpus g)\<^sup>*\<^sup>* (ns, R) ([], R')"
  shows "\<exists>sched. (\<forall>i<length ns. sched i < cpus) \<and> R' = (\<lambda>t. R t @ results_from 0 sched (map g ns) t)"
  using assms
proof (induction ns arbitrary: R)
  case Nil
  then have "R' = R" by (auto elim: converse_rtranclpE worker_stepE)
  then show ?case by (simp add: results_from_simps)
next
  case (Cons n ns)
  from Cons.prems obtain t where t: "t < cpus"
    and rest: "(worker_step cpus g)\<^sup>*\<^sup>* (ns, R(t := R t @ [g n])) ([], R')"
    by (cases rule: converse_rtranclpE) (auto elim: worker_stepE)
  obtain sched where sched: "\<forall>i<length ns. sched i < cpus"
    "R' = (\<lambda>u. (R(t := R t @ [g n])) u @ results_from 0 sched (map g ns) u)"
    using Cons.IH[OF rest] by blast
  let ?sched = "\<lambda>i. case i of 0 \<Rightarrow> t | Suc j \<Rightarrow> sched j"
  have "\<forall>i<length (n # ns). ?sched i < cpus" using t sched(1) by (auto split: nat.splits)
  moreover have "R' = (\<lambda>u. R u @ results_from 0 ?sched (map g (n # ns)) u)"
    unfolding sched(2) by (rule ext) (simp add: results_from_simps results_from_shift)
  ultimately show ?case by blast
qed

lemma sched_worker_run:
  assumes "\<forall>i. k \<le> i \<and> i < k + length ns \<longrightarrow> sched i < cpus"
  shows "(worker_step cpus g)\<^sup>*\<^sup>* (ns, R) ([], \<lambda>t. R t @ results_from k sched (map g ns) t)"
  using assms
proof (induction ns arbitrary: k R)
  case Nil
  then show ?case by (simp add: results_from_simps)
next
  case (Cons n ns)
  let ?R = "R(sched k := R (sched k) @ [g n])"
  have "worker_step cpus g (n # ns, R) (ns, ?R)" using Cons.prems by (intro worker_step.pop) simp
  moreover have "(worker_step cpus g)\<^sup>*\<^sup>* (ns, ?R) ([], \<lambda>t. ?R t @ results_from (Suc k) sched (map g ns) t)"
    using Cons.prems by (intro Cons.IH) simp
  moreover have "(\<lambda>t. ?R t @ results_from (Suc k) sched (map g ns) t) =
      (\<lambda>t. R t @ results_from k sched (map g (n # ns)) t)"
    by (rule ext) (simp add: results_from_simps)
  ultimately show ?case by (metis converse_rtranclp_into_rtranclp)
qed

lemma mset_concat_upt: "mset (concat (map F [0..<c])) = (\<Sum>t<c. mset (F t))"
  by (induction c) (simp_all add: add.commute)

lemma mset_results_from:
  assumes "\<forall>i. k \<le> i \<and> i < k + length rs \<longrightarrow> sched i < cpus"
  shows "(\<Sum>t<cpus. mset (results_from k sched rs t)) = mset rs"
  using assms
proof (induction rs arbitrary: k)
  case Nil
  then show ?case by (simp add: results_from_simps)
next
  case (Cons r rs)
  have "(\<Sum>t<cpus. mset (results_from k sched (r # rs) t)) =
      (\<Sum>t<cpus. (if sched k = t then {#r#} else {#})) + (\<Sum>t<cpus. mset (results_from (Suc k) sched rs t))"
    unfolding sum.distrib[symmetric] by (rule sum.cong) (simp_all add: results_from_simps)
  also have "\<dots> = {#r#} + mset rs"
    using Cons.prems Cons.IH[of "Suc k"] by simp
  finally show ?case by simp
qed

lemma mset_all_results:
  assumes "\<forall>i<length rs. sched i < cpus"
  shows "mset (all_results cpus sched rs) = mset rs"
  using mset_results_from[of 0 rs sched cpus] assms
  by (simp add: all_results_def results_of_from mset_concat_upt)

text \<open>C23. The threads that probe the macros: every run that empties the queue, whatever the interleaving of the pops,
  leaves exactly the results of the names, each once; it is one of the schedules of the model, and every
  schedule is such a run.\<close>

theorem worker_runs_are_schedules:
  "((worker_step cpus g)\<^sup>*\<^sup>* (names, \<lambda>_. []) ([], R) \<longleftrightarrow>
     (\<exists>sched. (\<forall>i<length names. sched i < cpus) \<and> R = results_of sched (map g names))) \<and>
   ((worker_step cpus g)\<^sup>*\<^sup>* (names, \<lambda>_. []) ([], R) \<longrightarrow>
     mset (concat (map R [0..<cpus])) = mset (map g names))"
proof -
  have iff: "(worker_step cpus g)\<^sup>*\<^sup>* (names, \<lambda>_. []) ([], R) \<longleftrightarrow>
     (\<exists>sched. (\<forall>i<length names. sched i < cpus) \<and> R = results_of sched (map g names))"
    using worker_run_sched[of cpus g names "\<lambda>_. []" R] sched_worker_run[of 0 names _ cpus g "\<lambda>_. []"]
    by (auto simp: results_of_from)
  moreover have "mset (concat (map (results_of sched (map g names)) [0..<cpus])) = mset (map g names)"
    if "\<forall>i<length names. sched i < cpus" for sched
    using mset_all_results[of "map g names" sched cpus] that by (simp add: all_results_def)
  ultimately show ?thesis by auto
qed

section \<open>Types\<close>

text \<open>A constant that was found to be zero as \<^verbatim>\<open>u32\<close>, with the text its family starts with.\<close>

definition zero_family :: "macro_const list \<Rightarrow> string \<Rightarrow> string \<Rightarrow> bool" where
  "zero_family cs n pre \<longleftrightarrow> (n, ''u32'', 0) \<in> set cs \<and> 3 < length (split_on CHR ''_'' n) \<and>
     pre = join_with ''_'' (butlast (split_on CHR ''_'' n)) @ ''_''"

definition in_family :: "string \<Rightarrow> string \<Rightarrow> string \<Rightarrow> bool" where
  "in_family other n pre \<longleftrightarrow> other \<noteq> n \<and> prefix pre other"

text \<open>The name is widened: some \<^verbatim>\<open>u64\<close> constant is of its family, and of no family of a zero that sorts before it.\<close>

definition widened :: "macro_const list \<Rightarrow> string \<Rightarrow> bool" where
  "widened cs n \<longleftrightarrow> (\<exists>pre other v. zero_family cs n pre \<and> (other, ''u64'', v) \<in> set cs \<and> in_family other n pre \<and>
     (\<forall>m q. zero_family cs m q \<and> in_family other m q \<longrightarrow> (n, pre) \<le> (m, q)))"

lemma set_zero_prefix_list: "(n, pre) \<in> set (zero_prefix_list cs) \<longleftrightarrow> zero_family cs n pre"
  by (force simp: zero_prefix_list_def zero_prefix_def zero_family_def Let_def split: if_splits)

lemma find_sorted:
  "sorted (xs :: 'a::linorder list) \<Longrightarrow>
     List.find P xs = Some x \<longleftrightarrow> x \<in> set xs \<and> P x \<and> (\<forall>y\<in>set xs. P y \<longrightarrow> x \<le> y)"
proof (induction xs)
  case (Cons a xs)
  show ?case
  proof (cases "P a")
    case True
    with Cons.prems show ?thesis by (auto intro: order.antisym)
  next
    case False
    with Cons show ?thesis by auto
  qed
qed simp

lemma change_of_iff:
  assumes "sorted zs"
  shows "(n, ty) \<in> set (change_of zs (other, oty, v)) \<longleftrightarrow>
     oty = ''u64'' \<and> ty = oty \<and> (\<exists>pre. (n, pre) \<in> set zs \<and> in_family other n pre \<and>
       (\<forall>m q. (m, q) \<in> set zs \<and> in_family other m q \<longrightarrow> (n, pre) \<le> (m, q)))"
proof -
  let ?P = "\<lambda>(name, pre). other \<noteq> name \<and> starts_with other pre \<and> oty = ''u64''"
  have "(n, ty) \<in> set (change_of zs (other, oty, v)) \<longleftrightarrow> ty = oty \<and> (\<exists>pre. List.find ?P zs = Some (n, pre))"
    by (cases "List.find ?P zs") (auto simp: change_of_def split: prod.splits)
  also have "\<dots> \<longleftrightarrow> ty = oty \<and> (\<exists>pre. (n, pre) \<in> set zs \<and> ?P (n, pre) \<and> (\<forall>y\<in>set zs. ?P y \<longrightarrow> (n, pre) \<le> y))"
    by (simp only: find_sorted[OF assms])
  also have "\<dots> \<longleftrightarrow> oty = ''u64'' \<and> ty = oty \<and> (\<exists>pre. (n, pre) \<in> set zs \<and> in_family other n pre \<and>
       (\<forall>m q. (m, q) \<in> set zs \<and> in_family other m q \<longrightarrow> (n, pre) \<le> (m, q)))"
    by (auto simp: in_family_def starts_with_def Ball_def split_paired_All simp del: less_eq_prod_simp)
  finally show ?thesis .
qed

lemma change_list_iff: "(n, ty) \<in> set (change_list cs) \<longleftrightarrow> ty = ''u64'' \<and> widened cs n"
proof -
  have "sorted (zero_prefix_list cs)" by (simp add: zero_prefix_list_def)
  note iff = change_of_iff[OF this, unfolded set_zero_prefix_list]
  have "(n, ty) \<in> set (change_list cs) \<longleftrightarrow>
     (\<exists>other oty v. (other, oty, v) \<in> set cs \<and> (n, ty) \<in> set (change_of (zero_prefix_list cs) (other, oty, v)))"
    by (simp add: change_list_def Bex_def split_paired_Ex)
  then show ?thesis unfolding iff widened_def by blast
qed

definition retype :: "macro_const list \<Rightarrow> macro_const \<Rightarrow> macro_const" where
  "retype cs c = (case c of (n, ty, v) \<Rightarrow> (n, if widened cs n then ''u64'' else ty, v))"

lemma in_fst_image: "n \<in> fst ` S \<longleftrightarrow> (\<exists>u. (n, u) \<in> S)"
  by force

lemma apply_changes_eq:
  assumes "\<forall>(m, u)\<in>set changes. u = ''u64''"
  shows "fst (apply_changes changes (n, ty, v) w) = (n, if n \<in> fst ` set changes then ''u64'' else ty, v)"
  using assms by (induction changes arbitrary: ty w) (auto simp: in_fst_image)

lemma apply_change_list: "fst (apply_changes (change_list cs) c w) = retype cs c"
proof -
  obtain n ty v where c: "c = (n, ty, v)" by (cases c)
  have "\<forall>(m, u)\<in>set (change_list cs). u = ''u64''" by (auto simp: change_list_iff)
  from apply_changes_eq[OF this] show ?thesis
    by (simp only: c retype_def prod.case in_fst_image change_list_iff simp_thms ex_simps)
qed

lemma retype_all_eq: "fst (retype_all (change_list cs) ds w) = map (retype cs) ds"
  by (induction ds arbitrary: w) (simp_all add: split_beta apply_change_list)

lemma files_apply_changes: "files (snd (apply_changes changes c w)) = files w"
  by (induction changes c w rule: apply_changes.induct) simp_all

lemma files_retype_all: "files (snd (retype_all changes cs w)) = files w"
  by (induction cs arbitrary: w) (simp_all add: split_beta files_apply_changes)

lemma widened_cong: "set cs = set ds \<Longrightarrow> widened cs = widened ds"
  by (rule ext) (simp add: widened_def zero_family_def)

lemma mset_map_filter: "mset xs = mset ys \<Longrightarrow> mset (List.map_filter id xs) = mset (List.map_filter id ys)"
proof -
  have "List.map_filter id zs = map the (filter (\<lambda>x. x \<noteq> None) zs)" for zs :: "'a option list"
    by (induction zs) (auto simp: List.map_filter_def)
  then show "mset xs = mset ys \<Longrightarrow> mset (List.map_filter id xs) = mset (List.map_filter id ys)"
    by (simp only: mset_map mset_filter)
qed

definition workers_ok :: "host \<Rightarrow> bool" where
  "workers_ok h \<longleftrightarrow> (\<forall>i. worker_of h i < num_cpus h)"

lemma find_constants_run:
  assumes "trans_unit_from_header h st w (out_path st @ [''dpdk.h'']) True = Done es"
    and "probe_paths_of h st = Done pp" and "probe_all h (files w) pp (macro_candidates h es) = Done rs"
  shows "\<exists>w1. find_constants h st w =
       Done (let cs = List.map_filter id (all_results (num_cpus h) (worker_of h) rs) in map (retype cs) cs, w1) \<and>
     files w1 = fold (\<lambda>n f. f(target_bin_path pp n := None)) (macro_candidates h es) (files w)"
  using assms
  by (auto simp: find_constants_def Let_def retype_all_eq files_retype_all intro!: prod_eqI)

text \<open>C22. The constants, when they are not taken from the cache, libclang has parsed \<^verbatim>\<open>dpdk.h\<close> and no probe has panicked: whatever the threads' interleaving, the text of the generated module is
  the line that opens it, one line \<^verbatim>\<open>pub const NAME: TYPE = VALUE;\<close> for each constant that
  probing found, each once, with its name and its value in decimal, and the line that closes it; a type is changed only for a name that
  \<open>widened\<close> picks, and then to
  \<^verbatim>\<open>u64\<close>: a zero of type \<^verbatim>\<open>u32\<close> whose family has a \<^verbatim>\<open>u64\<close> constant.  Of several zeros of a family only the first one
  is picked, because the search stops at it.\<close>

theorem constants_exact:
  assumes "trans_unit_from_header h st w (out_path st @ [''dpdk.h'']) True = Done es"
    and "probe_paths_of h st = Done pp" and "probe_all h (files w) pp (macro_candidates h es) = Done rs"
    and "workers_ok h" and "env_var h ''CARGO_FEATURE_CONSTANTS_CACHE'' = None"
  shows "\<exists>cs w1. find_constants h st w = Done (cs, w1) \<and>
     constants_stage h st w = Done (''pub mod constants {'' @ newline @
       join_with newline (map (\<lambda>(name, ty, v). ''pub const '' @ name @ '': '' @ ty @ '' = '' @ show_dec (unat v) @ '';'') cs) @
       newline @ ''}'' @ newline, w1) \<and>
     mset cs = mset (map (retype (List.map_filter id rs)) (List.map_filter id rs))"
proof -
  let ?found = "List.map_filter id (all_results (num_cpus h) (worker_of h) rs)"
  have m: "mset ?found = mset (List.map_filter id rs)"
    using assms(4) by (intro mset_map_filter mset_all_results) (simp add: workers_ok_def)
  then have "widened ?found = widened (List.map_filter id rs)" by (intro widened_cong) (rule mset_eq_setD)
  then have "retype ?found = retype (List.map_filter id rs)" by (auto simp: retype_def)
  with m have same: "mset (map (retype ?found) ?found) = mset (map (retype (List.map_filter id rs)) (List.map_filter id rs))"
    by simp
  from find_constants_run[OF assms(1-3)] obtain w1 where run: "find_constants h st w = Done (map (retype ?found) ?found, w1)"
    unfolding Let_def by blast
  have "constant_line = (\<lambda>(name, ty, v). ''pub const '' @ name @ '': '' @ ty @ '' = '' @ show_dec (unat v) @ '';'')"
    by (rule ext) (simp add: constant_line_def split: prod.split)
  then have "constants_stage h st w = Done (''pub mod constants {'' @ newline @
       join_with newline (map (\<lambda>(name, ty, v). ''pub const '' @ name @ '': '' @ ty @ '' = '' @ show_dec (unat v) @ '';'')
         (map (retype ?found) ?found)) @ newline @ ''}'' @ newline, w1)"
    using run assms(5) by (simp add: constants_stage_def constants_text_def)
  with run same show ?thesis by blast
qed

end
