(* ===== verification/Build_Link.thy ===== *)
theory Build_Link
  imports Build_Consts
begin

text \<open>
  The build script of the DPDK crate, fourth part: the bindings, \<^verbatim>\<open>lib.rs\<close>, the compilation of the wrappers and
  the libraries cargo is told to link; and \<^verbatim>\<open>main\<close>, which runs all steps.
\<close>

section \<open>Bindings\<close>

definition generate_rust_def :: "host \<Rightarrow> build_state \<Rightarrow> bworld \<Rightarrow> bworld outcome" where
  "generate_rust_def h st w =
     andthen (unwrap (include_path st)) (\<lambda>inc.
     andthen (unwrap (dpdk_config st)) (\<lambda>config.
     andthen (to_str (path_str (out_path st @ [''static.h'']))) (\<lambda>header.
     andthen (to_str (path_str inc)) (\<lambda>inc_str.
     andthen (to_str (path_str (out_path st))) (\<lambda>out_str.
     andthen (to_str (path_str config)) (\<lambda>config_str.
     andthen (unwrap (bindgen h (files w) header
       [''-I'' @ inc_str, ''-I'' @ out_str, ''-imacros'', config_str, ''-march=native'', ''-Wno-everything'',
        ''-DALLOW_INTERNAL_API'']
       [''vmbus_bufring'', ''rte_avp_desc'', ''rte_.*_hdr'', ''rte_arp_ipv4'', ''__*''])) (\<lambda>bindings.
     let target_path = out_path st @ [''dpdk.rs''] in
     case write_target h target_path bindings w of Done w1 \<Rightarrow> Done w1 | _ \<Rightarrow> Done w)))))))"

section \<open>lib.rs\<close>

definition static_use :: "string \<Rightarrow> string" where
  "static_use name = ''pub use crate::dpdk::'' @ PREFIX @ name @ '' as '' @ name @ '';''"

definition indent :: "string \<Rightarrow> string" where
  "indent item = replace_str newline (newline @ tab) item"

definition fill_lib_rs :: "build_state \<Rightarrow> string \<Rightarrow> string" where
  "fill_lib_rs st template_string =
     (let s1 = replace_str ''%static_use_defs%'' (join_with newline (map static_use (static_functions st)))
                 template_string;
          s2 = replace_str ''%static_constants%'' (static_constants st) s1;
          s3 = replace_str ''%static_eal_functions%''
                 (join_with newline (map indent (eal_function_use_defs st))) s2
      in replace_str ''%global_static_eal_functions%''
           (join_with newline (map indent (global_eal_function_use_defs st))) s3)"

definition generate_lib_rs :: "host \<Rightarrow> build_state \<Rightarrow> bworld \<Rightarrow> bworld outcome" where
  "generate_lib_rs h st w =
     andthen (read_template (project_path st @ [''gen'', ''lib.rs.template'']) w) (\<lambda>template_string.
     write_target h (out_path st @ [''lib.rs'']) (fill_lib_rs st template_string) w)"

section \<open>Compiling and linking\<close>

definition pmd_whitelist_candidate :: "(string \<times> string list) list" where
  "pmd_whitelist_candidate =
     [(''rte_net_af_packet'', []), (''rte_net_af_xdp'', [''xdp'', ''bpf'']), (''rte_net_ark'', []),
      (''rte_net_avp'', []), (''rte_net_axgbe'', []), (''rte_net_bnx2x'', [''z'']),
      (''rte_net_bnxt'', []), (''rte_net_bonding'', []), (''rte_net_cxgbe'', []),
      (''rte_net_e1000'', []), (''rte_net_ena'', []), (''rte_net_enetfec'', []), (''rte_net_enic'', []),
      (''rte_net_failsafe'', []), (''rte_net_fm10k'', []), (''rte_net_gve'', []),
      (''rte_net_hinic'', []), (''rte_net_hns3'', []), (''rte_net_i40e'', []), (''rte_net_ionic'', []),
      (''rte_net_ixgbe'', []), (''rte_net_liquidio'', []), (''rte_net_memif'', []),
      (''rte_net_mlx4'', [''mlx4'', ''ibverbs'']), (''rte_net_mlx5'', [''mlx5'', ''ibverbs'']),
      (''rte_net_mvneta'', [''musdk'']), (''rte_net_mvpp2'', [''musdk'']), (''rte_net_netvsc'', []),
      (''rte_net_nfp'', []), (''rte_net_ngbe'', []), (''rte_net_null'', []),
      (''rte_net_pcap'', [''pcap'']), (''rte_net_octeon_ep'', []), (''rte_net_octeontx'', []),
      (''rte_net_ring'', []), (''rte_net_sfc'', [''atomic'']), (''rte_net_softnic'', []),
      (''rte_net_tap'', []), (''rte_net_thunderx'', []), (''rte_net_txgbe'', []),
      (''rte_net_vhost'', []), (''rte_net_virtio'', []), (''rte_net_vmxnet3'', [])]"

text \<open>The dependencies whose test program the compiler rejects.  A compiler that cannot be started rejects nothing.\<close>

definition skip_due_to :: "host \<Rightarrow> fs \<Rightarrow> string \<Rightarrow> path \<Rightarrow> string list \<Rightarrow> string list" where
  "skip_due_to h f cc_name test_template deps =
     filter (\<lambda>dep. cc_run h f [cc_name, ''-o'', ''/dev/null'', path_str test_template, ''-l'' @ dep] = CcFailed) deps"

definition debug_list :: "string list \<Rightarrow> string" where
  "debug_list xs = ''['' @ join_with '', '' (map (\<lambda>x. [CHR 0x22] @ x @ [CHR 0x22]) xs) @ '']''"

fun check_pmds :: "host \<Rightarrow> string \<Rightarrow> path \<Rightarrow> (string \<times> string list) list \<Rightarrow> bworld
    \<Rightarrow> (string \<times> string list) list \<times> bworld" where
  "check_pmds h cc_name test_template [] w = ([], w)"
| "check_pmds h cc_name test_template ((name, deps) # rest) w =
     (let skip = skip_due_to h (files w) cc_name test_template deps
      in if skip \<noteq> []
         then check_pmds h cc_name test_template rest
           (println (''cargo:warning=Skip linking '' @ name @ '' for missing deps '' @ debug_list skip) w)
         else let (pmds, w1) = check_pmds h cc_name test_template rest w in ((name, deps) # pmds, w1))"

definition lib_pattern :: string where
  "lib_pattern = ''lib(.*)'' @ [CHR 0x5C] @ ''.(a)''"

text \<open>The loop over \<^verbatim>\<open>dpdk_links\<close>: \<^verbatim>\<open>rte_libs\<close>, \<^verbatim>\<open>additional_libs\<close> and the lines printed on the way.\<close>

fun link_all_libs :: "host \<Rightarrow> (string \<times> string list) list \<Rightarrow> path list \<Rightarrow> string list \<Rightarrow> string list \<Rightarrow> bworld
    \<Rightarrow> (string list \<times> string list \<times> bworld) outcome" where
  "link_all_libs h pmds [] rte_libs additional w = Done (rte_libs, additional, w)"
| "link_all_libs h pmds (link # links) rte_libs additional w =
     andthen (unwrap (file_name link)) (\<lambda>name.
     andthen (to_str name) (\<lambda>lib_name.
     case re_captures h lib_pattern lib_name of
       None \<Rightarrow> link_all_libs h pmds links rte_libs additional w
     | Some link_name \<Rightarrow>
       if link_name = ''dpdk'' then link_all_libs h pmds links rte_libs additional w
       else (case List.find (\<lambda>(name, _). name = link_name) pmds of
         Some (_, deps) \<Rightarrow>
           link_all_libs h pmds links rte_libs (additional @ deps)
             (println (''cargo:rustc-link-lib=static:+whole-archive,-bundle='' @ link_name) w)
       | None \<Rightarrow>
         if starts_with link_name ''rte_net_'' then link_all_libs h pmds links rte_libs additional w
         else link_all_libs h pmds links (rte_libs @ [link_name]) additional w)))"

definition link_line :: "string \<Rightarrow> string" where
  "link_line l = ''cargo:rustc-link-lib='' @ l"

definition compile :: "host \<Rightarrow> build_state \<Rightarrow> bworld \<Rightarrow> bworld outcome" where
  "compile h st w =
     andthen (unwrap (include_path st)) (\<lambda>inc.
     andthen (unwrap (dpdk_config st)) (\<lambda>config.
     andthen (unwrap (library_path st)) (\<lambda>lib_path.
     andthen (to_str (path_str config)) (\<lambda>config_str.
     andthen (unwrap (cc_compile h (files w)
       [CcFile (out_path st @ [''static.c'']), CcStaticFlag True, CcSharedFlag False, CcOptLevel 3, CcInclude inc,
        CcInclude (out_path st), CcFlag ''-w'', CcFlag ''-march=native'', CcFlag ''-imacros'', CcFlag config_str]
       ''lib_static_wrapper.a'')) (\<lambda>cc_lines.
     andthen (to_str (path_str lib_path)) (\<lambda>lib_str.
     let w1 = println (''cargo:rustc-link-search=native='' @ lib_str) (fold println cc_lines w) in
     andthen (unwrap (cc_path h)) (\<lambda>cc. andthen (to_str cc) (\<lambda>cc_name.
     let (pmds, w2) = check_pmds h cc_name (project_path st @ [''gen'', ''link_test.c'']) pmd_whitelist_candidate w1 in
     andthen (link_all_libs h pmds (dpdk_links st) [] [] w2) (\<lambda>(rte_libs, additional, w3).
     Done (fold println (map link_line (sort_dedup rte_libs) @ map link_line (sort_dedup additional) @
                         [link_line ''bsd'', link_line ''numa'']) w3))))))))))"

section \<open>The whole script\<close>

definition build_main :: "host \<Rightarrow> bworld \<Rightarrow> (build_state \<times> bworld) outcome" where
  "build_main h w =
     andthen (State_new h) (\<lambda>st0.
     andthen (check_os st0) (\<lambda>_.
     andthen (check_compiler h st0) (\<lambda>st1.
     andthen (find_dpdk h st1 w) (\<lambda>(st2, w2).
     andthen (find_link_libs h st2 w2) (\<lambda>st3.
     andthen (make_all_in_one_header h st3 w2) (\<lambda>(st4, w4).
     andthen (extract_eal_apis h st4 w4) (\<lambda>st5.
     andthen (generate_static_impls_and_link_pmds h st5 w4) (\<lambda>(st6, w6).
     andthen (generate_rust_def h st6 w6) (\<lambda>w7.
     andthen (generate_lib_rs h st6 w7) (\<lambda>w8.
     andthen (compile h st6 w8) (\<lambda>w9.
     Done (st6, w9))))))))))))"

section \<open>What is linked\<close>

text \<open>The regular expression \<^verbatim>\<open>lib(.*)\.(a)\<close> on the name of a static library: the group is what stands between.\<close>

definition regex_ok :: "host \<Rightarrow> bool" where
  "regex_ok h \<longleftrightarrow> (\<forall>x. CHR 0x0A \<notin> set x \<longrightarrow> re_captures h lib_pattern (''lib'' @ x @ ''.a'') = Some x)"

definition lib_file :: "path \<Rightarrow> string \<Rightarrow> path" where
  "lib_file d x = d @ [''lib'' @ x @ ''.a'']"

definition lib_name_ok :: "string \<Rightarrow> bool" where
  "lib_name_ok x \<longleftrightarrow> is_utf8 x \<and> CHR 0x0A \<notin> set x"

definition whole_line :: "string \<Rightarrow> string" where
  "whole_line x = ''cargo:rustc-link-lib=static:+whole-archive,-bundle='' @ x"

definition skip_line :: "string \<Rightarrow> string list \<Rightarrow> string" where
  "skip_line name skip = ''cargo:warning=Skip linking '' @ name @ '' for missing deps '' @ debug_list skip"

lemma println_append: "println s w = w\<lparr>cargo_out := cargo_out w @ [s]\<rparr>"
  by (simp add: println_def)

lemma fold_println: "fold println ss w = w\<lparr>cargo_out := cargo_out w @ ss\<rparr>"
  by (induction ss arbitrary: w) (simp_all add: println_def)

lemma find_map_of: "List.find (\<lambda>(n, _). n = k) xs = map_option (Pair k) (map_of xs k)"
  by (induction xs) auto

lemma check_pmds_eq:
  "check_pmds h cc t cands w =
     (filter (\<lambda>(n, deps). skip_due_to h (files w) cc t deps = []) cands,
      fold println (map (\<lambda>(n, deps). skip_line n (skip_due_to h (files w) cc t deps))
        (filter (\<lambda>(n, deps). skip_due_to h (files w) cc t deps \<noteq> []) cands)) w)"
  by (induction h cc t cands w rule: check_pmds.induct) (simp_all add: Let_def skip_line_def)

lemma lib_file_name:
  assumes "lib_name_ok x"
  shows "file_name (lib_file d x) = Some (''lib'' @ x @ ''.a'')" "is_utf8 (''lib'' @ x @ ''.a'')"
proof -
  show "file_name (lib_file d x) = Some (''lib'' @ x @ ''.a'')" by (simp add: lib_file_def)
  have "is_utf8 ''lib''" "is_utf8 ''.a''" by (simp_all add: byte_def)
  with assms show "is_utf8 (''lib'' @ x @ ''.a'')" unfolding lib_name_ok_def by (blast intro: is_utf8_append)
qed

lemma link_all_libs_eq:
  assumes "regex_ok h" and "\<forall>x\<in>set xs. lib_name_ok x" and "map_of pmds ''dpdk'' = None"
  shows "link_all_libs h pmds (map (lib_file d) xs) rte additional w =
     Done (rte @ filter (\<lambda>x. x \<noteq> ''dpdk'' \<and> map_of pmds x = None \<and> \<not> prefix ''rte_net_'' x) xs,
       additional @ concat (map (\<lambda>x. case map_of pmds x of Some deps \<Rightarrow> deps | None \<Rightarrow> []) xs),
       fold println (map whole_line (filter (\<lambda>x. map_of pmds x \<noteq> None) xs)) w)"
  using assms(2)
proof (induction xs arbitrary: rte additional w)
  case (Cons x xs)
  then have x: "lib_name_ok x" by simp
  have cap: "re_captures h lib_pattern (''lib'' @ x @ ''.a'') = Some x"
    using assms(1) x unfolding regex_ok_def lib_name_ok_def by blast
  have "link_all_libs h pmds (map (lib_file d) (x # xs)) rte additional w =
     (if x = ''dpdk'' then link_all_libs h pmds (map (lib_file d) xs) rte additional w
      else case map_of pmds x of
        Some deps \<Rightarrow> link_all_libs h pmds (map (lib_file d) xs) rte (additional @ deps) (println (whole_line x) w)
      | None \<Rightarrow> if prefix ''rte_net_'' x then link_all_libs h pmds (map (lib_file d) xs) rte additional w
                else link_all_libs h pmds (map (lib_file d) xs) (rte @ [x]) additional w)"
    by (cases "map_of pmds x") (simp_all only: link_all_libs.simps list.map lib_file_name(1)[OF x] unwrap_simps
        andthen.simps to_str_utf8[OF lib_file_name(2)[OF x]] cap option.case find_map_of option.map prod.case
        starts_with_def whole_line_def)
  with Cons assms(3) show ?case by (auto split: option.splits)
qed simp

text \<open>A driver is linked when it is on the list and the compiler has not rejected one of its dependencies.\<close>

definition usable_pmd :: "host \<Rightarrow> fs \<Rightarrow> string \<Rightarrow> path \<Rightarrow> string \<Rightarrow> string list \<Rightarrow> bool" where
  "usable_pmd h f cc t x deps \<longleftrightarrow> (x, deps) \<in> set pmd_whitelist_candidate \<and>
     (\<forall>dep\<in>set deps. cc_run h f [cc, ''-o'', ''/dev/null'', path_str t, ''-l'' @ dep] \<noteq> CcFailed)"

lemma distinct_candidates: "distinct (map fst pmd_whitelist_candidate)"
  by code_simp

lemma dpdk_no_candidate: "''dpdk'' \<notin> fst ` set pmd_whitelist_candidate"
  by code_simp

lemma distinct_map_filter: "distinct (map f xs) \<Longrightarrow> distinct (map f (filter P xs))"
  by (induction xs) auto

lemma usable_map_of:
  "map_of (filter (\<lambda>(n, deps). skip_due_to h f cc t deps = []) pmd_whitelist_candidate) x = Some deps \<longleftrightarrow>
     usable_pmd h f cc t x deps"
  using distinct_map_filter[OF distinct_candidates, of "\<lambda>(n, deps). skip_due_to h f cc t deps = []"]
  by (simp add: map_of_eq_Some_iff usable_pmd_def skip_due_to_def filter_empty_conv)

definition skipped_pmds :: "host \<Rightarrow> fs \<Rightarrow> string \<Rightarrow> path \<Rightarrow> string list" where
  "skipped_pmds h f cc t = map (\<lambda>(n, deps). skip_line n (skip_due_to h f cc t deps))
     (filter (\<lambda>(n, deps). skip_due_to h f cc t deps \<noteq> []) pmd_whitelist_candidate)"

text \<open>The lines for cargo that follow the search path, given the names of the libraries found.\<close>

definition plain_libs :: "host \<Rightarrow> fs \<Rightarrow> string \<Rightarrow> path \<Rightarrow> string list \<Rightarrow> string set" where
  "plain_libs h f cc t xs =
     {x \<in> set xs. x \<noteq> ''dpdk'' \<and> (\<nexists>deps. usable_pmd h f cc t x deps) \<and> \<not> prefix ''rte_net_'' x}"

definition needed_deps :: "host \<Rightarrow> fs \<Rightarrow> string \<Rightarrow> path \<Rightarrow> string list \<Rightarrow> string set" where
  "needed_deps h f cc t xs = {dep. \<exists>x\<in>set xs. \<exists>deps. usable_pmd h f cc t x deps \<and> dep \<in> set deps}"

definition link_lines :: "host \<Rightarrow> fs \<Rightarrow> string \<Rightarrow> path \<Rightarrow> string list \<Rightarrow> string list" where
  "link_lines h f cc t xs =
     map whole_line (filter (\<lambda>x. \<exists>deps. usable_pmd h f cc t x deps) xs) @
     map link_line (sorted_list_of_set (plain_libs h f cc t xs)) @
     map link_line (sorted_list_of_set (needed_deps h f cc t xs)) @ [link_line ''bsd'', link_line ''numa'']"

lemma set_concat_option:
  "set (concat (map (\<lambda>x. case m x of Some d \<Rightarrow> d | None \<Rightarrow> []) xs)) =
     {y. \<exists>x\<in>set xs. \<exists>d. m x = Some d \<and> y \<in> set d}"
proof (induction xs)
  case (Cons x xs)
  then show ?case by (cases "m x") auto
qed simp

lemma compile_run:
  assumes "include_path st = Some inc" and "dpdk_config st = Some config" and "library_path st = Some lib"
    and "is_utf8 (path_str config)" and "is_utf8 (path_str lib)"
    and "cc_compile h (files w)
       [CcFile (out_path st @ [''static.c'']), CcStaticFlag True, CcSharedFlag False, CcOptLevel 3, CcInclude inc,
        CcInclude (out_path st), CcFlag ''-w'', CcFlag ''-march=native'', CcFlag ''-imacros'',
        CcFlag (path_str config)] ''lib_static_wrapper.a'' = Some cc_lines"
    and "cc_path h = Some cc" and "is_utf8 cc" and "regex_ok h"
    and "dpdk_links st = map (lib_file d) xs" and "\<forall>x\<in>set xs. lib_name_ok x"
  shows "compile h st w = Done (w\<lparr>cargo_out := cargo_out w @ cc_lines @
       [''cargo:rustc-link-search=native='' @ path_str lib] @
       skipped_pmds h (files w) cc (project_path st @ [''gen'', ''link_test.c'']) @
       link_lines h (files w) cc (project_path st @ [''gen'', ''link_test.c'']) xs\<rparr>)"
proof -
  let ?t = "project_path st @ [''gen'', ''link_test.c'']"
  let ?pmds = "filter (\<lambda>(n, deps). skip_due_to h (files w) cc ?t deps = []) pmd_whitelist_candidate"
  have none: "map_of ?pmds x = None \<longleftrightarrow> (\<nexists>deps. usable_pmd h (files w) cc ?t x deps)" for x
    using usable_map_of[of h "files w" cc ?t x] by (metis option.exhaust option.distinct(1))
  have "map_of ?pmds ''dpdk'' = None"
    unfolding none usable_pmd_def using dpdk_no_candidate by force
  note links = link_all_libs_eq[OF assms(9,11) this, of d "[]" "[]", unfolded append_Nil none]
  have plain: "sort_dedup (filter (\<lambda>x. x \<noteq> ''dpdk'' \<and> (\<nexists>deps. usable_pmd h (files w) cc ?t x deps) \<and>
      \<not> prefix ''rte_net_'' x) xs) = sorted_list_of_set (plain_libs h (files w) cc ?t xs)"
    by (simp add: sort_dedup_eq plain_libs_def)
  have "set (concat (map (\<lambda>x. case map_of ?pmds x of Some deps \<Rightarrow> deps | None \<Rightarrow> []) xs)) =
      needed_deps h (files w) cc ?t xs"
    unfolding needed_deps_def usable_map_of[symmetric] by (rule set_concat_option)
  then have deps: "sort_dedup (concat (map (\<lambda>x. case map_of ?pmds x of Some deps \<Rightarrow> deps | None \<Rightarrow> []) xs)) =
      sorted_list_of_set (needed_deps h (files w) cc ?t xs)"
    by (simp add: sort_dedup_eq)
  show ?thesis
    unfolding compile_def assms(1-3,6,7,10) unwrap_simps andthen.simps to_str_utf8[OF assms(4)]
      to_str_utf8[OF assms(5)] to_str_utf8[OF assms(8)] Let_def check_pmds_eq prod.case files_println files_fold_println
      links plain deps
    by (simp add: fold_println println_append link_lines_def skipped_pmds_def)
qed

text \<open>C17. What cargo is told to link: after the line of the compiled wrappers and the search path, every driver found
  that is on the list and whose dependencies the compiler has not rejected, as a whole archive; then
  every other library found except \<^verbatim>\<open>dpdk\<close> and the other drivers, then the dependencies of the linked drivers, each once and
  in ascending order; then \<^verbatim>\<open>bsd\<close> and \<^verbatim>\<open>numa\<close>.  A compiler that could not be started counts as having found the
  dependency.\<close>

theorem link_directives:
  assumes "include_path st = Some inc" and "dpdk_config st = Some config" and "library_path st = Some lib"
    and "is_utf8 (path_str config)" and "is_utf8 (path_str lib)"
    and "cc_compile h (files w)
       [CcFile (out_path st @ [''static.c'']), CcStaticFlag True, CcSharedFlag False, CcOptLevel 3, CcInclude inc,
        CcInclude (out_path st), CcFlag ''-w'', CcFlag ''-march=native'', CcFlag ''-imacros'',
        CcFlag (path_str config)] ''lib_static_wrapper.a'' = Some cc_lines"
    and "cc_path h = Some cc" and "is_utf8 cc" and "regex_ok h"
    and "dpdk_links st = map (lib_file d) xs" and "\<forall>x\<in>set xs. lib_name_ok x"
  shows "\<exists>libs deps. compile h st w = Done (w\<lparr>cargo_out := cargo_out w @ cc_lines @
       [''cargo:rustc-link-search=native='' @ path_str lib] @
       skipped_pmds h (files w) cc (project_path st @ [''gen'', ''link_test.c'']) @
       map whole_line (filter (\<lambda>x. \<exists>ds. usable_pmd h (files w) cc (project_path st @ [''gen'', ''link_test.c'']) x ds) xs) @
       map link_line (libs @ deps @ [''bsd'', ''numa''])\<rparr>) \<and>
     sorted libs \<and> distinct libs \<and>
     set libs = plain_libs h (files w) cc (project_path st @ [''gen'', ''link_test.c'']) xs \<and>
     sorted deps \<and> distinct deps \<and>
     set deps = needed_deps h (files w) cc (project_path st @ [''gen'', ''link_test.c'']) xs"
proof -
  let ?t = "project_path st @ [''gen'', ''link_test.c'']"
  have "finite (plain_libs h (files w) cc ?t xs)" by (simp add: plain_libs_def)
  moreover have "needed_deps h (files w) cc ?t xs \<subseteq> (\<Union>p\<in>set pmd_whitelist_candidate. set (snd p))"
    by (force simp: needed_deps_def usable_pmd_def)
  then have "finite (needed_deps h (files w) cc ?t xs)" by (rule finite_subset) simp
  ultimately show ?thesis using compile_run[OF assms]
    by (intro exI[of _ "sorted_list_of_set (plain_libs h (files w) cc ?t xs)"]
        exI[of _ "sorted_list_of_set (needed_deps h (files w) cc ?t xs)"]) (simp add: link_lines_def)
qed

section \<open>The slots of the template\<close>

definition no_percent :: "string \<Rightarrow> bool" where
  "no_percent s \<longleftrightarrow> CHR ''%'' \<notin> set s"

definition slot :: "string \<Rightarrow> string" where
  "slot n = ''%'' @ n @ ''%''"

lemma slot_hit: "replace_str (slot n) rep (slot n @ s) = rep @ replace_str (slot n) rep s"
  by (rule replace_hit) (simp add: slot_def)

lemma slot_skip: "no_percent pre \<Longrightarrow> replace_str (slot n) rep (pre @ s) = pre @ replace_str (slot n) rep s"
  by (rule replace_skip) (simp_all add: slot_def no_percent_def)

lemma slot_newline: "n \<noteq> [] \<Longrightarrow> replace_str (slot n) rep (CHR 0x0A # s) = CHR 0x0A # replace_str (slot n) rep s"
  by (simp add: slot_def)

lemma slot_last: "no_percent s \<Longrightarrow> replace_str (slot n) rep s = s"
  by (rule replace_none) (simp_all add: slot_def no_percent_def)

lemma append_delim_cancel: "d \<notin> set m \<Longrightarrow> d \<notin> set n \<Longrightarrow> m @ d # s = n @ d # t \<Longrightarrow> m = n"
  by (induction m arbitrary: n) (auto simp: Cons_eq_append_conv append_eq_Cons_conv)

lemma slot_other:
  assumes "no_percent m" "no_percent n" "m \<noteq> n" "m \<noteq> []" "hd m \<noteq> CHR 0x0A"
  shows "replace_str (slot m) rep (slot n @ CHR 0x0A # s) = slot n @ CHR 0x0A # replace_str (slot m) rep s"
proof -
  have "\<not> prefix (m @ ''%'') (n @ ''%'' @ CHR 0x0A # s)"
    using append_delim_cancel[of "CHR ''%''" n m] assms(1-3) by (auto simp: prefix_def no_percent_def)
  then have "replace_str (slot m) rep (slot n @ CHR 0x0A # s) =
      CHR ''%'' # replace_str (slot m) rep (n @ ''%'' @ CHR 0x0A # s)" by (simp add: slot_def)
  also have "\<dots> = CHR ''%'' # n @ replace_str (slot m) rep (''%'' @ CHR 0x0A # s)"
    using slot_skip[OF assms(2), of m rep "''%'' @ CHR 0x0A # s"] by simp
  also have "replace_str (slot m) rep (''%'' @ CHR 0x0A # s) = ''%'' @ CHR 0x0A # replace_str (slot m) rep s"
    using assms(4,5) by (cases m) (simp_all add: slot_def)
  finally show ?thesis by (simp add: slot_def)
qed

definition slots_filled :: "string list \<Rightarrow> string list \<Rightarrow> string" where
  "slots_filled rest values = concat (map (\<lambda>(r, v). r @ v @ newline) (zip rest values)) @ last rest"

definition lib_rs_slots :: "string list" where
  "lib_rs_slots = map slot [''static_use_defs'', ''static_constants'', ''static_eal_functions'',
     ''global_static_eal_functions'']"

definition lib_rs_values :: "build_state \<Rightarrow> string list" where
  "lib_rs_values st =
     [join_with newline (map static_use (static_functions st)), static_constants st,
      join_with newline (map indent (eal_function_use_defs st)),
      join_with newline (map indent (global_eal_function_use_defs st))]"

text \<open>C26. \<^verbatim>\<open>lib.rs\<close>: a template that has the four slots in this order, each followed by a newline, is reproduced with
  every slot replaced by its text and nothing else changed, as long as neither the rest of the template nor
  the texts contain a percent sign.\<close>

theorem lib_rs_filled:
  assumes "\<forall>s\<in>set ([a, b, c, d, e] @ lib_rs_values st). no_percent s"
  shows "fill_lib_rs st (slots_filled [a, b, c, d, e] lib_rs_slots) = slots_filled [a, b, c, d, e] (lib_rs_values st)"
proof -
  note vals = assms[unfolded lib_rs_values_def, simplified]
  have names: "no_percent ''static_use_defs''" "no_percent ''static_constants''" "no_percent ''static_eal_functions''"
    "no_percent ''global_static_eal_functions''"
    by (simp_all add: no_percent_def)
  have pats: "''%static_use_defs%'' = slot ''static_use_defs''" "''%static_constants%'' = slot ''static_constants''"
    "''%static_eal_functions%'' = slot ''static_eal_functions''"
    "''%global_static_eal_functions%'' = slot ''global_static_eal_functions''"
    by (simp_all add: slot_def)
  show ?thesis
    unfolding fill_lib_rs_def pats Let_def lib_rs_values_def lib_rs_slots_def slots_filled_def
    using vals names
    by (simp add: slot_hit slot_skip slot_other slot_newline slot_last del: replace_str.simps)
qed

end
