(* ===== verification/Build_Main.thy ===== *)
theory Build_Main
  imports Build_Link
begin

text \<open>
  The build script of the DPDK crate as a whole: on a machine with DPDK installed it gets as far as the two code generators it ends
  with, its outcome is theirs, and the
  files it generates fit together.
\<close>

section \<open>A machine the script runs on\<close>

definition lib_dir :: "string \<Rightarrow> path" where
  "lib_dir machine = path_of_str (''/usr/local/lib/'' @ trim machine)"

definition inc_dir :: path where
  "inc_dir = [''usr'', ''local'', ''include'']"

text \<open>The project, the output directory and the programs asked for their search paths.\<close>

definition env_ok :: "host \<Rightarrow> path \<Rightarrow> path \<Rightarrow> string \<Rightarrow> bool" where
  "env_ok h proj out machine \<longleftrightarrow>
     current_dir h = Some proj \<and> (\<exists>dir. env_var h ''OUT_DIR'' = Some dir \<and> canonicalize h dir = Some out) \<and>
     is_utf8 (path_str out) \<and> (\<exists>s. bash_stdout h search_command = Some s \<and> is_utf8 s) \<and>
     dumpmachine h = Some machine \<and> is_utf8 machine \<and> is_utf8 (path_str (lib_dir machine)) \<and>
     (\<exists>cc. cc_path h = Some cc \<and> is_utf8 cc)"

text \<open>DPDK is installed, and the directories the script reads have readable names.\<close>

definition dpdk_installed :: "host \<Rightarrow> fs \<Rightarrow> path \<Rightarrow> string \<Rightarrow> bool" where
  "dpdk_installed h f proj machine \<longleftrightarrow>
     f config_header \<noteq> None \<and> f build_config_header \<noteq> None \<and>
     (\<exists>gs. read_dir h (proj @ [''gen'']) = Some gs \<and>
        (\<forall>n. Some n \<in> set gs \<longrightarrow> is_utf8 (path_str (proj @ [''gen'', n])))) \<and>
     (\<exists>hs. read_dir h inc_dir = Some hs \<and> names_utf8 hs \<and> headers_in f inc_dir config_header hs \<noteq> {}) \<and>
     (\<exists>ls. read_dir h (lib_dir machine) = Some ls \<and> names_utf8 ls \<and> rte_libs_in f (lib_dir machine) ls \<noteq> {} \<and>
        (\<forall>n. Some n \<in> set ls \<longrightarrow> CHR 0x0A \<notin> set n))"

text \<open>libclang parses \<^verbatim>\<open>dpdk.h\<close>: the functions and the macros do not depend on the other files that are generated.  Every argument has a
  type, no argument of a function that gets a wrapper is an array of variable or dependent size (\<^verbatim>\<open>format_arg\<close> panics on those), and
  the names of these functions have no percent sign.\<close>

definition clang_ok :: "host \<Rightarrow> path \<Rightarrow> entity list \<Rightarrow> entity list \<Rightarrow> bool" where
  "clang_ok h out es ms \<longleftrightarrow> clang_available h \<and>
     (\<forall>f args. f (out @ [''dpdk.h'']) \<noteq> None \<longrightarrow> clang_parse h f (out @ [''dpdk.h'']) False args = Some (0, es)) \<and>
     (\<forall>f args. f (out @ [''dpdk.h'']) \<noteq> None \<longrightarrow> clang_parse h f (out @ [''dpdk.h'']) True args = Some (0, ms)) \<and>
     args_typed es \<and> (\<forall>f\<in>set (static_apis es). args_declarable f \<and> no_percent (the (e_name f)))"

text \<open>The files the script creates can be created and what it writes reaches the disk; a test program that was built from
  \<^verbatim>\<open>int_test.c\<close> prints a number, whatever macro it is built for.\<close>

definition tools_ok :: "host \<Rightarrow> path \<Rightarrow> bool" where
  "tools_ok h proj \<longleftrightarrow> disk_ok h \<and> regex_ok h \<and>
     (\<forall>f pp config fmt name bin. pp_template pp = proj @ [''gen'', ''int_test.c''] \<and>
        cc_run h f (probe_args pp config fmt name) = CcOk bin \<longrightarrow>
        (\<exists>s. exec_program h bin = Some s \<and> is_utf8 s \<and> parse_u64 (trim s) \<noteq> None))"

text \<open>The templates; the cache of the constants is needed only when it is asked for.  Nothing lies where the test
  programs are built.\<close>

definition templates_ok :: "host \<Rightarrow> fs \<Rightarrow> path \<Rightarrow> path \<Rightarrow> string \<Rightarrow> string \<Rightarrow> string \<Rightarrow> string \<Rightarrow> bool" where
  "templates_ok h f proj out td th tc tlib \<longleftrightarrow>
     f (proj @ [''gen'', ''dpdk.h.template'']) = Some (FileNode td) \<and> is_utf8 td \<and>
     f (proj @ [''gen'', ''static.h.template'']) = Some (FileNode th) \<and> is_utf8 th \<and>
     f (proj @ [''gen'', ''static.c.template'']) = Some (FileNode tc) \<and> is_utf8 tc \<and>
     f (proj @ [''gen'', ''lib.rs.template'']) = Some (FileNode tlib) \<and> is_utf8 tlib \<and>
     (env_var h ''CARGO_FEATURE_CONSTANTS_CACHE'' \<noteq> None \<longrightarrow>
        f (proj @ [''gen'', ''constants.rs.cache'']) \<noteq> None) \<and>
     (\<forall>n. f (out @ [''int_test_'' @ n]) \<noteq> Some DirNode)"

section \<open>The first steps\<close>

lemma env_ok_state:
  assumes "env_ok h proj out machine"
  shows "\<exists>st. State_new h = Done st \<and> project_path st = proj \<and> out_path st = out \<and> static_functions st = []"
    "\<exists>sys. check_compiler h st = Done (st\<lparr>system_include_path := sys\<rparr>)"
  using assms by (auto simp: env_ok_def State_new_def check_compiler_def to_str_def)

lemma print_templates:
  assumes "\<And>n. Some n \<in> set gs \<Longrightarrow> is_utf8 (path_str (dir @ [n]))"
  shows "\<exists>ls. collect (print_template dir) (List.map_filter id gs) = Done ls"
proof -
  have "\<forall>n\<in>set (List.map_filter id gs). Some n \<in> set gs" by (induction gs) (auto simp: List.map_filter_def)
  then have "collect (print_template dir) (List.map_filter id gs) = Done (concat (map (\<lambda>n.
      if extension (dir @ [n]) = Some ''template'' then [''cargo:rerun-if-changed='' @ path_str (dir @ [n])] else [])
      (List.map_filter id gs)))"
    by (intro collect_Done) (use assms in \<open>auto simp: print_template_def to_str_def\<close>)
  then show ?thesis by blast
qed

lemma find_dpdk_run:
  assumes "env_ok h proj out machine" and "dpdk_installed h (files w) proj machine" and "project_path st = proj"
  shows "\<exists>w2. find_dpdk h st w = Done (st\<lparr>include_path := Some inc_dir, library_path := Some (lib_dir machine),
     dpdk_config := Some config_header\<rparr>, w2) \<and> files w2 = files w"
proof -
  obtain gs where gs: "read_dir h (proj @ [''gen'']) = Some gs"
    "\<And>n. Some n \<in> set gs \<Longrightarrow> is_utf8 (path_str ((proj @ [''gen'']) @ [n]))"
    using assms(2) by (auto simp: dpdk_installed_def)
  from print_templates[OF gs(2)] obtain ls
    where ls: "collect (print_template (proj @ [''gen''])) (List.map_filter id gs) = Done ls" by blast
  have "dumpmachine h = Some machine" "is_utf8 machine" "files w config_header \<noteq> None"
    "files w build_config_header \<noteq> None"
    using assms(1,2) by (auto simp: env_ok_def dpdk_installed_def)
  with gs(1) ls assms(3) show ?thesis
    by (simp add: find_dpdk_def to_str_def Let_def inc_dir_def lib_dir_def files_fold_println del: fold.simps)
qed

lemma is_utf8_config: "is_utf8 (path_str inc_dir)" "is_utf8 (path_str config_header)"
  by (simp_all add: path_str_def inc_dir_def config_header_def byte_def)

lemma trans_unit_run:
  assumes "include_path st = Some inc_dir" "dpdk_config st = Some config_header" "is_utf8 (path_str (out_path st))"
    and "\<And>args. clang_parse h (files w) p m args = Some (0, es)"
  shows "trans_unit_from_header h st w p m = Done es"
  using assms is_utf8_config by (simp add: trans_unit_from_header_def to_str_def Let_def)

section \<open>Probing\<close>

lemma try_formats_ok:
  assumes "tools_ok h proj" and "pp_template pp = proj @ [''gen'', ''int_test.c'']" and "is_utf8 (path_str (pp_config pp))"
    and "cell \<noteq> Some DirNode"
  shows "\<exists>r cell'. try_formats h f pp name fmts cell = Done (r, cell') \<and> cell' \<noteq> Some DirNode"
  using assms(4)
proof (induction fmts arbitrary: cell)
  case (Cons fmt fmts)
  obtain fmt_name type_name where fmt: "fmt = (fmt_name, type_name)" by (cases fmt)
  have rm: "remove_target cell = Done None" using Cons.prems by (simp add: remove_target_def)
  show ?case
  proof (cases "cc_run h f (probe_args pp (path_str (pp_config pp)) fmt_name name)")
    case (CcOk bin)
    then obtain s v where "exec_program h bin = Some s" "is_utf8 s" "parse_u64 (trim s) = Some v"
      using assms(1,2) unfolding tools_ok_def by blast
    with CcOk rm fmt assms(3) show ?thesis by (simp add: to_str_def)
  qed (use rm fmt assms(3) Cons.IH[of None] in \<open>auto simp: to_str_def\<close>)
qed simp

lemma probe_ok:
  assumes "tools_ok h proj" and "pp_template pp = proj @ [''gen'', ''int_test.c'']" and "is_utf8 (path_str (pp_config pp))"
    and "f (target_bin_path pp n) \<noteq> Some DirNode"
  shows "\<exists>r. probe_name h f pp n = Done r"
  using try_formats_ok[OF assms, where name = n and fmts = try_args and f = f] by (auto simp: probe_name_def remove_target_def)

lemma probe_all_ok:
  assumes "tools_ok h proj" and "pp_template pp = proj @ [''gen'', ''int_test.c'']" and "is_utf8 (path_str (pp_config pp))"
    and "\<And>n. f (target_bin_path pp n) \<noteq> Some DirNode"
  shows "\<exists>rs. probe_all h f pp ns = Done rs"
proof (induction ns)
  case (Cons n ns)
  obtain r where "probe_name h f pp n = Done r" using probe_ok[OF assms(1-3), of f n] assms(4) by blast
  with Cons show ?case by auto
qed simp

lemma delete_targets:
  assumes "\<forall>n\<in>set ns. p \<noteq> target_bin_path pp n"
  shows "fold (\<lambda>n f. f(target_bin_path pp n := None)) ns f p = f p"
  using assms by (induction ns arbitrary: f) auto

section \<open>The state after the search for DPDK\<close>

definition found_dpdk :: "path \<Rightarrow> path \<Rightarrow> string \<Rightarrow> build_state \<Rightarrow> bool" where
  "found_dpdk proj out machine st \<longleftrightarrow> project_path st = proj \<and> out_path st = out \<and>
     include_path st = Some inc_dir \<and> library_path st = Some (lib_dir machine) \<and>
     dpdk_config st = Some config_header"

lemma found_dpdk_updates [simp]:
  "found_dpdk proj out machine (st\<lparr>dpdk_links := a\<rparr>) = found_dpdk proj out machine st"
  "found_dpdk proj out machine (st\<lparr>dpdk_headers := b\<rparr>) = found_dpdk proj out machine st"
  "found_dpdk proj out machine (st\<lparr>eal_function_use_defs := c, global_eal_function_use_defs := d\<rparr>) =
     found_dpdk proj out machine st"
  "found_dpdk proj out machine (st\<lparr>static_functions := e\<rparr>) = found_dpdk proj out machine st"
  "found_dpdk proj out machine (st\<lparr>static_constants := f\<rparr>) = found_dpdk proj out machine st"
  by (simp_all add: found_dpdk_def)

lemma found_links:
  assumes "found_dpdk proj out machine st" and "dpdk_installed h (files w) proj machine"
  shows "\<exists>xs. find_link_libs h st w = Done (st\<lparr>dpdk_links := map (lib_file (lib_dir machine)) xs\<rparr>) \<and> xs \<noteq> [] \<and>
     (\<forall>x\<in>set xs. lib_name_ok x)"
proof -
  let ?d = "lib_dir machine"
  obtain ls where ls: "read_dir h ?d = Some ls" "names_utf8 ls" and ne: "rte_libs_in (files w) ?d ls \<noteq> {}"
    and nl: "\<And>n. Some n \<in> set ls \<Longrightarrow> CHR 0x0A \<notin> set n"
    using assms(2) by (auto simp: dpdk_installed_def)
  let ?links = "sorted_list_of_set (rte_libs_in (files w) ?d ls)"
  have lib: "\<exists>x. l = lib_file ?d x \<and> lib_name_ok x" if "l \<in> rte_libs_in (files w) ?d ls" for l
  proof -
    from that obtain n m where l: "l = ?d @ [n]" and n: "Some n \<in> set ls" "n = ''librte_'' @ m @ ''.a''"
      by (auto simp: rte_libs_in_def is_rte_lib_def)
    have "n = (''librte_'' @ m) @ ''.'' @ ''a''" using n(2) by simp
    then have "fst (split_dot n) = ''librte_'' @ m" using split_dot_ext[of "''librte_'' @ m" "''a''"] by simp
    moreover have "is_utf8 (fst (split_dot n))" using ls(2) n(1) unfolding names_utf8_def by blast
    ultimately have "is_utf8 (''librte_'' @ m)" by (simp only:)
    then have "is_utf8 (''rte_'' @ m)" by (simp add: byte_def)
    moreover have "CHR 0x0A \<notin> set (''rte_'' @ m)" using nl[OF n(1)] n(2) by simp
    ultimately show ?thesis using l n(2) by (intro exI[of _ "''rte_'' @ m"]) (simp add: lib_file_def lib_name_ok_def)
  qed
  then have "\<forall>l\<in>set ?links. \<exists>x. l = lib_file ?d x \<and> lib_name_ok x" by simp
  then obtain g where g: "\<forall>l\<in>set ?links. l = lib_file ?d (g l) \<and> lib_name_ok (g l)" by metis
  then have "map (lib_file ?d) (map g ?links) = ?links" unfolding map_map by (intro map_idI) simp
  moreover have "find_link_libs h st w = Done (st\<lparr>dpdk_links := ?links\<rparr>)"
    using find_link_libs_run[of st ?d h ls w] assms(1) ls ne by (simp add: found_dpdk_def)
  moreover have "map g ?links \<noteq> []" using ne by simp
  ultimately show ?thesis using g by (intro exI[of _ "map g ?links"]) (simp del: map_map)
qed

lemma all_headers:
  assumes "found_dpdk proj out machine st" and "dpdk_installed h (files w) proj machine" and "disk_ok h"
    and "templates_ok h (files w) proj out td th tc tlib"
  shows "\<exists>hs s. make_all_in_one_header h st w = Done (st\<lparr>dpdk_headers := hs\<rparr>, set_file (out @ [''dpdk.h'']) s w)"
proof -
  obtain hs where "read_dir h inc_dir = Some hs" "names_utf8 hs" "headers_in (files w) inc_dir config_header hs \<noteq> {}"
    using assms(2) by (auto simp: dpdk_installed_def)
  with make_header_run[of st inc_dir config_header h hs w] assms show ?thesis
    by (auto simp: found_dpdk_def templates_ok_def Let_def written_ok disk_ok_def written_def)
qed

section \<open>The generated files\<close>

lemma template_atI:
  "templates_ok h f proj out td th tc tlib \<Longrightarrow> project_path st = proj \<Longrightarrow>
     files w (proj @ [''gen'', n]) = f (proj @ [''gen'', n]) \<Longrightarrow>
     (n, t) \<in> {(''static.h.template'', th), (''static.c.template'', tc), (''lib.rs.template'', tlib)} \<Longrightarrow>
     template_at st w n t"
  by (auto simp: template_at_def templates_ok_def)

lemma constants_ok:
  assumes "found_dpdk proj out machine st" and "env_ok h proj out machine" and "clang_ok h out es ms" and "tools_ok h proj"
    and "\<And>n. files w (out @ [''int_test_'' @ n]) \<noteq> Some DirNode" and "files w (out @ [''dpdk.h'']) \<noteq> None"
  shows "\<exists>cs w1. find_constants h st w = Done (cs, w1) \<and>
     (\<forall>p. (\<forall>n. last p \<noteq> ''int_test_'' @ n) \<longrightarrow> files w1 p = files w p)"
proof -
  have st: "include_path st = Some inc_dir" "dpdk_config st = Some config_header" "out_path st = out"
    using assms(1) by (simp_all add: found_dpdk_def)
  obtain cc where cc: "cc_path h = Some cc" "is_utf8 cc" and out: "is_utf8 (path_str out)"
    using assms(2) by (auto simp: env_ok_def)
  have tu: "trans_unit_from_header h st w (out_path st @ [''dpdk.h'']) True = Done ms"
    using trans_unit_run[of st h w "out @ [''dpdk.h'']" True ms] st out assms(3,6) by (simp add: clang_ok_def)
  have proj: "project_path st = proj" using assms(1) by (simp add: found_dpdk_def)
  obtain pp where pp: "probe_paths_of h st = Done pp" "pp_config pp = config_header" "pp_out pp = out"
      "pp_template pp = proj @ [''gen'', ''int_test.c'']"
    using st cc out is_utf8_config proj by (simp add: probe_paths_of_def to_str_def)
  have "files w (target_bin_path pp n) \<noteq> Some DirNode" for n
    using assms(5)[of "show_dec (pp_start pp) @ ''_'' @ n"] pp(3) by (simp add: target_bin_path_def)
  then obtain rs where rs: "probe_all h (files w) pp (macro_candidates h ms) = Done rs"
    using probe_all_ok[OF assms(4) pp(4), of "files w"] pp(2) is_utf8_config(2) by auto
  obtain cs w1 where run: "find_constants h st w = Done (cs, w1)"
    "files w1 = fold (\<lambda>n f. f(target_bin_path pp n := None)) (macro_candidates h ms) (files w)"
    using find_constants_run[OF tu pp(1) rs] unfolding Let_def by blast
  have "files w1 p = files w p" if "\<forall>n. last p \<noteq> ''int_test_'' @ n" for p
  proof -
    have "p \<noteq> target_bin_path pp n" for n
      using that by (metis last_snoc target_bin_path_def)
    then show ?thesis unfolding run(2) by (intro delete_targets) blast
  qed
  with run(1) show ?thesis by blast
qed

lemma constants_stage_ok:
  assumes "found_dpdk proj out machine st" and "env_ok h proj out machine" and "clang_ok h out es ms" and "tools_ok h proj"
    and "templates_ok h (files w) proj out td th tc tlib" and "files w (out @ [''dpdk.h'']) \<noteq> None"
  shows "\<exists>body w2. constants_stage h st w = Done (body, w2) \<and>
     (\<forall>p. (\<forall>n. last p \<noteq> ''int_test_'' @ n) \<longrightarrow> files w2 p = files w p)"
proof (cases "env_var h ''CARGO_FEATURE_CONSTANTS_CACHE'' = None")
  case True
  have "\<And>n. files w (out @ [''int_test_'' @ n]) \<noteq> Some DirNode" using assms(5) by (simp add: templates_ok_def)
  with constants_ok[of proj out machine st h es ms w] assms(1-4,6) True show ?thesis
    by (auto simp: constants_stage_def)
next
  case False
  then obtain node where "files w (proj @ [''gen'', ''constants.rs.cache'']) = Some node"
    using assms(5) by (auto simp: templates_ok_def)
  with False assms(1) show ?thesis
    by (cases node) (auto simp: constants_stage_def read_template_def Let_def found_dpdk_def)
qed

definition static_files :: "path \<Rightarrow> entity list \<Rightarrow> string \<Rightarrow> string \<Rightarrow> bworld \<Rightarrow> bworld" where
  "static_files out es th tc w =
     set_file (out @ [''static.c'']) (static_c_text es tc) (set_file (out @ [''static.h'']) (static_h_text es th) w)"

lemma static_step:
  assumes "found_dpdk proj out machine st" and "env_ok h proj out machine" and "clang_ok h out es ms" and "tools_ok h proj"
    and "templates_ok h (files w) proj out td th tc tlib" and "static_functions st = []" and "files w (out @ [''dpdk.h'']) \<noteq> None"
  shows "\<exists>body w2. generate_static_impls_and_link_pmds h st w =
       Done (st\<lparr>static_functions := fn_names (lists_of (static_apis es)), static_constants := body\<rparr>,
         static_files out es th tc w2) \<and>
     (\<forall>p. (\<forall>n. last p \<noteq> ''int_test_'' @ n) \<longrightarrow> files w2 p = files w p)"
proof -
  let ?l = "lists_of (static_apis es)"
  let ?st = "st\<lparr>static_functions := fn_names ?l\<rparr>"
  have st: "include_path st = Some inc_dir" "dpdk_config st = Some config_header" "out_path st = out"
    "project_path st = proj" and out: "is_utf8 (path_str out)"
    using assms(1,2) by (simp_all add: found_dpdk_def env_ok_def)
  have tu: "trans_unit_from_header h st w (out_path st @ [''dpdk.h'']) False = Done es"
    using trans_unit_run[of st h w "out @ [''dpdk.h'']" False es] st out assms(3,7) by (simp add: clang_ok_def)
  have fns: "static_functions_of es \<lparr>fn_names = static_functions st, static_def_list = [], static_impl_list = []\<rparr> = Done ?l"
    using static_functions_apis[of es] assms(3,6) by (simp add: clang_ok_def)
  obtain body w2 where body: "constants_stage h ?st w = Done (body, w2)"
    and same: "\<And>p. \<forall>n. last p \<noteq> ''int_test_'' @ n \<Longrightarrow> files w2 p = files w p"
    using constants_stage_ok[of proj out machine ?st h es ms w td th tc tlib] assms(1-5,7) by auto
  have "template_at ?st w2 ''static.h.template'' th" "template_at ?st w2 ''static.c.template'' tc"
    by (rule template_atI[OF assms(5)]; use st same in simp)+
  note at = this[unfolded template_at_def]
  have clang: "clang_available h" and disk: "disk_ok h" using assms(3,4) by (simp_all add: clang_ok_def tools_ok_def)
  have texts: "static_texts h ?st ?l w2 = Done (static_files out es th tc w2)"
    unfolding static_texts_run Let_def using at disk st(3)
    by (simp add: template_text_def written_ok static_files_def) (simp add: disk_ok_def)
  have "generate_static_impls_and_link_pmds h st w = Done (?st\<lparr>static_constants := body\<rparr>, static_files out es th tc w2)"
    unfolding generate_static_impls_and_link_pmds_def tu fns Let_def andthen.simps eqTrueI[OF clang] assert_that_simps
      body prod.case texts
    by simp
  with same show ?thesis by auto
qed

section \<open>The last steps\<close>

text \<open>The arguments of the bindings generator and of the compiler.\<close>

definition rust_def_args :: "path \<Rightarrow> string list" where
  "rust_def_args out = [''-I'' @ path_str inc_dir, ''-I'' @ path_str out, ''-imacros'', path_str config_header, ''-march=native'',
     ''-Wno-everything'', ''-DALLOW_INTERNAL_API'']"

definition opaque_types :: "string list" where
  "opaque_types = [''vmbus_bufring'', ''rte_avp_desc'', ''rte_.*_hdr'', ''rte_arp_ipv4'', ''__*'']"

definition wrapper_options :: "path \<Rightarrow> cc_option list" where
  "wrapper_options out = [CcFile (out @ [''static.c'']), CcStaticFlag True, CcSharedFlag False, CcOptLevel 3, CcInclude inc_dir,
     CcInclude out, CcFlag ''-w'', CcFlag ''-march=native'', CcFlag ''-imacros'', CcFlag (path_str config_header)]"

lemma rust_def_run:
  assumes "found_dpdk proj out machine st" and "env_ok h proj out machine" and "tools_ok h proj"
  shows "generate_rust_def h st w = andthen (unwrap (bindgen h (files w) (path_str (out @ [''static.h''])) (rust_def_args out) opaque_types))
     (\<lambda>b. Done (set_file (out @ [''dpdk.rs'']) b w))"
proof -
  have st: "include_path st = Some inc_dir" "dpdk_config st = Some config_header" "out_path st = out"
    and out: "is_utf8 (path_str out)"
    using assms(1,2) by (simp_all add: found_dpdk_def env_ok_def)
  have join: "join_with ''/'' (p @ [n]) = (if p = [] then n else join_with ''/'' p @ ''/'' @ n)" for p n
    by (induction "''/''" p rule: join_with.induct) auto
  have "is_utf8 (path_str (out @ [''static.h'']))"
    using is_utf8_append[OF out, of "''/static.h''"] by (simp add: path_str_def join byte_def)
  then show ?thesis
    using assms(3) st out is_utf8_config
    by (simp add: generate_rust_def_def to_str_def tools_ok_def write_target_ok rust_def_args_def opaque_types_def)
qed

lemma compile_ok:
  assumes "found_dpdk proj out machine st" and "env_ok h proj out machine" and "tools_ok h proj"
    and "dpdk_links st = map (lib_file d) xs" and "\<forall>x\<in>set xs. lib_name_ok x"
  shows "\<exists>more. compile h st w = andthen (unwrap (cc_compile h (files w) (wrapper_options out) ''lib_static_wrapper.a''))
     (\<lambda>ls. Done (w\<lparr>cargo_out := cargo_out w @ ls @ more\<rparr>))"
proof -
  obtain cc where cc: "cc_path h = Some cc" "is_utf8 cc" and lib: "is_utf8 (path_str (lib_dir machine))"
    using assms(2) by (auto simp: env_ok_def)
  have st: "include_path st = Some inc_dir" "dpdk_config st = Some config_header" "library_path st = Some (lib_dir machine)"
    "out_path st = out" and re: "regex_ok h" using assms(1,3) by (simp_all add: found_dpdk_def tools_ok_def)
  show ?thesis
  proof (cases "cc_compile h (files w) (wrapper_options out) ''lib_static_wrapper.a''")
    case None
    then have "compile h st w = Panic"
      unfolding compile_def st unwrap_simps andthen.simps to_str_utf8[OF is_utf8_config(2)] by (simp add: wrapper_options_def)
    with None show ?thesis by simp
  next
    case (Some ls)
    from compile_run[OF st(1-3) is_utf8_config(2) lib Some[folded st(4), unfolded wrapper_options_def] cc re assms(4,5)] Some
    show ?thesis by auto
  qed
qed

section \<open>The whole script\<close>

lemma extract_run:
  assumes "found_dpdk proj out machine st" and "env_ok h proj out machine" and "clang_ok h out es ms"
    and "files w (out @ [''dpdk.h'']) \<noteq> None"
  shows "extract_eal_apis h st w =
     Done (st\<lparr>eal_function_use_defs := map snd (hash_order h 0 (api_map ''&self, '' (trivial_apis es))),
              global_eal_function_use_defs := map snd (hash_order h 1 (api_map [] (trivial_apis es)))\<rparr>)"
proof (rule extract_eal_run)
  show "clang_available h" using assms(3) by (simp add: clang_ok_def)
  show "trans_unit_from_header h st w (out_path st @ [''dpdk.h'']) False = Done es"
    using trans_unit_run[of st h w "out @ [''dpdk.h'']" False es] assms
    by (simp add: found_dpdk_def clang_ok_def env_ok_def)
  show "args_typed es" using assms(3) by (simp add: clang_ok_def)
qed

lemma first_steps:
  assumes "env_ok h proj out machine" and "dpdk_installed h (files w) proj machine" and "disk_ok h"
    and "templates_ok h (files w) proj out td th tc tlib"
  shows "\<exists>st xs s w4. found_dpdk proj out machine st \<and> static_functions st = [] \<and>
     dpdk_links st = map (lib_file (lib_dir machine)) xs \<and> xs \<noteq> [] \<and> (\<forall>x\<in>set xs. lib_name_ok x) \<and>
     files w4 = (files w)(out @ [''dpdk.h''] \<mapsto> FileNode s) \<and>
     (\<forall>k :: build_state \<times> bworld \<Rightarrow> (build_state \<times> bworld) outcome. andthen (State_new h) (\<lambda>st0. andthen (check_os st0) (\<lambda>_. andthen (check_compiler h st0) (\<lambda>st1.
       andthen (find_dpdk h st1 w) (\<lambda>(st2, w2). andthen (find_link_libs h st2 w2) (\<lambda>st3.
       andthen (make_all_in_one_header h st3 w2) k))))) = k (st, w4))"
proof -
  obtain st0 sys where st0: "State_new h = Done st0" "project_path st0 = proj" "out_path st0 = out"
    "static_functions st0 = []" and st1: "check_compiler h st0 = Done (st0\<lparr>system_include_path := sys\<rparr>)"
    using env_ok_state[OF assms(1)] by metis
  let ?st2 = "st0\<lparr>system_include_path := sys, include_path := Some inc_dir, library_path := Some (lib_dir machine),
     dpdk_config := Some config_header\<rparr>"
  obtain w2 where w2: "find_dpdk h (st0\<lparr>system_include_path := sys\<rparr>) w = Done (?st2, w2)" "files w2 = files w"
    using find_dpdk_run[OF assms(1,2), of "st0\<lparr>system_include_path := sys\<rparr>"] st0(2) by auto
  have found: "found_dpdk proj out machine ?st2" using st0 by (simp add: found_dpdk_def)
  obtain xs where xs: "find_link_libs h ?st2 w2 = Done (?st2\<lparr>dpdk_links := map (lib_file (lib_dir machine)) xs\<rparr>)"
    "xs \<noteq> []" "\<forall>x\<in>set xs. lib_name_ok x"
    using found_links[OF found, of h w2] assms(2) w2(2) by auto
  let ?st3 = "?st2\<lparr>dpdk_links := map (lib_file (lib_dir machine)) xs\<rparr>"
  have found3: "found_dpdk proj out machine ?st3" using found by simp
  obtain hs s where hs: "make_all_in_one_header h ?st3 w2 = Done (?st3\<lparr>dpdk_headers := hs\<rparr>, set_file (out @ [''dpdk.h'']) s w2)"
    using all_headers[OF found3, of h w2 td th tc tlib] assms(2-4) w2(2) by auto
  show ?thesis
  proof (intro exI conjI allI)
    show "found_dpdk proj out machine (?st3\<lparr>dpdk_headers := hs\<rparr>)" using found3 by simp
    show "files (set_file (out @ [''dpdk.h'']) s w2) = (files w)(out @ [''dpdk.h''] \<mapsto> FileNode s)" using w2(2) by simp
    show "static_functions (?st3\<lparr>dpdk_headers := hs\<rparr>) = []" using st0(4) by simp
    show "dpdk_links (?st3\<lparr>dpdk_headers := hs\<rparr>) = map (lib_file (lib_dir machine)) xs" by simp
    show "xs \<noteq> []" "\<forall>x\<in>set xs. lib_name_ok x" by (rule xs)+
    show "andthen (State_new h) (\<lambda>st0. andthen (check_os st0) (\<lambda>_. andthen (check_compiler h st0) (\<lambda>st1.
       andthen (find_dpdk h st1 w) (\<lambda>(st2, w2). andthen (find_link_libs h st2 w2) (\<lambda>st3.
       andthen (make_all_in_one_header h st3 w2) k))))) = k (?st3\<lparr>dpdk_headers := hs\<rparr>, set_file (out @ [''dpdk.h'']) s w2)" for k :: "build_state \<times> bworld \<Rightarrow> (build_state \<times> bworld) outcome"
      unfolding st0(1) st1 check_os_def andthen.simps w2(1) prod.case xs(1) hs by (rule refl)
  qed
qed

lemma templates_kept:
  "templates_ok h f proj out td th tc tlib \<Longrightarrow> templates_ok h (f(out @ [''dpdk.h''] \<mapsto> FileNode s)) proj out td th tc tlib"
  by (auto simp: templates_ok_def)

lemma last_steps:
  assumes "found_dpdk proj out machine st" and "env_ok h proj out machine" and "tools_ok h proj"
    and "dpdk_links st = map (lib_file d) xs" and "\<forall>x\<in>set xs. lib_name_ok x"
    and "template_at st w ''lib.rs.template'' tlib"
  shows "\<exists>more. andthen (generate_rust_def h st w) (\<lambda>w7. andthen (generate_lib_rs h st w7) (compile h st)) =
     andthen (unwrap (bindgen h (files w) (path_str (out @ [''static.h''])) (rust_def_args out) opaque_types)) (\<lambda>b.
       let w8 = set_file (out @ [''lib.rs'']) (fill_lib_rs st tlib) (set_file (out @ [''dpdk.rs'']) b w)
       in andthen (unwrap (cc_compile h (files w8) (wrapper_options out) ''lib_static_wrapper.a'')) (\<lambda>ls.
          Done (w8\<lparr>cargo_out := cargo_out w @ ls @ more b\<rparr>)))"
proof -
  let ?w8 = "\<lambda>b. set_file (out @ [''lib.rs'']) (fill_lib_rs st tlib) (set_file (out @ [''dpdk.rs'']) b w)"
  have "template_at st (set_file (out @ [''dpdk.rs'']) b w) ''lib.rs.template'' tlib" for b
    using assms(6) by (simp add: template_other)
  from template_read[OF this] have lib: "generate_lib_rs h st (set_file (out @ [''dpdk.rs'']) b w) = Done (?w8 b)" for b
    using assms(1,3) by (simp add: generate_lib_rs_def write_target_ok found_dpdk_def tools_ok_def)
  have "\<forall>b. \<exists>more. compile h st (?w8 b) = andthen (unwrap (cc_compile h (files (?w8 b)) (wrapper_options out) ''lib_static_wrapper.a''))
     (\<lambda>ls. Done ((?w8 b)\<lparr>cargo_out := cargo_out w @ ls @ more\<rparr>))"
    using compile_ok[OF assms(1-5)] by (metis set_file_simps(2))
  then obtain more where more: "compile h st (?w8 b) = andthen (unwrap (cc_compile h (files (?w8 b)) (wrapper_options out) ''lib_static_wrapper.a''))
     (\<lambda>ls. Done ((?w8 b)\<lparr>cargo_out := cargo_out w @ ls @ more b\<rparr>))" for b by metis
  show ?thesis unfolding rust_def_run[OF assms(1-3)] Let_def
    by (intro exI[of _ more]) (simp only: andthen_assoc andthen.simps lib more)
qed

text \<open>The first slot of the template: the re-exports stand in \<^verbatim>\<open>lib.rs\<close> whatever the later slots are filled with.\<close>

lemma lib_rs_uses:
  assumes "no_percent pre" and "\<forall>n\<in>set (static_functions st). no_percent n"
  shows "prefix (pre @ join_with newline (map static_use (static_functions st)))
    (fill_lib_rs st (pre @ ''%static_use_defs%'' @ rest))"
proof -
  let ?uses = "join_with newline (map static_use (static_functions st))"
  have join: "no_percent (join_with newline xs)" if "\<forall>x\<in>set xs. no_percent x" for xs
    using that by (induction newline xs rule: join_with.induct) (auto simp: no_percent_def)
  have np: "no_percent ?uses" by (rule join) (use assms(2) in \<open>auto simp: no_percent_def static_use_def PREFIX_def\<close>)
  have pats: "''%static_use_defs%'' = slot ''static_use_defs''" "''%static_constants%'' = slot ''static_constants''"
    "''%static_eal_functions%'' = slot ''static_eal_functions''"
    "''%global_static_eal_functions%'' = slot ''global_static_eal_functions''"
    by (simp_all add: slot_def)
  have "fill_lib_rs st (pre @ ''%static_use_defs%'' @ rest) = (pre @ ?uses) @
     replace_str (slot ''global_static_eal_functions'') (join_with newline (map indent (global_eal_function_use_defs st)))
       (replace_str (slot ''static_eal_functions'') (join_with newline (map indent (eal_function_use_defs st)))
       (replace_str (slot ''static_constants'') (static_constants st) (replace_str (slot ''static_use_defs'') ?uses rest)))"
    unfolding fill_lib_rs_def Let_def pats slot_skip[OF assms(1)] slot_hit slot_skip[OF np] append_assoc by (rule refl)
  then show ?thesis by (metis prefixI)
qed

text \<open>C7. The build script on a machine with DPDK installed: readable paths and tool outputs, the templates in place, files that can be created and
  whose contents reach the disk, the first slot of \<^verbatim>\<open>lib.rs.template\<close> with no percent sign before it, a libclang that parses the generated \<^verbatim>\<open>dpdk.h\<close>, with a type for every argument and no wrapped function with an array argument of variable or dependent size (\<^verbatim>\<open>format_arg\<close> panics on it), and test programs of \<^verbatim>\<open>int_test.c\<close> that print a number whenever they compile.  Whatever order directories, hash maps and threads
  have, the script then gets to the two external generators without a panic, and its outcome is theirs: it panics when \<^verbatim>\<open>bindgen\<close> rejects the
  \<^verbatim>\<open>static.h\<close> it is given or the C compiler the \<^verbatim>\<open>static.c\<close>, and ends with \<^verbatim>\<open>dpdk.rs\<close>, \<^verbatim>\<open>lib.rs\<close> and the lines for cargo written
  otherwise.  The two files hold the wrappers; \<^verbatim>\<open>lib.rs\<close> is the filled template, and what it has in place of the first slot
  re-exports every non-hidden inline function once; every function that the EAL traits call is
  among them.  At least one library is found.\<close>

theorem build_main_outcome:
  assumes "env_ok h proj out machine" and "dpdk_installed h (files w) proj machine" and "clang_ok h out es ms"
    and "tools_ok h proj" and "templates_ok h (files w) proj out td th tc (pre @ ''%static_use_defs%'' @ rest)" and "no_percent pre"
  shows "\<exists>st w6 more. build_main h w =
       andthen (unwrap (bindgen h (files w6) (path_str (out @ [''static.h''])) (rust_def_args out) opaque_types)) (\<lambda>b.
       let w8 = set_file (out @ [''lib.rs'']) (fill_lib_rs st (pre @ ''%static_use_defs%'' @ rest)) (set_file (out @ [''dpdk.rs'']) b w6)
       in andthen (unwrap (cc_compile h (files w8) (wrapper_options out) ''lib_static_wrapper.a'')) (\<lambda>ls.
          Done (st, w8\<lparr>cargo_out := cargo_out w6 @ ls @ more b\<rparr>))) \<and>
     files w6 (out @ [''static.h'']) = Some (FileNode (static_h_text es th)) \<and>
     files w6 (out @ [''static.c'']) = Some (FileNode (static_c_text es tc)) \<and>
     prefix (pre @ join_with newline (map static_use (static_functions st)))
       (fill_lib_rs st (pre @ ''%static_use_defs%'' @ rest)) \<and>
     distinct (static_functions st) \<and> set (static_functions st) = {n. \<exists>f\<in>set es. static_api f \<and> e_name f = Some n} \<and>
     (\<forall>f\<in>set (trivial_apis es). the (e_name f) \<in> set (static_functions st)) \<and> dpdk_links st \<noteq> []"
proof -
  let ?tlib = "pre @ ''%static_use_defs%'' @ rest"
  have disk: "disk_ok h" using assms(4) by (simp add: tools_ok_def)
  obtain st xs s w4 where st: "found_dpdk proj out machine st" "static_functions st = []"
      "dpdk_links st = map (lib_file (lib_dir machine)) xs" "xs \<noteq> []" "\<forall>x\<in>set xs. lib_name_ok x"
    and w4: "files w4 = (files w)(out @ [''dpdk.h''] \<mapsto> FileNode s)"
    and first: "\<And>k :: build_state \<times> bworld \<Rightarrow> (build_state \<times> bworld) outcome. andthen (State_new h) (\<lambda>st0. andthen (check_os st0) (\<lambda>_. andthen (check_compiler h st0) (\<lambda>st1.
       andthen (find_dpdk h st1 w) (\<lambda>(st2, w2). andthen (find_link_libs h st2 w2) (\<lambda>st3.
       andthen (make_all_in_one_header h st3 w2) k))))) = k (st, w4)"
    using first_steps[OF assms(1,2) disk assms(5)] by blast
  have templates: "templates_ok h (files w4) proj out td th tc ?tlib" using templates_kept[OF assms(5)] w4 by simp
  have dpdk_h: "files w4 (out @ [''dpdk.h'']) \<noteq> None" using w4 by simp
  let ?eal = "st\<lparr>eal_function_use_defs := map snd (hash_order h 0 (api_map ''&self, '' (trivial_apis es))),
              global_eal_function_use_defs := map snd (hash_order h 1 (api_map [] (trivial_apis es)))\<rparr>"
  have eal: "extract_eal_apis h st w4 = Done ?eal" by (rule extract_run[OF st(1) assms(1,3) dpdk_h])
  have found: "found_dpdk proj out machine ?eal" using st(1) by simp
  obtain body w6 where static: "generate_static_impls_and_link_pmds h ?eal w4 =
       Done (?eal\<lparr>static_functions := fn_names (lists_of (static_apis es)), static_constants := body\<rparr>,
         static_files out es th tc w6)"
    and same: "\<And>p. \<forall>n. last p \<noteq> ''int_test_'' @ n \<Longrightarrow> files w6 p = files w4 p"
    using static_step[OF found assms(1,3,4) templates _ dpdk_h] st(2) by auto
  let ?st = "?eal\<lparr>static_functions := fn_names (lists_of (static_apis es)), static_constants := body\<rparr>"
  let ?w6 = "static_files out es th tc w6"
  have "template_at ?st ?w6 ''lib.rs.template'' ?tlib"
    unfolding static_files_def using st(1) templates same
    by (simp add: template_other) (rule template_atI[OF templates]; simp add: found_dpdk_def)
  then obtain more where last: "andthen (generate_rust_def h ?st ?w6) (\<lambda>w7. andthen (generate_lib_rs h ?st w7) (compile h ?st)) =
     andthen (unwrap (bindgen h (files ?w6) (path_str (out @ [''static.h''])) (rust_def_args out) opaque_types)) (\<lambda>b.
       let w8 = set_file (out @ [''lib.rs'']) (fill_lib_rs ?st ?tlib) (set_file (out @ [''dpdk.rs'']) b ?w6)
       in andthen (unwrap (cc_compile h (files w8) (wrapper_options out) ''lib_static_wrapper.a'')) (\<lambda>ls.
          Done (w8\<lparr>cargo_out := cargo_out ?w6 @ ls @ more b\<rparr>)))"
    using last_steps[of proj out machine ?st h "lib_dir machine" xs ?w6 ?tlib] found assms(1,4) st(3,5) by auto
  have run: "build_main h w = andthen (andthen (generate_rust_def h ?st ?w6) (\<lambda>w7. andthen (generate_lib_rs h ?st w7) (compile h ?st)))
     (\<lambda>w9. Done (?st, w9))"
    unfolding build_main_def first prod.case eal andthen.simps static by (simp only: andthen_assoc)
  have names: "distinct (static_functions ?st)" "set (static_functions ?st) = {n. \<exists>f\<in>set es. static_api f \<and> e_name f = Some n}"
    using static_apis_names[of es] by simp_all
  have "\<forall>n\<in>set (static_functions ?st). no_percent n" using assms(3) by (simp add: clang_ok_def lists_of_def)
  note uses = lib_rs_uses[OF assms(6) this, of rest]
  have apis: "the (e_name f) \<in> set (static_functions ?st)" if "f \<in> set (trivial_apis es)" for f
  proof -
    have "f \<in> set es" "trivial_api f" using that trivial_apis_names(3) by auto
    then show ?thesis unfolding names(2) by (auto simp: trivial_api_def static_api_def primitive_def)
  qed
  have files: "files ?w6 (out @ [''static.h'']) = Some (FileNode (static_h_text es th))"
    "files ?w6 (out @ [''static.c'']) = Some (FileNode (static_c_text es tc))" by (simp_all add: static_files_def)
  have links: "dpdk_links ?st \<noteq> []" using st(3,4) by simp
  have main: "build_main h w =
       andthen (unwrap (bindgen h (files ?w6) (path_str (out @ [''static.h''])) (rust_def_args out) opaque_types)) (\<lambda>b.
       let w8 = set_file (out @ [''lib.rs'']) (fill_lib_rs ?st ?tlib) (set_file (out @ [''dpdk.rs'']) b ?w6)
       in andthen (unwrap (cc_compile h (files w8) (wrapper_options out) ''lib_static_wrapper.a'')) (\<lambda>ls.
          Done (?st, w8\<lparr>cargo_out := cargo_out ?w6 @ ls @ more b\<rparr>)))"
    unfolding run last Let_def by (simp only: andthen_assoc andthen.simps)
  show ?thesis
    by (rule exI[of _ ?st], rule exI[of _ ?w6], rule exI[of _ more]) (intro conjI main files uses names links ballI apis)
qed

end
