(* ===== verification/Build_Demo.thy ===== *)
theory Build_Demo
  imports Build_Main
begin

text \<open>
  A small machine on which the build script runs: two headers of DPDK, three libraries, one driver whose dependency is
  missing, three functions and one macro.  It shows that what \<open>Build_Main\<close> and the other parts assume of the host
  can hold together.
\<close>

definition demo_file :: "path \<Rightarrow> string \<Rightarrow> path \<times> fnode" where
  "demo_file p s = (p, FileNode s)"

definition demo_lib :: path where
  "demo_lib = [''usr'', ''local'', ''lib'', ''x64'']"

definition demo_lib_template :: string where
  "demo_lib_template = slots_filled [[], [], ''trait A {'' @ newline, ''}'' @ newline @ ''trait B {'' @ newline, ''}'' @ newline]
     lib_rs_slots"

definition demo_files :: "(path \<times> fnode) list" where
  "demo_files =
     [demo_file config_header [], demo_file build_config_header [],
      demo_file (inc_dir @ [''rte_ring.h'']) [], demo_file (inc_dir @ [''rte_ring_core.h'']) [],
      demo_file (demo_lib @ [''librte_eal.a'']) [], demo_file (demo_lib @ [''librte_net_ring.a'']) [],
      demo_file (demo_lib @ [''librte_net_mlx5.a'']) [],
      demo_file [''p'', ''gen'', ''dpdk.h.template''] (''%header_list%'' @ newline),
      demo_file [''p'', ''gen'', ''static.h.template''] (''%header_defs%'' @ newline),
      demo_file [''p'', ''gen'', ''static.c.template''] (''%static_impls%'' @ newline),
      demo_file [''p'', ''gen'', ''lib.rs.template''] demo_lib_template]"

definition demo_world :: bworld where
  "demo_world = \<lparr>files = map_of demo_files, cargo_out = []\<rparr>"

definition demo_fn :: "string \<Rightarrow> storage_class \<Rightarrow> carg list \<Rightarrow> entity" where
  "demo_fn name storage args =
     \<lparr>e_kind = FunctionDecl, e_name = Some name, e_storage = Some storage, e_result_type = Some (OtherType ''int''),
      e_is_declaration = True, e_is_inline = True, e_comment = None, e_arguments = Some args, e_is_builtin = False,
      e_is_function_like = False\<rparr>"

definition demo_arg :: "string \<Rightarrow> ctype \<Rightarrow> carg" where
  "demo_arg n t = \<lparr>arg_display_name = Some n, arg_type = Some t\<rparr>"

definition demo_functions :: "entity list" where
  "demo_functions =
     [demo_fn ''rte_add'' Static [demo_arg ''a'' (OtherType ''int''), demo_arg ''b'' (OtherType ''int'')],
      demo_fn ''rte_sum'' Static [demo_arg ''v'' (ConstantArray ''int[2]'' (OtherType ''int'') 2)],
      demo_fn ''rte_exit'' OtherStorage [demo_arg ''a'' (OtherType ''int'')]]"

definition demo_macros :: "entity list" where
  "demo_macros = [(demo_fn ''RTE_MAX'' OtherStorage [])\<lparr>e_kind := MacroDefinition\<rparr>]"

definition demo_host :: host where
  "demo_host =
     \<lparr>env_var = (\<lambda>v. if v = ''OUT_DIR'' then Some ''/o'' else None), current_dir = Some [''p''],
      canonicalize = (\<lambda>s. Some (path_of_str s)),
      read_dir = (\<lambda>d. Some (if d = inc_dir then [Some ''rte_ring_core.h'', None, Some ''rte_ring.h'', Some ''rte_config.h'']
        else if d = demo_lib then [Some ''librte_net_ring.a'', Some ''librte_net_mlx5.a'', Some ''librte_eal.a'']
        else [Some ''lib.rs.template''])),
      bash_stdout = (\<lambda>_. Some ''/usr/include''), dumpmachine = Some ''x64'', can_create = (\<lambda>_. True),
      disk_write = (\<lambda>_ s. s), clang_available = True,
      clang_parse = (\<lambda>f p m args. Some (0, if m then demo_macros else demo_functions)),
      hash_order = (\<lambda>i xs. if i = 0 then xs else rev xs),
      re_is_match = (\<lambda>_ s. list_ex (\<lambda>c. 65 \<le> byte c \<and> byte c \<le> 90) s),
      re_captures = (\<lambda>_ s. Some (take (length s - 5) (drop 3 s))),
      cc_path = Some ''cc'',
      cc_run = (\<lambda>f args. if ''-lmlx5'' \<in> set args \<or> ''-D__CHECK_FMT=U64_FMT'' \<in> set args then CcFailed else CcOk []),
      exec_program = (\<lambda>_. Some ''7''), num_cpus = 2, worker_of = (\<lambda>i. i mod 2), start_millis = 1,
      compile_seconds = ''1'', bindgen = (\<lambda>_ _ _ _. Some []), cc_compile = (\<lambda>_ _ _. Some [])\<rparr>"

lemma demo_dirs: "lib_dir ''x64'' = demo_lib"
  by code_simp

lemma demo_env: "env_ok demo_host [''p''] [''o''] ''x64''"
  unfolding env_ok_def demo_dirs
  by (simp add: demo_host_def path_of_str_def demo_lib_def path_str_def byte_def)

lemma demo_typed: "args_typed demo_functions"
  by (simp add: args_typed_def demo_functions_def demo_fn_def demo_arg_def args_of_def)

lemma demo_static: "set (static_apis demo_functions) \<subseteq> set (take 2 demo_functions)"
  using set_first_by[of e_name "filter static_api demo_functions"]
  by (auto simp: static_apis_def demo_functions_def demo_fn_def static_api_def)

lemma demo_declarable: "\<forall>f\<in>set (static_apis demo_functions). args_declarable f"
  using demo_static by (force simp: demo_functions_def demo_fn_def demo_arg_def args_declarable_def args_of_def)

lemma demo_names_plain: "\<forall>f\<in>set (static_apis demo_functions). no_percent (the (e_name f))"
  using demo_static by (force simp: demo_functions_def demo_fn_def no_percent_def)

lemma demo_clang: "clang_ok demo_host [''o''] demo_functions demo_macros"
  by (simp add: clang_ok_def demo_host_def demo_typed demo_declarable demo_names_plain)

lemma demo_disk: "disk_ok demo_host"
  by (simp add: disk_ok_def demo_host_def)

lemma demo_regex: "regex_ok demo_host"
  by (simp add: regex_ok_def demo_host_def)

lemma demo_number: "parse_u64 (trim ''7'') = Some 7"
proof -
  have "trim ''7'' = ''7''" by code_simp
  then show ?thesis by (simp add: parse_u64_def is_digit_def dec_value_def)
qed

lemma demo_tools: "tools_ok demo_host [''p'']"
proof -
  have run: "exec_program demo_host b = Some ''7''" for b by (simp add: demo_host_def)
  have "is_utf8 ''7''" by code_simp
  with demo_number have "\<exists>s. exec_program demo_host b = Some s \<and> is_utf8 s \<and> parse_u64 (trim s) \<noteq> None" for b
    unfolding run by blast
  with demo_disk demo_regex show ?thesis unfolding tools_ok_def by blast
qed

lemma demo_templates: "templates_ok demo_host (files demo_world) [''p''] [''o''] (''%header_list%'' @ newline)
     (''%header_defs%'' @ newline) (''%static_impls%'' @ newline) demo_lib_template"
proof -
  have utf8: "is_utf8 (''%header_list%'' @ newline)" "is_utf8 (''%header_defs%'' @ newline)"
    "is_utf8 (''%static_impls%'' @ newline)" "is_utf8 demo_lib_template"
    by code_simp+
  have files: "files demo_world [''p'', ''gen'', ''dpdk.h.template''] = Some (FileNode (''%header_list%'' @ newline))"
    "files demo_world [''p'', ''gen'', ''static.h.template''] = Some (FileNode (''%header_defs%'' @ newline))"
    "files demo_world [''p'', ''gen'', ''static.c.template''] = Some (FileNode (''%static_impls%'' @ newline))"
    "files demo_world [''p'', ''gen'', ''lib.rs.template''] = Some (FileNode demo_lib_template)"
    by code_simp+
  have "env_var demo_host ''CARGO_FEATURE_CONSTANTS_CACHE'' = None" by (simp add: demo_host_def)
  moreover have "files demo_world p \<noteq> Some DirNode" for p
    by (simp add: demo_world_def demo_files_def demo_file_def)
  ultimately show ?thesis using utf8 files by (simp only: templates_ok_def append_Cons append_Nil simp_thms not_False_eq_True)
qed

lemma demo_read_dir:
  "read_dir demo_host inc_dir = Some [Some ''rte_ring_core.h'', None, Some ''rte_ring.h'', Some ''rte_config.h'']"
  "read_dir demo_host demo_lib = Some [Some ''librte_net_ring.a'', Some ''librte_net_mlx5.a'', Some ''librte_eal.a'']"
  "read_dir demo_host ([''p''] @ [''gen'']) = Some [Some ''lib.rs.template'']"
  by (simp_all add: demo_host_def inc_dir_def demo_lib_def)

lemma demo_names:
  "names_utf8 [Some ''rte_ring_core.h'', None, Some ''rte_ring.h'', Some ''rte_config.h'']"
  "names_utf8 [Some ''librte_net_ring.a'', Some ''librte_net_mlx5.a'', Some ''librte_eal.a'']"
  by (simp_all add: names_utf8_def split_dot_def byte_def)

lemma demo_is_file:
  "is_file (files demo_world) (inc_dir @ [''rte_ring.h''])" "is_file (files demo_world) (demo_lib @ [''librte_eal.a''])"
  by (simp_all add: is_file_def demo_world_def demo_files_def demo_file_def config_header_def
      build_config_header_def inc_dir_def demo_lib_def)

lemma demo_found:
  "''rte_ring.h'' \<in> headers_in (files demo_world) inc_dir config_header
     [Some ''rte_ring_core.h'', None, Some ''rte_ring.h'', Some ''rte_config.h'']"
  "demo_lib @ [''librte_eal.a''] \<in> rte_libs_in (files demo_world) demo_lib
     [Some ''librte_net_ring.a'', Some ''librte_net_mlx5.a'', Some ''librte_eal.a'']"
  using demo_is_file
  by (simp_all add: headers_in_def rte_libs_in_def is_rte_lib_def stem_of_def split_dot_def extension_def inc_dir_def
      config_header_def file_name_def)

lemma demo_installed: "dpdk_installed demo_host (files demo_world) [''p''] ''x64''"
  unfolding dpdk_installed_def demo_dirs
proof (intro conjI)
  show "files demo_world config_header \<noteq> None" "files demo_world build_config_header \<noteq> None"
    by (simp_all add: demo_world_def demo_files_def demo_file_def config_header_def build_config_header_def)
qed (use demo_read_dir demo_names demo_found in \<open>auto simp: path_str_def byte_def\<close>)

section \<open>The steps on this machine\<close>

definition demo_state :: build_state where
  "demo_state = \<lparr>project_path = [''p''], out_path = [''o''], system_include_path = [], include_path = Some inc_dir,
     library_path = Some demo_lib, dpdk_headers = [],
     dpdk_links = map (lib_file demo_lib) [''rte_eal'', ''rte_net_mlx5'', ''rte_net_ring''],
     dpdk_config = Some config_header, eal_function_use_defs = [], global_eal_function_use_defs = [],
     static_functions = [], static_constants = []\<rparr>"

lemma demo_state_found: "found_dpdk [''p''] [''o''] ''x64'' demo_state"
  by (simp add: found_dpdk_def demo_dirs demo_state_def)

lemma demo_out_utf8: "is_utf8 (path_str [''o''])"
  by code_simp

lemma demo_trans_unit:
  "trans_unit_from_header demo_host demo_state demo_world (out_path demo_state @ [''dpdk.h'']) False = Done demo_functions"
  "trans_unit_from_header demo_host demo_state demo_world (out_path demo_state @ [''dpdk.h'']) True = Done demo_macros"
  by (rule trans_unit_run; simp add: demo_state_def demo_host_def demo_out_utf8)+

lemma demo_hash: "hash_ok demo_host"
  by (simp add: hash_ok_def demo_host_def)

lemma demo_template_at:
  "template_at demo_state demo_world ''static.h.template'' (''%header_defs%'' @ newline)"
  "template_at demo_state demo_world ''static.c.template'' (''%static_impls%'' @ newline)"
  by (rule template_atI[OF demo_templates]; simp add: demo_state_def del: is_utf8.simps)+

theorem make_header_exact_witness:
  "\<exists>hs text. make_all_in_one_header demo_host demo_state demo_world =
     Done (demo_state\<lparr>dpdk_headers := ''rte_common.h'' # ''rte_config.h'' # hs\<rparr>,
       demo_world\<lparr>files := (files demo_world)([''o'', ''dpdk.h''] \<mapsto> FileNode text)\<rparr>) \<and> sorted hs"
proof -
  have st: "include_path demo_state = Some inc_dir" "dpdk_config demo_state = Some config_header"
    "project_path demo_state = [''p'']" "out_path demo_state = [''o'']" by (simp_all add: demo_state_def)
  have t: "files demo_world (project_path demo_state @ [''gen'', ''dpdk.h.template'']) \<noteq> None"
    using demo_templates unfolding templates_ok_def st(3) append_Cons append_Nil by simp
  have host: "can_create demo_host p" "disk_write demo_host p t = t" for p t by (simp_all add: demo_host_def)
  note exact = make_header_exact[OF st(1,2) demo_read_dir(1) demo_names(1), of demo_world]
  have "\<not> (headers_in (files demo_world) inc_dir config_header
     [Some ''rte_ring_core.h'', None, Some ''rte_ring.h'', Some ''rte_config.h''] = {} \<or>
     files demo_world (project_path demo_state @ [''gen'', ''dpdk.h.template'']) = None \<or>
     \<not> can_create demo_host (out_path demo_state @ [''dpdk.h'']))" using demo_found(1) t host(1) by blast
  note run = exact[unfolded if_not_P[OF this]]
  then show ?thesis unfolding st(4) append_Cons append_Nil host(2) by blast
qed

theorem eal_apis_exact_witness:
  "\<exists>defs global. extract_eal_apis demo_host demo_state demo_world =
     Done (demo_state\<lparr>eal_function_use_defs := defs, global_eal_function_use_defs := global\<rparr>) \<and>
     mset defs = mset (map (api_text ''&self, '') (trivial_apis demo_functions))"
proof -
  have "clang_available demo_host" by (simp add: demo_host_def)
  from eal_apis_exact[OF this demo_trans_unit(1) demo_typed demo_hash] show ?thesis by blast
qed


theorem static_wrappers_exact_witness:
  "\<exists>l. static_functions_of demo_functions \<lparr>fn_names = [], static_def_list = [], static_impl_list = []\<rparr> = Done l \<and>
     set (fn_names l) = {''rte_add'', ''rte_sum''}"
proof -
  have "{n. \<exists>f\<in>set demo_functions. static_api f \<and> e_name f = Some n} = {''rte_add'', ''rte_sum''}"
    by (auto simp: demo_functions_def demo_fn_def static_api_def)
  with static_wrappers_exact[of demo_functions demo_world demo_state demo_host] show ?thesis
    unfolding if_P[OF demo_declarable] by metis
qed

lemma demo_worker_run:
  "(worker_step 2 (\<lambda>n. n + 1))\<^sup>*\<^sup>* ([3, 5], \<lambda>_. []) ([], (\<lambda>_. [])(1 := [4 :: nat], 0 := [6]))"
proof -
  let ?g = "\<lambda>n :: nat. n + 1"
  have "worker_step 2 ?g ([3, 5], \<lambda>_. []) ([5], (\<lambda>_. [])(1 := [4]))"
    using worker_step.pop[of 1 2 ?g 3 "[5]" "\<lambda>_. []"] by simp
  moreover have "worker_step 2 ?g ([5], (\<lambda>_. [])(1 := [4])) ([], (\<lambda>_. [])(1 := [4], 0 := [6]))"
    using worker_step.pop[of 0 2 ?g 5 "[]" "(\<lambda>_. [])(1 := [4])"] by simp
  ultimately show ?thesis by (auto intro!: converse_rtranclp_into_rtranclp)
qed

theorem worker_runs_are_schedules_witness:
  "mset (concat (map ((\<lambda>_. [])(1 := [4 :: nat], 0 := [6])) [0..<2])) = mset (map (\<lambda>n. n + 1) [3, 5])"
  using worker_runs_are_schedules[of 2 "\<lambda>n. n + 1" "[3, 5]"] demo_worker_run by blast

lemma demo_constants:
  obtains pp rs where "probe_paths_of demo_host demo_state = Done pp"
    "probe_all demo_host (files demo_world) pp (macro_candidates demo_host demo_macros) = Done rs"
proof -
  obtain pp where pp: "probe_paths_of demo_host demo_state = Done pp" "pp_config pp = config_header"
      "pp_template pp = [''p''] @ [''gen'', ''int_test.c'']"
    using is_utf8_config demo_out_utf8
    by (simp add: probe_paths_of_def demo_state_def demo_host_def to_str_def byte_def)
  have "files demo_world p \<noteq> Some DirNode" for p
    by (simp add: demo_world_def demo_files_def demo_file_def)
  with probe_all_ok[OF demo_tools pp(3), of "files demo_world"] pp is_utf8_config(2) that show ?thesis by metis
qed

theorem constants_exact_witness:
  "\<exists>pp rs cs w1. probe_paths_of demo_host demo_state = Done pp \<and>
     probe_all demo_host (files demo_world) pp (macro_candidates demo_host demo_macros) = Done rs \<and>
     constants_stage demo_host demo_state demo_world = Done (''pub mod constants {'' @ newline @
       join_with newline (map (\<lambda>(name, ty, v). ''pub const '' @ name @ '': '' @ ty @ '' = '' @ show_dec (unat v) @ '';'') cs) @
       newline @ ''}'' @ newline, w1) \<and>
     mset cs = mset (map (retype (List.map_filter id rs)) (List.map_filter id rs))"
proof -
  have "workers_ok demo_host" "env_var demo_host ''CARGO_FEATURE_CONSTANTS_CACHE'' = None"
    by (simp_all add: workers_ok_def demo_host_def)
  with demo_constants constants_exact[OF demo_trans_unit(2)] show ?thesis by metis
qed

theorem link_directives_witness:
  "\<exists>lines. compile demo_host demo_state demo_world = Done (demo_world\<lparr>cargo_out := lines\<rparr>)"
proof -
  let ?xs = "[''rte_eal'', ''rte_net_mlx5'', ''rte_net_ring'']"
  have st: "include_path demo_state = Some inc_dir" "dpdk_config demo_state = Some config_header"
    "library_path demo_state = Some demo_lib" "dpdk_links demo_state = map (lib_file demo_lib) ?xs"
    by (simp_all add: demo_state_def)
  have u: "is_utf8 (path_str demo_lib)" "is_utf8 ''cc''" by code_simp+
  have host: "cc_path demo_host = Some ''cc''" "cc_compile demo_host f opts o' = Some []" for f opts o'
    by (simp_all add: demo_host_def)
  have "\<forall>x\<in>set ?xs. lib_name_ok x" by (simp add: lib_name_ok_def byte_def)
  from link_directives[OF st(1-3) is_utf8_config(2) u(1) host(2) host(1) u(2) demo_regex st(4) this]
  show ?thesis by blast
qed

theorem lib_rs_filled_witness:
  "fill_lib_rs (demo_state\<lparr>static_functions := [''f'']\<rparr>) (slots_filled [[], [], [], [], ''}''] lib_rs_slots) =
     slots_filled [[], [], [], [], ''}''] (lib_rs_values (demo_state\<lparr>static_functions := [''f'']\<rparr>))"
  by (rule lib_rs_filled)
    (simp add: lib_rs_values_def no_percent_def demo_state_def static_use_def PREFIX_def)

lemma demo_template_slot:
  "\<exists>rest. demo_lib_template = [] @ ''%static_use_defs%'' @ rest"
  by (simp add: demo_lib_template_def slots_filled_def lib_rs_slots_def slot_def)

theorem build_main_outcome_witness:
  "\<exists>st w'. build_main demo_host demo_world = Done (st, w') \<and>
     prefix (join_with newline (map static_use (static_functions st))) (fill_lib_rs st demo_lib_template) \<and>
     (\<forall>f\<in>set (trivial_apis demo_functions). the (e_name f) \<in> set (static_functions st)) \<and> dpdk_links st \<noteq> []"
proof -
  obtain rest where rest: "demo_lib_template = [] @ ''%static_use_defs%'' @ rest" using demo_template_slot by blast
  have "no_percent []" by (simp add: no_percent_def)
  note out = build_main_outcome[OF demo_env demo_installed demo_clang demo_tools demo_templates[unfolded rest] this, folded rest]
  have gen: "bindgen demo_host f hd args q = Some []" "cc_compile demo_host f opts o' = Some []" for f hd args q opts o'
    by (simp_all add: demo_host_def)
  from out show ?thesis unfolding gen by (auto simp: Let_def)
qed

end
